(* ===== verification/Prelude.thy ===== *)
theory Prelude
  imports Main "HOL-Library.Word"
begin

text \<open>
  The vocabulary every component shares: machine integers and byte strings, the \<open>Result\<close>
  combinators of Rust (\<open>?\<close>, \<open>ok_or\<close>, \<open>map_err\<close>), slices and \<open>copy_from_slice\<close>,
  little-endian integers, checked and saturating arithmetic, and the generic lemmas about them.

  Arithmetic written with \<open>+\<close>, \<open>-\<close>, \<open>*\<close> on words wraps, which is what the release profile of
  the crates does (no \<open>overflow-checks\<close> in \<open>src/Cargo.toml\<close>); where a caller relies on the
  absence of wrap-around, the absence is a lemma of the component.
\<close>

section \<open>Collections of facts\<close>

named_theorems layout \<open>slices and writes of fixed layouts\<close>
named_theorems result_simps \<open>how a computation on results succeeds or fails\<close>

section \<open>Types\<close>

type_synonym u8 = "8 word"
type_synonym u16 = "16 word"
type_synonym u32 = "32 word"
type_synonym u64 = "64 word"
type_synonym u128 = "128 word"
type_synonym bytes = "u8 list"
type_synonym pubkey = bytes

section \<open>Results\<close>

text \<open>\<open>Inl\<close> is \<open>Err\<close>, \<open>Inr\<close> is \<open>Ok\<close>. \<open>and_then\<close> is the \<open>?\<close> operator.\<close>

definition and_then :: "'e + 'a \<Rightarrow> ('a \<Rightarrow> 'e + 'b) \<Rightarrow> 'e + 'b" where
  "and_then r f = (case r of Inl e \<Rightarrow> Inl e | Inr x \<Rightarrow> f x)"

definition ok_or :: "'e \<Rightarrow> 'a option \<Rightarrow> 'e + 'a" where
  "ok_or e x = (case x of None \<Rightarrow> Inl e | Some y \<Rightarrow> Inr y)"

definition map_err :: "('e \<Rightarrow> 'f) \<Rightarrow> 'e + 'a \<Rightarrow> 'f + 'a" where
  "map_err g r = (case r of Inl e \<Rightarrow> Inl (g e) | Inr x \<Rightarrow> Inr x)"

definition is_err :: "'e + 'a \<Rightarrow> bool" where
  "is_err r = (case r of Inl _ \<Rightarrow> True | Inr _ \<Rightarrow> False)"

lemma and_then_simps [simp]:
  "and_then (Inl e) f = Inl e"
  "and_then (Inr x) f = f x"
  by (simp_all add: and_then_def)

lemma and_then_Inr [result_simps]:
  "(and_then r f = Inr y) \<longleftrightarrow> (\<exists>x. r = Inr x \<and> f x = Inr y)"
  by (cases r) simp_all

lemma and_then_Inl [result_simps]:
  "(and_then r f = Inl e) \<longleftrightarrow> (r = Inl e \<or> (\<exists>x. r = Inr x \<and> f x = Inl e))"
  by (cases r) simp_all

lemma ok_or_simps [simp]:
  "ok_or e None = Inl e"
  "ok_or e (Some x) = Inr x"
  by (simp_all add: ok_or_def)

lemma ok_or_Inr [result_simps]: "(ok_or e x = Inr y) \<longleftrightarrow> x = Some y"
  by (cases x) simp_all

lemma ok_or_Inl [result_simps]: "(ok_or e x = Inl e') \<longleftrightarrow> x = None \<and> e' = e"
  by (cases x) auto

lemma map_err_simps [simp]:
  "map_err g (Inl e) = Inl (g e)"
  "map_err g (Inr x) = Inr x"
  by (simp_all add: map_err_def)

lemma map_err_Inr [result_simps]: "(map_err g r = Inr y) \<longleftrightarrow> r = Inr y"
  by (cases r) simp_all

lemma map_err_Inl [result_simps]: "(map_err g r = Inl e) \<longleftrightarrow> (\<exists>e'. r = Inl e' \<and> e = g e')"
  by (cases r) auto

lemma is_err_simps [simp]:
  "is_err (Inl e)"
  "\<not> is_err (Inr x)"
  by (simp_all add: is_err_def)

lemma not_is_err_iff: "\<not> is_err r \<longleftrightarrow> (\<exists>x. r = Inr x)"
  by (cases r) simp_all

lemma is_err_unit_iff: "\<not> is_err r \<longleftrightarrow> r = Inr ()" for r :: "'e + unit"
  by (cases r) simp_all

section \<open>Integers\<close>

definition checked_add :: "'a::len word \<Rightarrow> 'a word \<Rightarrow> 'a word option" where
  "checked_add a b = (if unat a + unat b < 2 ^ LENGTH('a) then Some (a + b) else None)"

definition checked_sub :: "'a::len word \<Rightarrow> 'a word \<Rightarrow> 'a word option" where
  "checked_sub a b = (if b \<le> a then Some (a - b) else None)"

definition saturating_sub :: "'a::len word \<Rightarrow> 'a word \<Rightarrow> 'a word" where
  "saturating_sub a b = (if b \<le> a then a - b else 0)"

lemma unat_less_2p: "unat x < 2 ^ LENGTH('a)" for x :: "'a::len word"
  by (fact unsigned_less)

lemma unat_minus_le: "b \<le> a \<Longrightarrow> unat (a - b) = unat a - unat b"
  for a b :: "'a::len word"
  by (simp add: unat_sub)

lemma unat_add_bounded:
  "unat a + unat b < 2 ^ LENGTH('a) \<Longrightarrow> unat (a + b) = unat a + unat b"
  for a b :: "'a::len word"
  by (simp add: unat_word_ariths)

lemma unat_mult_bounded:
  "unat a * unat b < 2 ^ LENGTH('a) \<Longrightarrow> unat (a * b) = unat a * unat b"
  for a b :: "'a::len word"
  by (simp add: unat_word_ariths)

lemma unat_saturating_sub: "unat (saturating_sub a b) = unat a - unat b"
  by (auto simp: saturating_sub_def unat_minus_le word_le_nat_alt)

lemma checked_sub_Some:
  "checked_sub a b = Some c \<longleftrightarrow> unat b \<le> unat a \<and> c = a - b"
  by (auto simp: checked_sub_def word_le_nat_alt)

lemma checked_add_Some:
  fixes a b :: "'a::len word"
  shows "checked_add a b = Some c \<longleftrightarrow> unat a + unat b < 2 ^ LENGTH('a) \<and> c = a + b"
  by (auto simp: checked_add_def)

lemma unat_checked_sub: "checked_sub a b = Some c \<Longrightarrow> unat c = unat a - unat b \<and> unat b \<le> unat a"
  by (auto simp: checked_sub_Some unat_minus_le word_le_nat_alt)

lemma unat_checked_add: "checked_add a b = Some c \<Longrightarrow> unat c = unat a + unat b"
  by (auto simp: checked_add_Some unat_add_bounded)

lemma unat_u64_less: "unat (x :: u64) < 18446744073709551616"
  using unat_less_2p [of x] by simp

lemma unat_u128_less: "unat (x :: u128) < 340282366920938463463374607431768211456"
  using unat_less_2p [of x] by simp

lemma unat_widen: "unat (ucast (x :: u64) :: u128) = unat x"
  using unat_u64_less [of x] by (simp add: unsigned_ucast_eq take_bit_nat_eq_self)

section \<open>Little-endian integers\<close>

fun le_of_nat :: "nat \<Rightarrow> nat \<Rightarrow> bytes" where
  "le_of_nat 0 v = []"
| "le_of_nat (Suc n) v = of_nat v # le_of_nat n (v div 256)"

fun nat_of_le :: "bytes \<Rightarrow> nat" where
  "nat_of_le [] = 0"
| "nat_of_le (b # bs) = unat b + 256 * nat_of_le bs"

definition u16_le :: "u16 \<Rightarrow> bytes" where
  "u16_le x = le_of_nat 2 (unat x)"

definition u64_le :: "u64 \<Rightarrow> bytes" where
  "u64_le x = le_of_nat 8 (unat x)"

definition u128_le :: "u128 \<Rightarrow> bytes" where
  "u128_le x = le_of_nat 16 (unat x)"

definition u16_of_le :: "bytes \<Rightarrow> u16" where
  "u16_of_le bs = of_nat (nat_of_le bs)"

definition u64_of_le :: "bytes \<Rightarrow> u64" where
  "u64_of_le bs = of_nat (nat_of_le bs)"

definition u128_of_le :: "bytes \<Rightarrow> u128" where
  "u128_of_le bs = of_nat (nat_of_le bs)"

lemma length_le_of_nat [simp]: "length (le_of_nat n v) = n"
  by (induction n arbitrary: v) simp_all

lemma nat_of_le_of_nat: "nat_of_le (le_of_nat n v) = v mod 256 ^ n"
proof (induction n arbitrary: v)
  case 0
  then show ?case by simp
next
  case (Suc n)
  have "unat (of_nat v :: u8) = v mod 256"
    by (simp add: unat_of_nat)
  then show ?case
    using Suc by (simp add: mod_mult2_eq)
qed

lemma nat_of_le_less: "nat_of_le bs < 256 ^ length bs"
proof (induction bs)
  case Nil
  then show ?case by simp
next
  case (Cons b bs)
  have "unat b < 256"
    using unat_less_2p [of b] by simp
  with Cons show ?case by simp
qed

lemma le_of_nat_of_le: "le_of_nat (length bs) (nat_of_le bs) = bs"
proof (induction bs)
  case Nil
  then show ?case by simp
next
  case (Cons b bs)
  have b: "unat b < 256"
    using unat_less_2p [of b] by simp
  have "(256 :: u8) = 0"
    by simp
  then have "of_nat (unat b + 256 * nat_of_le bs) = b"
    by (simp only: of_nat_add of_nat_mult of_nat_numeral of_nat_unat ucast_id mult_zero_left add_0_right)
  moreover have "(unat b + 256 * nat_of_le bs) div 256 = nat_of_le bs"
    using b by simp
  ultimately show ?case
    using Cons by simp
qed

lemma length_u16_le [simp]: "length (u16_le x) = 2"
  by (simp add: u16_le_def)

lemma length_u64_le [simp]: "length (u64_le x) = 8"
  by (simp add: u64_le_def)

lemma length_u128_le [simp]: "length (u128_le x) = 16"
  by (simp add: u128_le_def)

lemma u16_of_le_u16_le [simp]: "u16_of_le (u16_le x) = x"
  using unat_less_2p [of x] by (simp add: u16_of_le_def u16_le_def nat_of_le_of_nat)

lemma u64_of_le_u64_le [simp]: "u64_of_le (u64_le x) = x"
  using unat_less_2p [of x] by (simp add: u64_of_le_def u64_le_def nat_of_le_of_nat)

lemma u128_of_le_u128_le [simp]: "u128_of_le (u128_le x) = x"
  using unat_less_2p [of x] by (simp add: u128_of_le_def u128_le_def nat_of_le_of_nat)

lemma u64_le_u64_of_le: "length bs = 8 \<Longrightarrow> u64_le (u64_of_le bs) = bs"
  using nat_of_le_less [of bs] le_of_nat_of_le [of bs]
  by (simp add: u64_of_le_def u64_le_def unat_of_nat)

lemma u128_le_u128_of_le: "length bs = 16 \<Longrightarrow> u128_le (u128_of_le bs) = bs"
  using nat_of_le_less [of bs] le_of_nat_of_le [of bs]
  by (simp add: u128_of_le_def u128_le_def unat_of_nat)

lemma u64_le_inj [simp]: "u64_le x = u64_le y \<longleftrightarrow> x = y"
  by (metis u64_of_le_u64_le)

lemma u128_le_inj [simp]: "u128_le x = u128_le y \<longleftrightarrow> x = y"
  by (metis u128_of_le_u128_le)

section \<open>Slices\<close>

text \<open>
  \<open>subslice a b xs\<close> is \<open>xs[a..b]\<close> where the range is known to be inside; \<open>get_range\<close> is
  \<open>xs.get(a..b)\<close>, and \<open>blit a ys xs\<close> is \<open>xs[a..a + ys.len()].copy_from_slice(ys)\<close>.
\<close>

definition subslice :: "nat \<Rightarrow> nat \<Rightarrow> 'a list \<Rightarrow> 'a list" where
  "subslice a b xs = take (b - a) (drop a xs)"

definition get_range :: "nat \<Rightarrow> nat \<Rightarrow> 'a list \<Rightarrow> 'a list option" where
  "get_range a b xs = (if a \<le> b \<and> b \<le> length xs then Some (subslice a b xs) else None)"

definition get_at :: "nat \<Rightarrow> 'a list \<Rightarrow> 'a option" where
  "get_at i xs = (if i < length xs then Some (xs ! i) else None)"

definition blit :: "nat \<Rightarrow> 'a list \<Rightarrow> 'a list \<Rightarrow> 'a list" where
  "blit a ys xs = take a xs @ ys @ drop (a + length ys) xs"

lemma length_subslice [simp]: "b \<le> length xs \<Longrightarrow> length (subslice a b xs) = b - a"
  by (simp add: subslice_def)

lemma length_blit [simp]: "a + length ys \<le> length xs \<Longrightarrow> length (blit a ys xs) = length xs"
  by (simp add: blit_def)

lemma subslice_full [layout]: "n = length xs \<Longrightarrow> subslice 0 n xs = xs"
  by (simp add: subslice_def)

lemma subslice_append_left [layout]: "b \<le> length xs \<Longrightarrow> subslice a b (xs @ ys) = subslice a b xs"
  by (simp add: subslice_def)

lemma subslice_append_right [layout]:
  "length xs \<le> a \<Longrightarrow> subslice a b (xs @ ys) = subslice (a - length xs) (b - length xs) ys"
  by (simp add: subslice_def)

lemma subslice_Cons [layout]: "0 < a \<Longrightarrow> subslice a b (x # xs) = subslice (a - 1) (b - 1) xs"
  by (cases a) (auto simp: subslice_def)

lemma nth_append_right [layout]: "length xs \<le> i \<Longrightarrow> (xs @ ys) ! i = ys ! (i - length xs)"
  by (simp add: nth_append)

lemma nth_append_left [layout]: "i < length xs \<Longrightarrow> (xs @ ys) ! i = xs ! i"
  by (simp add: nth_append)

lemma get_range_Some:
  "get_range a b xs = Some ys \<longleftrightarrow> a \<le> b \<and> b \<le> length xs \<and> ys = subslice a b xs"
  by (auto simp: get_range_def)

lemma get_range_prefix: "length xs = n \<Longrightarrow> get_range 0 n (xs @ ys) = Some xs"
  by (auto simp: get_range_def subslice_def)

lemma length_get_range: "get_range a b xs = Some ys \<Longrightarrow> length ys = b - a"
  by (simp add: get_range_Some)

lemma get_at_Some: "get_at i xs = Some x \<longleftrightarrow> i < length xs \<and> x = xs ! i"
  by (auto simp: get_at_def)

text \<open>Writing a buffer front to back: each write lands behind what is already there.\<close>

lemma blit_zero [layout]: "blit 0 ys xs = ys @ drop (length ys) xs"
  by (simp add: blit_def)

lemma blit_append [layout]: "length p \<le> a \<Longrightarrow> blit a ys (p @ q) = p @ blit (a - length p) ys q"
  by (simp add: blit_def)

lemma blit_Cons [layout]: "0 < a \<Longrightarrow> blit a ys (x # q) = x # blit (a - 1) ys q"
  by (cases a) (simp_all add: blit_def)

text \<open>A list is its consecutive slices.\<close>

lemma subslice_join: "a \<le> b \<Longrightarrow> b \<le> c \<Longrightarrow> subslice a b xs @ subslice b c xs = subslice a c xs"
proof -
  assume ab: "a \<le> b" and bc: "b \<le> c"
  have "drop b xs = drop (b - a) (drop a xs)"
    using ab by simp
  moreover have "c - a = (b - a) + (c - b)"
    using ab bc by simp
  ultimately show ?thesis
    by (simp add: subslice_def take_add)
qed

lemma subslice_join_rest:
  "a \<le> b \<Longrightarrow> b \<le> c \<Longrightarrow> subslice a b xs @ subslice b c xs @ rest = subslice a c xs @ rest"
  by (metis append_assoc subslice_join)

lemma nth_Cons_subslice: "i < length xs \<Longrightarrow> xs ! i # rest = subslice i (Suc i) xs @ rest"
  by (simp add: subslice_def take_Suc_conv_app_nth)

lemma subslice_singleton: "i < length xs \<Longrightarrow> subslice i (Suc i) xs = [xs ! i]"
  by (simp add: subslice_def take_Suc_conv_app_nth)


section \<open>Sums over lists\<close>

lemma sum_list_map_update:
  fixes f :: "'a \<Rightarrow> nat"
  assumes "i < length xs"
  shows "(\<Sum>x\<leftarrow>xs[i := y]. f x) + f (xs ! i) = (\<Sum>x\<leftarrow>xs. f x) + f y"
  using assms
proof (induction xs arbitrary: i)
  case Nil
  then show ?case by simp
next
  case (Cons x xs)
  then show ?case by (cases i) (simp_all add: algebra_simps)
qed

lemma nth_le_sum_list_map:
  fixes f :: "'a \<Rightarrow> nat"
  assumes "i < length xs"
  shows "f (xs ! i) \<le> (\<Sum>x\<leftarrow>xs. f x)"
  using assms by (simp add: member_le_sum_list)

lemma sum_list_map_add_mult:
  fixes f g :: "'a \<Rightarrow> nat"
  shows "(\<Sum>x\<leftarrow>xs. f x + g x * c) = (\<Sum>x\<leftarrow>xs. f x) + (\<Sum>x\<leftarrow>xs. g x) * c"
  by (induction xs) (simp_all add: algebra_simps)

lemma sum_list_map_div_le:
  fixes f :: "'a \<Rightarrow> nat"
  shows "(\<Sum>x\<leftarrow>xs. f x div c) \<le> (\<Sum>x\<leftarrow>xs. f x) div c"
proof (induction xs)
  case Nil
  then show ?case by simp
next
  case (Cons x xs)
  have "f x div c + (\<Sum>x\<leftarrow>xs. f x) div c \<le> (f x + (\<Sum>x\<leftarrow>xs. f x)) div c"
  proof (cases "c = 0")
    case False
    have "(f x div c) * c + ((\<Sum>x\<leftarrow>xs. f x) div c) * c \<le> f x + (\<Sum>x\<leftarrow>xs. f x)"
      by (intro add_mono div_times_less_eq_dividend)
    then show ?thesis
      using False by (simp add: less_eq_div_iff_mult_less_eq distrib_right)
  qed simp
  with Cons show ?case by simp
qed

lemma unat_of_nat_u64: "n < 2 ^ 64 \<Longrightarrow> unat (of_nat n :: u64) = n"
  by (simp add: unat_of_nat take_bit_eq_mod)

end
