(* ===== verification/Constants.thy ===== *)
theory Constants
  imports Prelude
begin

text \<open>
  The wire constants of the crate \<open>src/crates/constants\<close>: receipt modes and outcomes as the
  bytes they travel as, the frozen receipt layout, and the basis points, scale and timelock of
  the slashing rules. The values are computed the way the source computes them, each offset from
  the one before; the lemmas \<open>receipt_offsets\<close> evaluate them once.
\<close>

section \<open>Modes\<close>

definition MODE_PLAIN :: u8 where "MODE_PLAIN = 0x01"
definition MODE_COMMIT :: u8 where "MODE_COMMIT = 0x02"
definition MODE_REVEAL :: u8 where "MODE_REVEAL = 0x03"
definition MODE_RETRACT :: u8 where "MODE_RETRACT = 0x04"

datatype mode = Plain | Commit | Reveal | Retract

definition mode_from_u8 :: "u8 \<Rightarrow> mode option" where
  "mode_from_u8 byte =
     (if byte = MODE_PLAIN then Some Plain
      else if byte = MODE_COMMIT then Some Commit
      else if byte = MODE_REVEAL then Some Reveal
      else if byte = MODE_RETRACT then Some Retract
      else None)"

fun mode_as_u8 :: "mode \<Rightarrow> u8" where
  "mode_as_u8 Plain = MODE_PLAIN"
| "mode_as_u8 Commit = MODE_COMMIT"
| "mode_as_u8 Reveal = MODE_REVEAL"
| "mode_as_u8 Retract = MODE_RETRACT"

lemmas mode_bytes = MODE_PLAIN_def MODE_COMMIT_def MODE_REVEAL_def MODE_RETRACT_def

lemma mode_from_as_u8 [simp]: "mode_from_u8 (mode_as_u8 m) = Some m"
  by (cases m) (simp_all add: mode_from_u8_def mode_bytes)

lemma mode_from_u8_Some: "mode_from_u8 b = Some m \<longleftrightarrow> b = mode_as_u8 m"
  by (cases m) (auto simp: mode_from_u8_def mode_bytes split: if_splits)

section \<open>Outcomes\<close>

definition OUTCOME_PENDING :: u8 where "OUTCOME_PENDING = 0x01"
definition OUTCOME_ACCEPTED :: u8 where "OUTCOME_ACCEPTED = 0x02"
definition OUTCOME_REJECTED :: u8 where "OUTCOME_REJECTED = 0x03"
definition OUTCOME_EXPIRED :: u8 where "OUTCOME_EXPIRED = 0x04"

datatype outcome = Pending | Accepted | Rejected_outcome | Expired

definition outcome_from_u8 :: "u8 \<Rightarrow> outcome option" where
  "outcome_from_u8 byte =
     (if byte = OUTCOME_PENDING then Some Pending
      else if byte = OUTCOME_ACCEPTED then Some Accepted
      else if byte = OUTCOME_REJECTED then Some Rejected_outcome
      else if byte = OUTCOME_EXPIRED then Some Expired
      else None)"

fun outcome_as_u8 :: "outcome \<Rightarrow> u8" where
  "outcome_as_u8 Pending = OUTCOME_PENDING"
| "outcome_as_u8 Accepted = OUTCOME_ACCEPTED"
| "outcome_as_u8 Rejected_outcome = OUTCOME_REJECTED"
| "outcome_as_u8 Expired = OUTCOME_EXPIRED"

lemmas outcome_bytes =
  OUTCOME_PENDING_def OUTCOME_ACCEPTED_def OUTCOME_REJECTED_def OUTCOME_EXPIRED_def

lemma outcome_from_as_u8 [simp]: "outcome_from_u8 (outcome_as_u8 r) = Some r"
  by (cases r) (simp_all add: outcome_from_u8_def outcome_bytes)

section \<open>The receipt layout\<close>

definition LEN_DOMAIN_TAG :: nat where "LEN_DOMAIN_TAG = 12"
definition LEN_LOG_ID :: nat where "LEN_LOG_ID = 32"
definition LEN_MODE :: nat where "LEN_MODE = 1"
definition LEN_SEQ :: nat where "LEN_SEQ = 8"
definition LEN_TX_SIG :: nat where "LEN_TX_SIG = 64"
definition LEN_HASH :: nat where "LEN_HASH = 32"
definition LEN_PUBKEY :: nat where "LEN_PUBKEY = 32"
definition LEN_SLOT :: nat where "LEN_SLOT = 8"
definition LEN_MICROS :: nat where "LEN_MICROS = 8"

text \<open>The ASCII bytes of \<open>MBRECEIPT_V1\<close>.\<close>

definition DOMAIN_TAG :: bytes where
  "DOMAIN_TAG = [77, 66, 82, 69, 67, 69, 73, 80, 84, 95, 86, 49]"

definition OFF_DOMAIN_TAG :: nat where "OFF_DOMAIN_TAG = 0"
definition OFF_LOG_ID :: nat where "OFF_LOG_ID = OFF_DOMAIN_TAG + LEN_DOMAIN_TAG"
definition OFF_MODE :: nat where "OFF_MODE = OFF_LOG_ID + LEN_LOG_ID"
definition OFF_SEQ :: nat where "OFF_SEQ = OFF_MODE + LEN_MODE"
definition OFF_TX_SIG :: nat where "OFF_TX_SIG = OFF_SEQ + LEN_SEQ"
definition OFF_TX_HASH :: nat where "OFF_TX_HASH = OFF_TX_SIG + LEN_TX_SIG"
definition OFF_RECENT_BLOCKHASH :: nat where "OFF_RECENT_BLOCKHASH = OFF_TX_HASH + LEN_HASH"
definition OFF_PREV_RECEIPT_HASH :: nat where
  "OFF_PREV_RECEIPT_HASH = OFF_RECENT_BLOCKHASH + LEN_HASH"
definition OFF_COMMITTER :: nat where "OFF_COMMITTER = OFF_PREV_RECEIPT_HASH + LEN_HASH"
definition OFF_INGRESS_SLOT :: nat where "OFF_INGRESS_SLOT = OFF_COMMITTER + LEN_PUBKEY"
definition OFF_T_INGRESS_MICROS :: nat where "OFF_T_INGRESS_MICROS = OFF_INGRESS_SLOT + LEN_SLOT"
definition RECEIPT_LEN :: nat where "RECEIPT_LEN = OFF_T_INGRESS_MICROS + LEN_MICROS"

definition LEN_SIGNATURE :: nat where "LEN_SIGNATURE = 64"
definition OFF_SIGNATURE :: nat where "OFF_SIGNATURE = RECEIPT_LEN"
definition SIGNED_RECEIPT_LEN :: nat where "SIGNED_RECEIPT_LEN = OFF_SIGNATURE + LEN_SIGNATURE"

definition ZERO_SIG :: bytes where "ZERO_SIG = replicate LEN_TX_SIG 0"
definition ZERO_PUBKEY :: bytes where "ZERO_PUBKEY = replicate LEN_PUBKEY 0"
definition ZERO_HASH :: bytes where "ZERO_HASH = replicate LEN_HASH 0"
definition GENESIS_PREV_HASH :: bytes where "GENESIS_PREV_HASH = ZERO_HASH"

lemma receipt_lengths [simp]:
  "LEN_DOMAIN_TAG = 12" "LEN_LOG_ID = 32" "LEN_MODE = 1" "LEN_SEQ = 8" "LEN_TX_SIG = 64"
  "LEN_HASH = 32" "LEN_PUBKEY = 32" "LEN_SLOT = 8" "LEN_MICROS = 8" "LEN_SIGNATURE = 64"
  by (simp_all add: LEN_DOMAIN_TAG_def LEN_LOG_ID_def LEN_MODE_def LEN_SEQ_def LEN_TX_SIG_def
      LEN_HASH_def LEN_PUBKEY_def LEN_SLOT_def LEN_MICROS_def LEN_SIGNATURE_def)

lemma receipt_offsets [simp]:
  "OFF_DOMAIN_TAG = 0" "OFF_LOG_ID = 12" "OFF_MODE = 44" "OFF_SEQ = 45" "OFF_TX_SIG = 53"
  "OFF_TX_HASH = 117" "OFF_RECENT_BLOCKHASH = 149" "OFF_PREV_RECEIPT_HASH = 181"
  "OFF_COMMITTER = 213" "OFF_INGRESS_SLOT = 245" "OFF_T_INGRESS_MICROS = 253"
  "RECEIPT_LEN = 261" "OFF_SIGNATURE = 261" "SIGNED_RECEIPT_LEN = 325"
  by (simp_all add: OFF_DOMAIN_TAG_def OFF_LOG_ID_def OFF_MODE_def OFF_SEQ_def OFF_TX_SIG_def
      OFF_TX_HASH_def OFF_RECENT_BLOCKHASH_def OFF_PREV_RECEIPT_HASH_def OFF_COMMITTER_def
      OFF_INGRESS_SLOT_def OFF_T_INGRESS_MICROS_def RECEIPT_LEN_def OFF_SIGNATURE_def
      SIGNED_RECEIPT_LEN_def)

lemma length_DOMAIN_TAG [simp]: "length DOMAIN_TAG = 12"
  by (simp add: DOMAIN_TAG_def)

lemma length_zeros [simp]:
  "length ZERO_SIG = 64" "length ZERO_PUBKEY = 32" "length ZERO_HASH = 32"
  "length GENESIS_PREV_HASH = 32"
  by (simp_all add: ZERO_SIG_def ZERO_PUBKEY_def ZERO_HASH_def GENESIS_PREV_HASH_def)

section \<open>The slashing rules\<close>

definition BPS_DENOMINATOR :: u64 where "BPS_DENOMINATOR = 10000"
definition BURN_BPS :: u64 where "BURN_BPS = 5000"
definition VICTIM_BPS :: u64 where "VICTIM_BPS = 3000"
definition POOL_BPS :: u64 where "POOL_BPS = 2000"
definition REWARD_SCALE :: u128 where "REWARD_SCALE = 1000000000000"
definition UNBOND_SLOTS :: u64 where "UNBOND_SLOTS = 216000"

lemma bps_values [simp]:
  "unat BPS_DENOMINATOR = 10000" "unat BURN_BPS = 5000" "unat VICTIM_BPS = 3000"
  "unat POOL_BPS = 2000" "unat REWARD_SCALE = 1000000000000" "unat UNBOND_SLOTS = 216000"
  by (simp_all add: BPS_DENOMINATOR_def BURN_BPS_def VICTIM_BPS_def POOL_BPS_def
      REWARD_SCALE_def UNBOND_SLOTS_def)

text \<open>The two compile-time assertions of \<open>slashing.rs\<close>.\<close>

lemma bps_assertions:
  "BURN_BPS + VICTIM_BPS + POOL_BPS = BPS_DENOMINATOR"
  "VICTIM_BPS + POOL_BPS \<le> BURN_BPS"
  by (simp_all add: BPS_DENOMINATOR_def BURN_BPS_def VICTIM_BPS_def POOL_BPS_def)

end
