(* ===== verification/Slashing.thy ===== *)
theory Slashing
  imports Constants
begin

text \<open>
  The slashing crate (\<open>src/crates/slashing\<close>): how a slashed bond is split, one staker's claim on
  the coverage pool, and the pool itself. Lamports are \<open>u64\<close>, the reward index \<open>u128\<close>; each
  operation is given in exact arithmetic by a lemma about \<open>unat\<close>, with the bound that keeps the
  machine arithmetic from wrapping.
\<close>

section \<open>The split\<close>

record slash_split =
  sp_burn :: u64
  sp_victim :: u64
  sp_pool :: u64

definition split_share :: "u64 \<Rightarrow> u64 \<Rightarrow> u64" where
  "split_share slashed bps = ucast ((ucast slashed * ucast bps :: u128) div ucast BPS_DENOMINATOR)"

definition split_of :: "u64 \<Rightarrow> slash_split" where
  "split_of slashed =
     (let victim = split_share slashed VICTIM_BPS;
          pool = split_share slashed POOL_BPS
      in \<lparr>sp_burn = slashed - victim - pool, sp_victim = victim, sp_pool = pool\<rparr>)"

definition split_total :: "slash_split \<Rightarrow> u64" where
  "split_total s = sp_burn s + sp_victim s + sp_pool s"

definition without_pool :: "slash_split \<Rightarrow> slash_split" where
  "without_pool s = s\<lparr>sp_burn := sp_burn s + sp_pool s, sp_pool := 0\<rparr>"

section \<open>A position\<close>

record position =
  q_staked :: u64
  q_entry_index :: u128
  q_reward :: u64

definition accrued :: "position \<Rightarrow> u128 \<Rightarrow> u64" where
  "accrued q index =
     (let delta = saturating_sub index (q_entry_index q)
      in ucast ((ucast (q_staked q) * delta) div REWARD_SCALE))"

definition claimable :: "position \<Rightarrow> u128 \<Rightarrow> u64" where
  "claimable q index = q_reward q + accrued q index"

definition settle :: "position \<Rightarrow> u128 \<Rightarrow> position" where
  "settle q index = q\<lparr>q_reward := q_reward q + accrued q index, q_entry_index := index\<rparr>"

section \<open>The pool\<close>

datatype pool_error = StakeIsZero | PoolOverdraw u64 u64 | ForeignPosition

record pool =
  p_staked :: u64
  p_reward_index :: u128

definition pool_stake :: "pool \<Rightarrow> position \<Rightarrow> u64 \<Rightarrow> pool_error + pool \<times> position" where
  "pool_stake p q amount =
     (if amount = 0 then Inl StakeIsZero
      else if 0 < q_staked q \<and> p_reward_index p < q_entry_index q then Inl ForeignPosition
      else
        (let q = settle q (p_reward_index p);
             q = q\<lparr>q_staked := q_staked q + amount\<rparr>;
             p = p\<lparr>p_staked := p_staked p + amount\<rparr>
         in Inr (p, q)))"

definition pool_unstake :: "pool \<Rightarrow> position \<Rightarrow> u64 \<Rightarrow> pool_error + pool \<times> position \<times> u64" where
  "pool_unstake p q amount =
     (if q_staked q < amount then Inl (PoolOverdraw amount (q_staked q))
      else
        (let q = settle q (p_reward_index p);
             q = q\<lparr>q_staked := q_staked q - amount\<rparr>;
             p = p\<lparr>p_staked := p_staked p - amount\<rparr>
         in Inr (p, q, amount)))"

definition pool_claim :: "pool \<Rightarrow> position \<Rightarrow> position \<times> u64" where
  "pool_claim p q =
     (let q = settle q (p_reward_index p)
      in (q\<lparr>q_reward := 0\<rparr>, q_reward q))"

definition distribute :: "pool \<Rightarrow> slash_split \<Rightarrow> pool \<times> slash_split" where
  "distribute p s =
     (if p_staked p = 0 \<or> sp_pool s = 0 then (p, without_pool s)
      else
        (p\<lparr>p_reward_index :=
             p_reward_index p + (ucast (sp_pool s) * REWARD_SCALE) div ucast (p_staked p)\<rparr>, s))"

section \<open>The split in exact arithmetic\<close>

lemma unat_narrow:
  assumes "unat (z :: u128) < 18446744073709551616"
  shows "unat (ucast z :: u64) = unat z"
  using assms by (simp add: unsigned_ucast_eq take_bit_nat_eq_self)

lemma unat_wide_mult: "unat (ucast (a :: u64) * ucast (b :: u64) :: u128) = unat a * unat b"
proof -
  have "unat a * unat b < 18446744073709551616 * 18446744073709551616"
    by (intro mult_strict_mono unat_u64_less) simp_all
  then show ?thesis
    by (subst unat_mult_bounded) (simp_all add: unat_widen)
qed

lemma unat_split_share:
  assumes "unat bps \<le> 10000"
  shows "unat (split_share slashed bps) = unat slashed * unat bps div 10000"
proof -
  have div: "unat ((ucast slashed * ucast bps :: u128) div ucast BPS_DENOMINATOR) =
      unat slashed * unat bps div 10000"
    by (simp add: unat_div unat_wide_mult unat_widen)
  have "unat slashed * unat bps \<le> unat slashed * 10000"
    using assms by simp
  then have "unat slashed * unat bps div 10000 \<le> unat slashed"
    by (metis div_le_mono div_mult_self_is_m zero_less_numeral)
  then show ?thesis
    using unat_u64_less [of slashed] div by (simp add: split_share_def unat_narrow)
qed

lemma split_of_exact:
  "unat (sp_victim (split_of x)) = unat x * 3000 div 10000"
  "unat (sp_pool (split_of x)) = unat x * 2000 div 10000"
  "unat (sp_burn (split_of x)) = unat x - unat x * 3000 div 10000 - unat x * 2000 div 10000"
proof -
  let ?v = "split_share x VICTIM_BPS" and ?p = "split_share x POOL_BPS"
  have v: "unat ?v = unat x * 3000 div 10000" and p: "unat ?p = unat x * 2000 div 10000"
    by (simp_all add: unat_split_share)
  have vx: "?v \<le> x"
    by (simp add: word_le_nat_alt v)
  have "?p \<le> x - ?v"
    by (simp add: word_le_nat_alt unat_minus_le [OF vx] v p)
  then show "unat (sp_burn (split_of x)) = unat x - unat x * 3000 div 10000 - unat x * 2000 div 10000"
    by (simp add: split_of_def Let_def unat_minus_le vx v p)
  show "unat (sp_victim (split_of x)) = unat x * 3000 div 10000"
    and "unat (sp_pool (split_of x)) = unat x * 2000 div 10000"
    by (simp_all add: split_of_def Let_def v p)
qed

lemma split_of_sum:
  "unat (sp_burn (split_of x)) + unat (sp_victim (split_of x)) + unat (sp_pool (split_of x)) = unat x"
  unfolding split_of_exact by linarith

section \<open>Accrual in exact arithmetic\<close>

text \<open>What the index owes a position, in units of one scaled lamport.\<close>

definition owed :: "pool \<Rightarrow> position \<Rightarrow> nat" where
  "owed p q = unat (q_reward q) * 1000000000000 +
     unat (q_staked q) * (unat (p_reward_index p) - unat (q_entry_index q))"

abbreviation owed_bound :: nat where
  "owed_bound \<equiv> 1000000000000 * 18446744073709551616"

lemma unat_accrued:
  assumes "owed p q < owed_bound"
  shows "unat (accrued q (p_reward_index p)) =
    unat (q_staked q) * (unat (p_reward_index p) - unat (q_entry_index q)) div 1000000000000"
proof -
  let ?d = "saturating_sub (p_reward_index p) (q_entry_index q)"
  have b: "unat (q_staked q) * unat ?d < owed_bound"
    using assms by (simp add: owed_def unat_saturating_sub)
  then have m: "unat (ucast (q_staked q) * ?d) = unat (q_staked q) * unat ?d"
    by (subst unat_mult_bounded) (simp_all add: unat_widen)
  have "unat (q_staked q) * unat ?d div 1000000000000 < 18446744073709551616"
    using b by (simp add: less_mult_imp_div_less mult.commute)
  then show ?thesis
    by (simp add: accrued_def unat_narrow unat_div m) (simp add: unat_saturating_sub)
qed

lemma unat_claimable:
  assumes "owed p q < owed_bound"
  shows "unat (claimable q (p_reward_index p)) = owed p q div 1000000000000"
proof -
  let ?a = "unat (q_staked q) * (unat (p_reward_index p) - unat (q_entry_index q))"
  have sum: "unat (q_reward q) + ?a div 1000000000000 = owed p q div 1000000000000"
    by (simp add: owed_def)
  moreover have "owed p q div 1000000000000 < 18446744073709551616"
    using assms by (simp add: less_mult_imp_div_less mult.commute)
  ultimately show ?thesis
    using unat_accrued [OF assms]
    by (simp add: claimable_def unat_add_bounded)
qed

lemma settle_fields [simp]:
  "q_staked (settle q i) = q_staked q"
  "q_entry_index (settle q i) = i"
  "q_reward (settle q i) = claimable q i"
  by (simp_all add: settle_def claimable_def)

end
