(* ===== verification/Pool_Contract.thy ===== *)
theory Pool_Contract
  imports Slashing
begin

text \<open>
  What a coverage pool promises its stakers, as a contract. The locale \<open>coverage_pool\<close> states the
  laws of the four pool operations on one position, in exact arithmetic and in scaled lamports:
  staking and settling never create a claim, claiming pays no more than is due, distributing a
  share raises the dues of everyone staked by an amount the share covers. From these laws alone
  the accounting of a whole pool follows: the claims of all positions together never exceed what
  was distributed and not yet paid. The model's pool interprets the contract, and the runs of
  that pool inherit the accounting.
\<close>

locale coverage_pool =
  fixes stake :: "'p \<Rightarrow> 'q \<Rightarrow> u64 \<Rightarrow> 'e + 'p \<times> 'q"
    and unstake :: "'p \<Rightarrow> 'q \<Rightarrow> u64 \<Rightarrow> 'e + 'p \<times> 'q \<times> u64"
    and claim :: "'p \<Rightarrow> 'q \<Rightarrow> 'q \<times> u64"
    and distribute :: "'p \<Rightarrow> 's \<Rightarrow> 'p \<times> 's"
    and share :: "'s \<Rightarrow> nat"
    and total :: "'p \<Rightarrow> nat"
    and staked :: "'q \<Rightarrow> nat"
    and due :: "'p \<Rightarrow> 'q \<Rightarrow> nat"
    and level :: "'p \<Rightarrow> nat"
    and anchored :: "'p \<Rightarrow> 'q \<Rightarrow> bool"
    and scale :: nat
  assumes scale_pos: "0 < scale"
    and same_level:
      "level p' = level p \<Longrightarrow> due p' q = due p q \<and> (anchored p' q \<longleftrightarrow> anchored p q)"
    and stake_law:
      "stake p q a = Inr (p', q') \<Longrightarrow> anchored p q \<Longrightarrow> due p q < scale * 2 ^ 64 \<Longrightarrow>
       staked q \<le> total p \<Longrightarrow> total p + unat a < 2 ^ 64 \<Longrightarrow>
       total p' = total p + unat a \<and> staked q' = staked q + unat a \<and>
       due p' q' \<le> due p q \<and> anchored p' q' \<and> level p' = level p"
    and unstake_law:
      "unstake p q a = Inr (p', q', v) \<Longrightarrow> anchored p q \<Longrightarrow> due p q < scale * 2 ^ 64 \<Longrightarrow>
       staked q \<le> total p \<Longrightarrow>
       v = a \<and> unat a \<le> staked q \<and> total p' = total p - unat a \<and> staked q' = staked q - unat a \<and>
       due p' q' \<le> due p q \<and> anchored p' q' \<and> level p' = level p"
    and claim_law:
      "claim p q = (q', v) \<Longrightarrow> anchored p q \<Longrightarrow> due p q < scale * 2 ^ 64 \<Longrightarrow>
       staked q' = staked q \<and> due p q' + scale * unat v \<le> due p q \<and> anchored p q'"
    and distribute_law:
      "distribute p s = (p', s') \<Longrightarrow> level p + scale * share s < 2 ^ 128 \<Longrightarrow>
       \<exists>gain. total p' = total p \<and> level p' = level p + gain \<and> share s' \<le> share s \<and>
         gain \<le> scale * share s' \<and> total p * gain \<le> scale * share s' \<and>
         (\<forall>q. anchored p q \<longrightarrow> anchored p' q \<and> due p' q = due p q + staked q * gain)"
begin

definition solvent :: "'p \<Rightarrow> 'q list \<Rightarrow> nat \<Rightarrow> nat \<Rightarrow> bool" where
  "solvent p qs funded paid \<longleftrightarrow>
     (\<Sum>q\<leftarrow>qs. staked q) = total p \<and>
     (\<forall>q \<in> set qs. anchored p q) \<and>
     (\<Sum>q\<leftarrow>qs. due p q) + scale * paid \<le> scale * funded \<and>
     level p \<le> scale * funded \<and>
     funded < 2 ^ 64"

lemma solvent_position:
  assumes "solvent p qs funded paid" and "i < length qs"
  shows "anchored p (qs ! i)" and "due p (qs ! i) < scale * 2 ^ 64"
    and "staked (qs ! i) \<le> total p"
proof -
  show "anchored p (qs ! i)"
    using assms by (simp add: solvent_def)
  have "due p (qs ! i) \<le> scale * funded"
    using nth_le_sum_list_map [OF assms(2), of "due p"] assms(1) by (simp add: solvent_def)
  also have "\<dots> < scale * 2 ^ 64"
    using assms(1) scale_pos by (simp add: solvent_def)
  finally show "due p (qs ! i) < scale * 2 ^ 64" .
  show "staked (qs ! i) \<le> total p"
    using nth_le_sum_list_map [OF assms(2), of staked] assms(1) by (simp add: solvent_def)
qed

lemma solvent_update:
  assumes "solvent p qs funded paid" and i: "i < length qs"
    and "level p' = level p" and "anchored p' q'"
    and "total p' + staked (qs ! i) = total p + staked q'"
    and "due p' q' + scale * v \<le> due p (qs ! i)"
  shows "solvent p' (qs[i := q']) funded (paid + v)"
proof -
  have due: "due p' q = due p q" and anch: "anchored p' q = anchored p q" for q
    using same_level assms(3) by blast+
  have "(\<Sum>q\<leftarrow>qs[i := q']. staked q) + staked (qs ! i) = (\<Sum>q\<leftarrow>qs. staked q) + staked q'"
    using i by (rule sum_list_map_update)
  then have "(\<Sum>q\<leftarrow>qs[i := q']. staked q) = total p'"
    using assms(1,5) by (simp add: solvent_def)
  moreover have "(\<Sum>q\<leftarrow>qs[i := q']. due p q) + due p (qs ! i) = (\<Sum>q\<leftarrow>qs. due p q) + due p q'"
    using i by (rule sum_list_map_update)
  then have "(\<Sum>q\<leftarrow>qs[i := q']. due p' q) + scale * (paid + v) \<le> scale * funded"
    using assms(1,6) by (simp add: solvent_def due algebra_simps)
  moreover have "\<forall>q \<in> set (qs[i := q']). anchored p' q"
    using assms(1,4) set_update_subset_insert [of qs i q'] by (auto simp: solvent_def anch)
  ultimately show ?thesis
    using assms(1,3) by (simp add: solvent_def)
qed

lemma solvent_stake:
  assumes "solvent p qs funded paid" and "i < length qs"
    and "stake p (qs ! i) a = Inr (p', q')" and "total p + unat a < 2 ^ 64"
  shows "solvent p' (qs[i := q']) funded paid"
  using solvent_update [OF assms(1,2), of p' q' 0]
    stake_law [OF assms(3) solvent_position [OF assms(1,2)] assms(4)]
  by simp

lemma solvent_unstake:
  assumes "solvent p qs funded paid" and "i < length qs"
    and "unstake p (qs ! i) a = Inr (p', q', v)"
  shows "solvent p' (qs[i := q']) funded paid"
  using solvent_update [OF assms(1,2), of p' q' 0] solvent_position(3) [OF assms(1,2)]
    unstake_law [OF assms(3) solvent_position [OF assms(1,2)]]
  by simp

lemma solvent_claim:
  assumes "solvent p qs funded paid" and "i < length qs"
    and "claim p (qs ! i) = (q', v)"
  shows "solvent p (qs[i := q']) funded (paid + unat v)"
  using solvent_update [OF assms(1,2), of p q' "unat v"]
    claim_law [OF assms(3) solvent_position(1,2) [OF assms(1,2)]]
  by simp

lemma solvent_open:
  assumes "solvent p qs funded paid" and "staked q = 0" and "due p q = 0" and "anchored p q"
  shows "solvent p (qs @ [q]) funded paid"
  using assms by (auto simp: solvent_def)

lemma solvent_distribute:
  assumes "solvent p qs funded paid" and "distribute p s = (p', s')" and "funded + share s < 2 ^ 64"
    and "scale < 2 ^ 60"
  shows "solvent p' qs (funded + share s') paid"
proof -
  have "scale * (funded + share s) < 2 ^ 60 * 2 ^ 64"
    using assms(3,4) by (intro mult_strict_mono) auto
  then have "level p + scale * share s < 2 ^ 128"
    using assms(1) by (simp add: solvent_def algebra_simps)
  then obtain g where g: "total p' = total p" "level p' = level p + g" "share s' \<le> share s"
      "g \<le> scale * share s'" "total p * g \<le> scale * share s'"
      and pos: "\<And>q. anchored p q \<Longrightarrow> anchored p' q \<and> due p' q = due p q + staked q * g"
    using distribute_law [OF assms(2)] by blast
  have "(\<Sum>q\<leftarrow>qs. due p' q) = (\<Sum>q\<leftarrow>qs. due p q + staked q * g)"
    using assms(1) pos by (intro arg_cong [where f = sum_list] map_cong) (auto simp: solvent_def)
  then have "(\<Sum>q\<leftarrow>qs. due p' q) = (\<Sum>q\<leftarrow>qs. due p q) + total p * g"
    using assms(1) by (simp add: sum_list_map_add_mult solvent_def)
  then have "(\<Sum>q\<leftarrow>qs. due p' q) + scale * paid \<le> scale * (funded + share s')"
    using assms(1) g(5) by (simp add: solvent_def distrib_left)
  moreover have "level p' \<le> scale * (funded + share s')"
    using assms(1) g(2,4) by (simp add: solvent_def distrib_left)
  moreover have "\<forall>q \<in> set qs. anchored p' q"
    using assms(1) pos by (simp add: solvent_def)
  ultimately show ?thesis
    using assms(1,3) g(1,3) by (simp add: solvent_def)
qed

end


section \<open>The model's pool keeps the contract\<close>

abbreviation pool_total :: "pool \<Rightarrow> nat" where "pool_total p \<equiv> unat (p_staked p)"
abbreviation pool_level :: "pool \<Rightarrow> nat" where "pool_level p \<equiv> unat (p_reward_index p)"
abbreviation position_staked :: "position \<Rightarrow> nat" where "position_staked q \<equiv> unat (q_staked q)"
abbreviation split_pool :: "slash_split \<Rightarrow> nat" where "split_pool s \<equiv> unat (sp_pool s)"
abbreviation anchored_at :: "pool \<Rightarrow> position \<Rightarrow> bool" where
  "anchored_at p q \<equiv> q_entry_index q \<le> p_reward_index p"

lemma owed_settled:
  assumes "q_reward q' = claimable q (p_reward_index p)" and "q_entry_index q' = p_reward_index p'"
    and "owed p q < owed_bound"
  shows "owed p' q' \<le> owed p q"
  using assms by (simp add: owed_def [of p' q'] unat_claimable)

lemma pool_stake_law:
  assumes "pool_stake p q a = Inr (p', q')" and "owed p q < owed_bound"
    and "position_staked q \<le> pool_total p" and "pool_total p + unat a < 2 ^ 64"
  shows "pool_total p' = pool_total p + unat a \<and> position_staked q' = position_staked q + unat a \<and>
    owed p' q' \<le> owed p q \<and> anchored_at p' q' \<and> pool_level p' = pool_level p"
  using assms
  by (auto simp: pool_stake_def Let_def unat_add_bounded intro: owed_settled split: if_splits)

lemma pool_unstake_law:
  assumes "pool_unstake p q a = Inr (p', q', v)" and "owed p q < owed_bound"
    and "position_staked q \<le> pool_total p"
  shows "v = a \<and> unat a \<le> position_staked q \<and> pool_total p' = pool_total p - unat a \<and>
    position_staked q' = position_staked q - unat a \<and>
    owed p' q' \<le> owed p q \<and> anchored_at p' q' \<and> pool_level p' = pool_level p"
  using assms
  by (auto simp: pool_unstake_def Let_def unat_minus_le word_le_nat_alt not_less
      intro: owed_settled split: if_splits)

lemma pool_claim_law:
  assumes "pool_claim p q = (q', v)" and "owed p q < owed_bound"
  shows "position_staked q' = position_staked q \<and> owed p q' + 1000000000000 * unat v \<le> owed p q \<and>
    anchored_at p q'"
  using assms by (auto simp: pool_claim_def Let_def owed_def [of p q'] unat_claimable)

lemma distribute_exact:
  assumes "distribute p s = (p', s')" and "p_staked p \<noteq> 0" and "sp_pool s \<noteq> 0"
    and "pool_level p + 1000000000000 * split_pool s < 2 ^ 128"
  shows "pool_level p' = pool_level p + split_pool s * 1000000000000 div pool_total p"
    and "s' = s" and "p_staked p' = p_staked p"
proof -
  let ?g = "(ucast (sp_pool s) * REWARD_SCALE) div ucast (p_staked p) :: u128"
  have "split_pool s * 1000000000000 < 18446744073709551616 * 1000000000000"
    using unat_u64_less [of "sp_pool s"] by simp
  then have "unat (ucast (sp_pool s) * REWARD_SCALE) = split_pool s * 1000000000000"
    by (subst unat_mult_bounded) (simp_all add: unat_widen)
  then have g: "unat ?g = split_pool s * 1000000000000 div pool_total p"
    by (simp add: unat_div unat_widen)
  have "unat ?g \<le> split_pool s * 1000000000000"
    unfolding g by (rule div_le_dividend)
  then have "unat (p_reward_index p + ?g) = pool_level p + unat ?g"
    using assms(4) by (intro unat_add_bounded) simp
  with g assms(1-3) show "pool_level p' = pool_level p + split_pool s * 1000000000000 div pool_total p"
    and "s' = s" and "p_staked p' = p_staked p"
    by (auto simp: distribute_def)
qed

lemma distribute_law:
  assumes d: "distribute p s = (p', s')"
    and b: "pool_level p + 1000000000000 * split_pool s < 2 ^ 128"
  shows "\<exists>gain. pool_total p' = pool_total p \<and> pool_level p' = pool_level p + gain \<and>
    split_pool s' \<le> split_pool s \<and> gain \<le> 1000000000000 * split_pool s' \<and>
    pool_total p * gain \<le> 1000000000000 * split_pool s' \<and>
    (\<forall>q. anchored_at p q \<longrightarrow> anchored_at p' q \<and> owed p' q = owed p q + position_staked q * gain)"
proof (cases "p_staked p = 0 \<or> sp_pool s = 0")
  case True
  with d show ?thesis
    by (intro exI [of _ 0]) (auto simp: distribute_def without_pool_def)
next
  case False
  let ?g = "split_pool s * 1000000000000 div pool_total p"
  note exact = distribute_exact [OF d _ _ b]
  have lvl: "pool_level p' = pool_level p + ?g" and s': "s' = s" and tot: "p_staked p' = p_staked p"
    using False exact by simp_all
  have "pool_total p * ?g \<le> split_pool s * 1000000000000"
    by simp
  moreover have "?g \<le> split_pool s * 1000000000000"
    by (rule div_le_dividend)
  moreover have "anchored_at p' q \<and> owed p' q = owed p q + position_staked q * ?g"
    if "anchored_at p q" for q
  proof -
    have "unat (q_entry_index q) \<le> pool_level p"
      using that by (simp add: word_le_nat_alt)
    then have "pool_level p' - unat (q_entry_index q) = (pool_level p - unat (q_entry_index q)) + ?g"
      and "anchored_at p' q"
      using lvl by (simp_all add: word_le_nat_alt)
    then show ?thesis
      by (simp only: owed_def distrib_left add.assoc)
  qed
  ultimately show ?thesis
    using lvl s' tot by (intro exI [of _ ?g]) (simp add: mult.commute)
qed

interpretation pool:
  coverage_pool pool_stake pool_unstake pool_claim distribute split_pool pool_total position_staked
    owed pool_level anchored_at 1000000000000
proof (unfold_locales, goal_cases)
  case 1
  then show ?case by simp
next
  case (2 p' p q)
  then show ?case by (simp add: owed_def word_le_nat_alt)
next
  case (3 p q a p' q')
  then show ?case using pool_stake_law [of p q a p' q'] by simp
next
  case (4 p q a p' q' v)
  then show ?case using pool_unstake_law [of p q a p' q' v] by simp
next
  case (5 p q q' v)
  then show ?case using pool_claim_law [of p q q' v] by simp
next
  case (6 p s p' s')
  then show ?case using distribute_law [of p s p' s'] by simp
qed

lemma solvent_claims:
  assumes "pool.solvent p qs funded paid"
  shows "(\<Sum>q\<leftarrow>qs. unat (claimable q (p_reward_index p))) + paid \<le> funded"
proof -
  have "unat (claimable q (p_reward_index p)) = owed p q div 1000000000000" if "q \<in> set qs" for q
    using that pool.solvent_position(2) [OF assms] by (auto simp: in_set_conv_nth intro!: unat_claimable)
  then have "(\<Sum>q\<leftarrow>qs. unat (claimable q (p_reward_index p))) = (\<Sum>q\<leftarrow>qs. owed p q div 1000000000000)"
    by (intro arg_cong [where f = sum_list] map_cong) simp_all
  also have "\<dots> \<le> (\<Sum>q\<leftarrow>qs. owed p q) div 1000000000000"
    by (rule sum_list_map_div_le)
  finally have "(\<Sum>q\<leftarrow>qs. unat (claimable q (p_reward_index p))) + paid \<le>
      ((\<Sum>q\<leftarrow>qs. owed p q) + 1000000000000 * paid) div 1000000000000"
    by simp
  also have "\<dots> \<le> (1000000000000 * funded) div 1000000000000"
    using assms unfolding pool.solvent_def by (intro div_le_mono) simp
  finally show ?thesis
    by simp
qed

end
