(* ===== verification/Pool_Runs.thy ===== *)
theory Pool_Runs
  imports Pool_Contract
begin

text \<open>
  Runs of one coverage pool and the positions staked in it: the four operations of
  \<open>src/crates/slashing/src/pool.rs\<close> in any order, on any position, with the lamports that went into
  rewards and came out of them counted beside. The two bounds on the steps are the lamport supply:
  a stake and a slash never bring a total past \<open>2 ^ 64\<close>. The properties are the accounting of the
  split and of the pool.
\<close>

record pool_system =
  ps_pool :: pool
  ps_positions :: "position list"
  ps_funded :: nat
  ps_paid :: nat

definition empty_position :: position where
  "empty_position = \<lparr>q_staked = 0, q_entry_index = 0, q_reward = 0\<rparr>"

definition empty_pool :: pool where
  "empty_pool = \<lparr>p_staked = 0, p_reward_index = 0\<rparr>"

definition pool_start :: pool_system where
  "pool_start = \<lparr>ps_pool = empty_pool, ps_positions = [], ps_funded = 0, ps_paid = 0\<rparr>"

inductive pool_step :: "pool_system \<Rightarrow> pool_system \<Rightarrow> bool" where
  Open: "pool_step s (s\<lparr>ps_positions := ps_positions s @ [empty_position]\<rparr>)"
| Stake: "i < length (ps_positions s) \<Longrightarrow>
    pool_stake (ps_pool s) (ps_positions s ! i) a = Inr (p, q) \<Longrightarrow>
    unat (p_staked (ps_pool s)) + unat a < 2 ^ 64 \<Longrightarrow>
    pool_step s (s\<lparr>ps_pool := p, ps_positions := (ps_positions s)[i := q]\<rparr>)"
| Unstake: "i < length (ps_positions s) \<Longrightarrow>
    pool_unstake (ps_pool s) (ps_positions s ! i) a = Inr (p, q, v) \<Longrightarrow>
    pool_step s (s\<lparr>ps_pool := p, ps_positions := (ps_positions s)[i := q]\<rparr>)"
| Claim: "i < length (ps_positions s) \<Longrightarrow>
    pool_claim (ps_pool s) (ps_positions s ! i) = (q, v) \<Longrightarrow>
    pool_step s (s\<lparr>ps_positions := (ps_positions s)[i := q], ps_paid := ps_paid s + unat v\<rparr>)"
| Slash: "distribute (ps_pool s) (split_of slashed) = (p, sp) \<Longrightarrow>
    ps_funded s + unat (sp_pool (split_of slashed)) < 2 ^ 64 \<Longrightarrow>
    pool_step s (s\<lparr>ps_pool := p, ps_funded := ps_funded s + unat (sp_pool sp)\<rparr>)"

inductive pool_reachable :: "pool_system \<Rightarrow> bool" where
  Start: "pool_reachable pool_start"
| Step: "pool_reachable s \<Longrightarrow> pool_step s s' \<Longrightarrow> pool_reachable s'"

inductive_cases pool_step_elim: "pool_step s s'"

definition pool_solvent :: "pool_system \<Rightarrow> bool" where
  "pool_solvent s \<longleftrightarrow> pool.solvent (ps_pool s) (ps_positions s) (ps_funded s) (ps_paid s)"

lemma empty_position_owes_nothing:
  "unat (q_staked empty_position) = 0" "owed p empty_position = 0" "anchored_at p empty_position"
  by (simp_all add: empty_position_def owed_def)

lemma pool_solvent_start: "pool_solvent pool_start"
  by (simp add: pool_solvent_def pool_start_def empty_pool_def pool.solvent_def)

lemma pool_solvent_step:
  assumes "pool_solvent s" and "pool_step s s'"
  shows "pool_solvent s'"
  using assms(2,1)
  by (cases rule: pool_step.cases)
    (auto simp: pool_solvent_def empty_position_owes_nothing intro: pool.solvent_open
      pool.solvent_stake pool.solvent_unstake pool.solvent_claim pool.solvent_distribute)

lemma pool_solvent_reachable: "pool_reachable s \<Longrightarrow> pool_solvent s"
  by (induction rule: pool_reachable.induct) (auto intro: pool_solvent_start pool_solvent_step)

section \<open>Properties\<close>

text \<open>
  C10. In every state a pool can reach from empty by opening positions, staking, unstaking,
  claiming and slashing, what all stakers can claim together plus what was already paid is no more
  than the pool was credited with, and the pool's recorded stake is the sum of the positions'.
\<close>
theorem pool_never_overpays:
  assumes "pool_reachable s"
  shows "(\<Sum>q\<leftarrow>ps_positions s. unat (claimable q (p_reward_index (ps_pool s)))) + ps_paid s \<le> ps_funded s \<and>
    (\<Sum>q\<leftarrow>ps_positions s. unat (q_staked q)) = unat (p_staked (ps_pool s))"
  using pool_solvent_reachable [OF assms] solvent_claims unfolding pool_solvent_def
  by (auto simp: pool.solvent_def)

text \<open>
  A slashed amount is split without loss into 30% for the victim, 20% for the pool (both
  rounded down) and the rest burned, so an operator that is its own victim and its own pool still
  burns at least half; with no stake to credit, distributing moves the pool's share to the burn and
  still loses nothing.
\<close>
theorem split_conserves:
  "unat (sp_victim (split_of x)) = unat x * 3000 div 10000 \<and>
   unat (sp_pool (split_of x)) = unat x * 2000 div 10000 \<and>
   split_total (split_of x) = x \<and>
   unat (sp_victim (split_of x)) + unat (sp_pool (split_of x)) \<le> unat (sp_burn (split_of x)) \<and>
   split_total (snd (distribute p (split_of x))) = x"
proof (intro conjI)
  show total: "split_total (split_of x) = x"
    by (simp add: split_total_def split_of_def Let_def)
  show "split_total (snd (distribute p (split_of x))) = x"
    using total by (simp add: distribute_def without_pool_def split_total_def add_ac)
  show "unat (sp_victim (split_of x)) + unat (sp_pool (split_of x)) \<le> unat (sp_burn (split_of x))"
    unfolding split_of_exact by linarith
qed (fact split_of_exact)+

text \<open>
  Staking and unstaking leave what a position can claim exactly as it was: a position that
  arrives after a slash inherits nothing from it, and one that leaves keeps what it earned. Claiming
  pays that amount and leaves nothing claimable.
\<close>
theorem stake_changes_no_claim:
  "(pool_stake p q a = Inr (ps, qs) \<longrightarrow>
      claimable qs (p_reward_index ps) = claimable q (p_reward_index p)) \<and>
   (pool_unstake p q a = Inr (pu, qu, v) \<longrightarrow>
      claimable qu (p_reward_index pu) = claimable q (p_reward_index p)) \<and>
   (pool_claim p q = (qc, w) \<longrightarrow>
      w = claimable q (p_reward_index p) \<and> claimable qc (p_reward_index p) = 0)"
proof -
  have settled: "claimable q' i = q_reward q'" if "q_entry_index q' = i" for q' i
    using that by (simp add: claimable_def accrued_def saturating_sub_def)
  show ?thesis
    by (auto simp: pool_stake_def pool_unstake_def pool_claim_def Let_def settled split: if_splits)
qed

text \<open>
  When the pool's share of a slash is worth less than one unit of the index per staked lamport,
  distributing it changes nothing: no staker is credited, nothing is burned and no remainder is kept
  for a later distribution, so such a share is credited to no one, ever.
\<close>
theorem distribute_drops_dust:
  assumes "sp_pool s \<noteq> 0" and "unat (sp_pool s) * 1000000000000 < unat (p_staked p)"
    and "unat (p_reward_index p) < 2 ^ 127"
  shows "distribute p s = (p, s)"
proof -
  have "unat (sp_pool s) * 1000000000000 < 18446744073709551616"
    using assms(2) unat_u64_less [of "p_staked p"] by simp
  then have "pool_level p + 1000000000000 * split_pool s < 2 ^ 128"
    using assms(3) by simp
  moreover have "p_staked p \<noteq> 0"
    using assms(2) by auto
  moreover obtain p' s' where d: "distribute p s = (p', s')"
    by (cases "distribute p s")
  ultimately have "p_reward_index p' = p_reward_index p" "s' = s" "p_staked p' = p_staked p"
    using distribute_exact [OF d] assms(1,2) by (simp_all add: word_unat_eq_iff)
  then show ?thesis
    using d by (cases p, cases p') simp
qed

section \<open>Witnesses\<close>

lemma demo_split: "split_of 100 = \<lparr>sp_burn = 50, sp_victim = 30, sp_pool = 20\<rparr>"
  by (simp add: split_of_def split_share_def Let_def VICTIM_BPS_def POOL_BPS_def BPS_DENOMINATOR_def)

lemma demo_reachable:
  "pool_reachable \<lparr>ps_pool = \<lparr>p_staked = 4, p_reward_index = 5000000000000\<rparr>,
     ps_positions = [\<lparr>q_staked = 4, q_entry_index = 0, q_reward = 0\<rparr>], ps_funded = 20, ps_paid = 0\<rparr>"
proof -
  let ?s1 = "pool_start\<lparr>ps_positions := [empty_position]\<rparr>"
  let ?p = "\<lparr>p_staked = 4, p_reward_index = 0\<rparr>"
  let ?q = "\<lparr>q_staked = 4, q_entry_index = 0, q_reward = 0\<rparr>"
  let ?s2 = "?s1\<lparr>ps_pool := ?p, ps_positions := [?q]\<rparr>"
  have 1: "pool_reachable ?s1"
    using pool_reachable.Step [OF Start Open] by (simp add: pool_start_def)
  have "pool_step ?s1 ?s2"
    using Stake [of 0 ?s1 4 ?p ?q]
    by (simp add: pool_start_def empty_pool_def empty_position_def pool_stake_def settle_def
        accrued_def saturating_sub_def)
  with 1 have 2: "pool_reachable ?s2"
    by (rule pool_reachable.Step)
  have "pool_step ?s2 (?s2\<lparr>ps_pool := \<lparr>p_staked = 4, p_reward_index = 5000000000000\<rparr>, ps_funded := 20\<rparr>)"
    using Slash [of ?s2 100 "\<lparr>p_staked = 4, p_reward_index = 5000000000000\<rparr>" "split_of 100"]
    by (simp add: pool_start_def distribute_def demo_split REWARD_SCALE_def)
  with 2 show ?thesis
    by (auto dest: pool_reachable.Step simp: pool_start_def)
qed

theorem pool_never_overpays_witness:
  "(\<Sum>q\<leftarrow>[\<lparr>q_staked = 4, q_entry_index = 0, q_reward = 0\<rparr>]. unat (claimable q 5000000000000)) + 0 \<le> (20 :: nat)"
  using pool_never_overpays [OF demo_reachable] by simp

theorem stake_changes_no_claim_witness:
  "claimable \<lparr>q_staked = 9, q_entry_index = 500000000000, q_reward = 2\<rparr> 500000000000 =
   claimable \<lparr>q_staked = 4, q_entry_index = 0, q_reward = 0\<rparr> 500000000000 \<and>
   claimable \<lparr>q_staked = 4, q_entry_index = 500000000000, q_reward = 0\<rparr> 500000000000 = 0"
  using stake_changes_no_claim [of "\<lparr>p_staked = 4, p_reward_index = 500000000000\<rparr>"
      "\<lparr>q_staked = 4, q_entry_index = 0, q_reward = 0\<rparr>" 5
      "\<lparr>p_staked = 9, p_reward_index = 500000000000\<rparr>"
      "\<lparr>q_staked = 9, q_entry_index = 500000000000, q_reward = 2\<rparr>" _ _ _
      "\<lparr>q_staked = 4, q_entry_index = 500000000000, q_reward = 0\<rparr>" 2]
  by (simp add: pool_stake_def pool_claim_def settle_def accrued_def saturating_sub_def REWARD_SCALE_def)

theorem distribute_drops_dust_witness:
  "distribute \<lparr>p_staked = 3000000000000, p_reward_index = 7\<rparr> \<lparr>sp_burn = 5, sp_victim = 3, sp_pool = 2\<rparr> =
   (\<lparr>p_staked = 3000000000000, p_reward_index = 7\<rparr>, \<lparr>sp_burn = 5, sp_victim = 3, sp_pool = 2\<rparr>)"
  by (rule distribute_drops_dust) simp_all

end
