(* ===== verification/Codec.thy ===== *)
theory Codec
  imports Prelude
begin

text \<open>
  The contract between the components that write bytes and those that read them. A \<open>codec\<close> is
  an encoder and a fallible decoder that are inverse to each other: a valid value decodes from
  its encoding, and whatever decodes is the one encoding of a valid value, so no two byte strings
  carry one statement. A \<open>prefix_codec\<close> reads the front of a longer buffer, as the accounts of
  the on-chain program do. The receipt format and the three account layouts interpret them.
\<close>

locale codec =
  fixes encode :: "'a \<Rightarrow> bytes"
    and decode :: "bytes \<Rightarrow> 'e + 'a"
    and valid :: "'a \<Rightarrow> bool"
    and width :: nat
  assumes decode_encode: "valid x \<Longrightarrow> decode (encode x) = Inr x"
    and decode_sound: "decode bs = Inr x \<Longrightarrow> valid x \<and> encode x = bs"
    and encode_width: "valid x \<Longrightarrow> length (encode x) = width"
begin

lemma decode_iff: "decode bs = Inr x \<longleftrightarrow> valid x \<and> encode x = bs"
  using decode_encode decode_sound by metis

lemma encode_inj: "valid x \<Longrightarrow> valid y \<Longrightarrow> encode x = encode y \<longleftrightarrow> x = y"
  by (metis Inr_inject decode_encode)

lemma decode_inj: "decode a = Inr x \<Longrightarrow> decode b = Inr x \<Longrightarrow> a = b"
  by (auto simp: decode_iff)

lemma decode_width: "decode bs = Inr x \<Longrightarrow> length bs = width"
  using decode_sound encode_width by metis

lemma wrong_width_fails: "length bs \<noteq> width \<Longrightarrow> \<exists>e. decode bs = Inl e"
  using decode_width [of bs] by (cases "decode bs") auto

end

locale prefix_codec =
  fixes encode :: "'a \<Rightarrow> bytes"
    and load :: "bytes \<Rightarrow> 'e + 'a"
    and store :: "'a \<Rightarrow> bytes \<Rightarrow> 'e + bytes"
    and valid :: "'a \<Rightarrow> bool"
    and width :: nat
  assumes load_encode: "valid x \<Longrightarrow> load (encode x @ rest) = Inr x"
    and load_sound: "load bs = Inr x \<Longrightarrow> valid x \<and> take width bs = encode x"
    and encode_width: "valid x \<Longrightarrow> length (encode x) = width"
    and store_ok: "valid x \<Longrightarrow> width \<le> length buf \<Longrightarrow> store x buf = Inr (encode x @ drop width buf)"
    and store_short: "length buf < width \<Longrightarrow> is_err (store x buf)"
begin

lemma load_width: "load bs = Inr x \<Longrightarrow> width \<le> length bs"
  using load_sound encode_width by (metis length_take min.cobounded1)

lemma load_short: "length bs < width \<Longrightarrow> is_err (load bs)"
  using load_width [of bs] by (cases "load bs") (auto simp: is_err_def)

lemma load_store:
  assumes "valid x" and "store x buf = Inr buf'"
  shows "load buf' = Inr x \<and> length buf' = length buf"
proof -
  have len: "width \<le> length buf"
    using assms(2) store_short [of buf x] by (metis is_err_simps(2) not_le_imp_less)
  then have "buf' = encode x @ drop width buf"
    using assms store_ok by simp
  with assms(1) len show ?thesis
    by (simp add: load_encode encode_width)
qed

lemma store_total:
  assumes "valid x" and "load buf = Inr y"
  obtains buf' where "store x buf = Inr buf'" and "load buf' = Inr x" and "length buf' = length buf"
proof -
  have "width \<le> length buf"
    using assms(2) by (rule load_width)
  with assms(1) have "store x buf = Inr (encode x @ drop width buf)"
    by (rule store_ok)
  with assms(1) that load_store show ?thesis by blast
qed

lemma store_keeps_tail:
  "valid x \<Longrightarrow> store x buf = Inr buf' \<Longrightarrow> drop width buf' = drop width buf"
  using store_ok [of x buf] store_short [of buf x] encode_width [of x]
  by (cases "width \<le> length buf") (auto simp: is_err_def)

end

end
