(* ===== verification/Accounts.thy ===== *)
theory Accounts
  imports Codec Slashing
begin

text \<open>
  The accounts of the on-chain program (\<open>src/crates/program\<close>): its error codes and the three
  tagged layouts, operator, position and conviction. A \<open>write\<close> fills the front of a borrowed
  buffer field by field and leaves what lies behind it; a \<open>read\<close> accepts any buffer whose front
  carries the right tag. Each layout interprets \<open>prefix_codec\<close>.
\<close>

section \<open>Errors\<close>

datatype slash_error =
    BadInstruction | BadAccountData | WrongOwner | WrongPda | NotSigner
  | NoEd25519Instruction | UnregisteredKey | OffsetsNotSelfContained | WrongSignatureCount
  | MalformedReceipt
  | MixedLogs | DifferentSequence | NotContradictory | AlreadyConvicted
  | InsufficientBond | NothingStaked | Overdraw | BondLocked

fun slash_error_code :: "slash_error \<Rightarrow> u32" where
  "slash_error_code BadInstruction = 0"
| "slash_error_code BadAccountData = 1"
| "slash_error_code WrongOwner = 2"
| "slash_error_code WrongPda = 3"
| "slash_error_code NotSigner = 4"
| "slash_error_code NoEd25519Instruction = 10"
| "slash_error_code UnregisteredKey = 11"
| "slash_error_code OffsetsNotSelfContained = 12"
| "slash_error_code WrongSignatureCount = 13"
| "slash_error_code MalformedReceipt = 14"
| "slash_error_code MixedLogs = 20"
| "slash_error_code DifferentSequence = 21"
| "slash_error_code NotContradictory = 22"
| "slash_error_code AlreadyConvicted = 23"
| "slash_error_code InsufficientBond = 30"
| "slash_error_code NothingStaked = 31"
| "slash_error_code Overdraw = 32"
| "slash_error_code BondLocked = 33"

text \<open>
  What a handler can fail with: a code of this program, too few accounts, or an error the runtime
  hands back from a system call.
\<close>

datatype program_error = Custom u32 | NotEnoughAccountKeys | Runtime_Error nat

definition slash_err :: "slash_error \<Rightarrow> program_error" where
  "slash_err e = Custom (slash_error_code e)"

section \<open>The operator account\<close>

definition OPERATOR_LEN :: nat where "OPERATOR_LEN = 1 + 32 + 32 + 8 + 8 + 16 + 8 + 1"
definition OPERATOR_TAG :: u8 where "OPERATOR_TAG = 1"
definition OPERATOR_SEED :: bytes where
  "OPERATOR_SEED = [111, 112, 101, 114, 97, 116, 111, 114]"

record operator_account =
  oa_authority :: pubkey
  oa_signing_key :: bytes
  oa_bond :: u64
  oa_pool_staked :: u64
  oa_reward_index :: u128
  oa_unbond_at :: u64
  oa_bump :: u8

definition operator_write :: "operator_account \<Rightarrow> bytes \<Rightarrow> slash_error + bytes" where
  "operator_write acc into =
     (if length into < OPERATOR_LEN then Inl BadAccountData
      else
        (let out = blit 0 [OPERATOR_TAG] into;
             out = blit 1 (oa_authority acc) out;
             out = blit 33 (oa_signing_key acc) out;
             out = blit 65 (u64_le (oa_bond acc)) out;
             out = blit 73 (u64_le (oa_pool_staked acc)) out;
             out = blit 81 (u128_le (oa_reward_index acc)) out;
             out = blit 97 (u64_le (oa_unbond_at acc)) out;
             out = blit 105 [oa_bump acc] out
         in Inr out))"

definition operator_read :: "bytes \<Rightarrow> slash_error + operator_account" where
  "operator_read from =
     and_then (ok_or BadAccountData (get_range 0 OPERATOR_LEN from)) (\<lambda>data.
       if data ! 0 \<noteq> OPERATOR_TAG then Inl BadAccountData
       else Inr
         \<lparr>oa_authority = subslice 1 33 data,
          oa_signing_key = subslice 33 65 data,
          oa_bond = u64_of_le (subslice 65 73 data),
          oa_pool_staked = u64_of_le (subslice 73 81 data),
          oa_reward_index = u128_of_le (subslice 81 97 data),
          oa_unbond_at = u64_of_le (subslice 97 105 data),
          oa_bump = data ! 105\<rparr>)"

definition operator_pool :: "operator_account \<Rightarrow> pool" where
  "operator_pool acc = \<lparr>p_staked = oa_pool_staked acc, p_reward_index = oa_reward_index acc\<rparr>"

definition operator_set_pool :: "operator_account \<Rightarrow> pool \<Rightarrow> operator_account" where
  "operator_set_pool acc p = acc\<lparr>oa_pool_staked := p_staked p, oa_reward_index := p_reward_index p\<rparr>"

section \<open>The position account\<close>

definition POSITION_LEN :: nat where "POSITION_LEN = 1 + 32 + 32 + 8 + 16 + 8 + 1"
definition POSITION_TAG :: u8 where "POSITION_TAG = 2"
definition POSITION_SEED :: bytes where
  "POSITION_SEED = [112, 111, 115, 105, 116, 105, 111, 110]"

record position_account =
  pa_owner :: pubkey
  pa_operator :: pubkey
  pa_staked :: u64
  pa_entry_index :: u128
  pa_reward :: u64
  pa_bump :: u8

definition position_write :: "position_account \<Rightarrow> bytes \<Rightarrow> slash_error + bytes" where
  "position_write q into =
     (if length into < POSITION_LEN then Inl BadAccountData
      else
        (let out = blit 0 [POSITION_TAG] into;
             out = blit 1 (pa_owner q) out;
             out = blit 33 (pa_operator q) out;
             out = blit 65 (u64_le (pa_staked q)) out;
             out = blit 73 (u128_le (pa_entry_index q)) out;
             out = blit 89 (u64_le (pa_reward q)) out;
             out = blit 97 [pa_bump q] out
         in Inr out))"

definition position_read :: "bytes \<Rightarrow> slash_error + position_account" where
  "position_read from =
     and_then (ok_or BadAccountData (get_range 0 POSITION_LEN from)) (\<lambda>data.
       if data ! 0 \<noteq> POSITION_TAG then Inl BadAccountData
       else Inr
         \<lparr>pa_owner = subslice 1 33 data,
          pa_operator = subslice 33 65 data,
          pa_staked = u64_of_le (subslice 65 73 data),
          pa_entry_index = u128_of_le (subslice 73 89 data),
          pa_reward = u64_of_le (subslice 89 97 data),
          pa_bump = data ! 97\<rparr>)"

definition position_of :: "position_account \<Rightarrow> position" where
  "position_of q = \<lparr>q_staked = pa_staked q, q_entry_index = pa_entry_index q, q_reward = pa_reward q\<rparr>"

definition set_position :: "position_account \<Rightarrow> position \<Rightarrow> position_account" where
  "set_position q p =
     q\<lparr>pa_staked := q_staked p, pa_entry_index := q_entry_index p, pa_reward := q_reward p\<rparr>"

section \<open>The conviction account\<close>

definition CONVICTION_LEN :: nat where "CONVICTION_LEN = 1 + 32 + 64 + 32 + 8 + 8 + 8 + 1"
definition CONVICTION_TAG :: u8 where "CONVICTION_TAG = 3"
definition CONVICTION_SEED :: bytes where
  "CONVICTION_SEED = [99, 111, 110, 118, 105, 99, 116, 105, 111, 110]"

record conviction_account =
  ca_operator :: pubkey
  ca_wronged :: bytes
  ca_wronged_tx_hash :: bytes
  ca_slashed :: u64
  ca_owed_to_victim :: u64
  ca_slot :: u64
  ca_bump :: u8

definition conviction_write :: "conviction_account \<Rightarrow> bytes \<Rightarrow> slash_error + bytes" where
  "conviction_write c into =
     (if length into < CONVICTION_LEN then Inl BadAccountData
      else
        (let out = blit 0 [CONVICTION_TAG] into;
             out = blit 1 (ca_operator c) out;
             out = blit 33 (ca_wronged c) out;
             out = blit 97 (ca_wronged_tx_hash c) out;
             out = blit 129 (u64_le (ca_slashed c)) out;
             out = blit 137 (u64_le (ca_owed_to_victim c)) out;
             out = blit 145 (u64_le (ca_slot c)) out;
             out = blit 153 [ca_bump c] out
         in Inr out))"

definition conviction_read :: "bytes \<Rightarrow> slash_error + conviction_account" where
  "conviction_read from =
     and_then (ok_or BadAccountData (get_range 0 CONVICTION_LEN from)) (\<lambda>data.
       if data ! 0 \<noteq> CONVICTION_TAG then Inl BadAccountData
       else Inr
         \<lparr>ca_operator = subslice 1 33 data,
          ca_wronged = subslice 33 97 data,
          ca_wronged_tx_hash = subslice 97 129 data,
          ca_slashed = u64_of_le (subslice 129 137 data),
          ca_owed_to_victim = u64_of_le (subslice 137 145 data),
          ca_slot = u64_of_le (subslice 145 153 data),
          ca_bump = data ! 153\<rparr>)"

section \<open>Shapes and encodings\<close>

definition operator_shape :: "operator_account \<Rightarrow> bool" where
  "operator_shape acc \<longleftrightarrow> length (oa_authority acc) = 32 \<and> length (oa_signing_key acc) = 32"

definition position_shape :: "position_account \<Rightarrow> bool" where
  "position_shape q \<longleftrightarrow> length (pa_owner q) = 32 \<and> length (pa_operator q) = 32"

definition conviction_shape :: "conviction_account \<Rightarrow> bool" where
  "conviction_shape c \<longleftrightarrow> length (ca_operator c) = 32 \<and> length (ca_wronged c) = 64 \<and>
     length (ca_wronged_tx_hash c) = 32"

definition operator_bytes :: "operator_account \<Rightarrow> bytes" where
  "operator_bytes acc = OPERATOR_TAG # oa_authority acc @ oa_signing_key acc @ u64_le (oa_bond acc) @
     u64_le (oa_pool_staked acc) @ u128_le (oa_reward_index acc) @ u64_le (oa_unbond_at acc) @ [oa_bump acc]"

definition position_bytes :: "position_account \<Rightarrow> bytes" where
  "position_bytes q = POSITION_TAG # pa_owner q @ pa_operator q @ u64_le (pa_staked q) @
     u128_le (pa_entry_index q) @ u64_le (pa_reward q) @ [pa_bump q]"

definition conviction_bytes :: "conviction_account \<Rightarrow> bytes" where
  "conviction_bytes c = CONVICTION_TAG # ca_operator c @ ca_wronged c @ ca_wronged_tx_hash c @
     u64_le (ca_slashed c) @ u64_le (ca_owed_to_victim c) @ u64_le (ca_slot c) @ [ca_bump c]"

lemma account_lengths [simp]: "OPERATOR_LEN = 106" "POSITION_LEN = 98" "CONVICTION_LEN = 154"
  by (simp_all add: OPERATOR_LEN_def POSITION_LEN_def CONVICTION_LEN_def)

lemma slash_err_inj [simp]: "slash_err a = slash_err b \<longleftrightarrow> a = b"
  by (cases a; cases b) (simp_all add: slash_err_def)

text \<open>A buffer is its first \<open>n\<close> bytes, cut where the fields start, and the rest.\<close>

lemma subslice_take: "b \<le> n \<Longrightarrow> subslice a b (take n xs) = subslice a b xs"
  by (simp add: subslice_def drop_take min_def)

lemma subslice_head: "n \<le> length xs \<Longrightarrow> 0 < n \<Longrightarrow> xs ! 0 # subslice (Suc 0) n xs = subslice 0 n xs"
  by (cases xs) (simp_all add: subslice_def take_Cons')

lemma take_subslice: "take n xs = subslice 0 n xs"
  by (simp add: subslice_def)

lemma operator_write_bytes:
  assumes "operator_shape acc" and "106 \<le> length buf"
  shows "operator_write acc buf = Inr (operator_bytes acc @ drop 106 buf)"
  using assms
  by (simp add: operator_write_def operator_bytes_def operator_shape_def Let_def layout)

lemma operator_write_short: "length buf < 106 \<Longrightarrow> is_err (operator_write acc buf)"
  by (simp add: operator_write_def)

lemma length_operator_bytes: "operator_shape acc \<Longrightarrow> length (operator_bytes acc) = 106"
  by (simp add: operator_bytes_def operator_shape_def)

lemma operator_read_bytes:
  assumes "operator_shape acc"
  shows "operator_read (operator_bytes acc @ rest) = Inr acc"
  using assms length_operator_bytes [OF assms]
  by (simp add: operator_read_def get_range_prefix)
    (simp add: operator_bytes_def operator_shape_def layout)

lemma operator_read_sound:
  assumes "operator_read bs = Inr acc"
  shows "operator_shape acc \<and> take 106 bs = operator_bytes acc"
proof -
  have len: "106 \<le> length bs" and tag: "bs ! 0 = OPERATOR_TAG"
    and acc: "acc = \<lparr>oa_authority = subslice 1 33 bs, oa_signing_key = subslice 33 65 bs,
      oa_bond = u64_of_le (subslice 65 73 bs), oa_pool_staked = u64_of_le (subslice 73 81 bs),
      oa_reward_index = u128_of_le (subslice 81 97 bs), oa_unbond_at = u64_of_le (subslice 97 105 bs),
      oa_bump = bs ! 105\<rparr>"
    using assms
    by (auto simp: operator_read_def result_simps get_range_Some take_subslice [symmetric]
        subslice_take split: if_splits)
  have "operator_bytes acc = bs ! 0 # subslice 1 33 bs @ subslice 33 65 bs @ subslice 65 73 bs @
      subslice 73 81 bs @ subslice 81 97 bs @ subslice 97 105 bs @ [bs ! 105]"
    using len by (simp add: acc operator_bytes_def tag u64_le_u64_of_le u128_le_u128_of_le)
  also have "\<dots> = take 106 bs"
    using len
    by (simp add: nth_Cons_subslice subslice_join subslice_join_rest subslice_head take_subslice)
  finally show ?thesis
    using len by (simp add: operator_shape_def acc)
qed

interpretation operator_layout:
  prefix_codec operator_bytes operator_read operator_write operator_shape 106
  by unfold_locales
    (simp_all add: operator_read_bytes operator_read_sound length_operator_bytes operator_write_bytes
      operator_write_short)

lemma position_write_bytes:
  assumes "position_shape q" and "98 \<le> length buf"
  shows "position_write q buf = Inr (position_bytes q @ drop 98 buf)"
  using assms
  by (simp add: position_write_def position_bytes_def position_shape_def Let_def layout)

lemma position_write_short: "length buf < 98 \<Longrightarrow> is_err (position_write q buf)"
  by (simp add: position_write_def)

lemma length_position_bytes: "position_shape q \<Longrightarrow> length (position_bytes q) = 98"
  by (simp add: position_bytes_def position_shape_def)

lemma position_read_bytes:
  assumes "position_shape q"
  shows "position_read (position_bytes q @ rest) = Inr q"
  using assms length_position_bytes [OF assms]
  by (simp add: position_read_def get_range_prefix)
    (simp add: position_bytes_def position_shape_def layout)

lemma position_read_sound:
  assumes "position_read bs = Inr q"
  shows "position_shape q \<and> take 98 bs = position_bytes q"
proof -
  have len: "98 \<le> length bs" and tag: "bs ! 0 = POSITION_TAG"
    and q: "q = \<lparr>pa_owner = subslice 1 33 bs, pa_operator = subslice 33 65 bs,
      pa_staked = u64_of_le (subslice 65 73 bs), pa_entry_index = u128_of_le (subslice 73 89 bs),
      pa_reward = u64_of_le (subslice 89 97 bs), pa_bump = bs ! 97\<rparr>"
    using assms
    by (auto simp: position_read_def result_simps get_range_Some take_subslice [symmetric]
        subslice_take split: if_splits)
  have "position_bytes q = bs ! 0 # subslice 1 33 bs @ subslice 33 65 bs @ subslice 65 73 bs @
      subslice 73 89 bs @ subslice 89 97 bs @ [bs ! 97]"
    using len by (simp add: q position_bytes_def tag u64_le_u64_of_le u128_le_u128_of_le)
  also have "\<dots> = take 98 bs"
    using len by (simp add: nth_Cons_subslice subslice_join subslice_join_rest subslice_head take_subslice)
  finally show ?thesis
    using len by (simp add: position_shape_def q)
qed

interpretation position_layout:
  prefix_codec position_bytes position_read position_write position_shape 98
  by unfold_locales
    (simp_all add: position_read_bytes position_read_sound length_position_bytes position_write_bytes
      position_write_short)

lemma conviction_write_bytes:
  assumes "conviction_shape c" and "154 \<le> length buf"
  shows "conviction_write c buf = Inr (conviction_bytes c @ drop 154 buf)"
  using assms
  by (simp add: conviction_write_def conviction_bytes_def conviction_shape_def Let_def layout)

lemma conviction_write_short: "length buf < 154 \<Longrightarrow> is_err (conviction_write c buf)"
  by (simp add: conviction_write_def)

lemma length_conviction_bytes: "conviction_shape c \<Longrightarrow> length (conviction_bytes c) = 154"
  by (simp add: conviction_bytes_def conviction_shape_def)

lemma conviction_read_bytes:
  assumes "conviction_shape c"
  shows "conviction_read (conviction_bytes c @ rest) = Inr c"
  using assms length_conviction_bytes [OF assms]
  by (simp add: conviction_read_def get_range_prefix)
    (simp add: conviction_bytes_def conviction_shape_def layout)

lemma conviction_read_sound:
  assumes "conviction_read bs = Inr c"
  shows "conviction_shape c \<and> take 154 bs = conviction_bytes c"
proof -
  have len: "154 \<le> length bs" and tag: "bs ! 0 = CONVICTION_TAG"
    and c: "c = \<lparr>ca_operator = subslice 1 33 bs, ca_wronged = subslice 33 97 bs,
      ca_wronged_tx_hash = subslice 97 129 bs, ca_slashed = u64_of_le (subslice 129 137 bs),
      ca_owed_to_victim = u64_of_le (subslice 137 145 bs), ca_slot = u64_of_le (subslice 145 153 bs),
      ca_bump = bs ! 153\<rparr>"
    using assms
    by (auto simp: conviction_read_def result_simps get_range_Some take_subslice [symmetric]
        subslice_take split: if_splits)
  have "conviction_bytes c = bs ! 0 # subslice 1 33 bs @ subslice 33 97 bs @ subslice 97 129 bs @
      subslice 129 137 bs @ subslice 137 145 bs @ subslice 145 153 bs @ [bs ! 153]"
    using len by (simp add: c conviction_bytes_def tag u64_le_u64_of_le)
  also have "\<dots> = take 154 bs"
    using len by (simp add: nth_Cons_subslice subslice_join subslice_join_rest subslice_head take_subslice)
  finally show ?thesis
    using len by (simp add: conviction_shape_def c)
qed

interpretation conviction_layout:
  prefix_codec conviction_bytes conviction_read conviction_write conviction_shape 154
  by unfold_locales
    (simp_all add: conviction_read_bytes conviction_read_sound length_conviction_bytes
      conviction_write_bytes
      conviction_write_short)

lemma tag_exclusive:
  "operator_read bs = Inr acc \<Longrightarrow> position_read bs = Inl BadAccountData"
  "operator_read bs = Inr acc \<Longrightarrow> conviction_read bs = Inl BadAccountData"
  "position_read bs = Inr q \<Longrightarrow> operator_read bs = Inl BadAccountData"
  "position_read bs = Inr q \<Longrightarrow> conviction_read bs = Inl BadAccountData"
  "conviction_read bs = Inr c \<Longrightarrow> operator_read bs = Inl BadAccountData"
  "conviction_read bs = Inr c \<Longrightarrow> position_read bs = Inl BadAccountData"
  by (auto simp: operator_read_def position_read_def conviction_read_def result_simps get_range_Some
      get_range_def ok_or_def OPERATOR_TAG_def POSITION_TAG_def CONVICTION_TAG_def subslice_def
      split: if_splits)

end
