(* ===== verification/Instruction.thy ===== *)
theory Instruction
  imports Accounts "HOL-Library.Sublist"
begin

text \<open>
  The instruction format of the on-chain program (\<open>src/crates/program/src/instruction.rs\<close>):
  a tag byte and hand-decoded operands. Reading ignores what lies behind the operands, except for
  the wire bytes of a victim's claim, which are everything behind the tag.
\<close>

datatype slash_instruction =
    Register bytes u64
  | Stake u64
  | Unstake u64
  | Claim
  | ProveEquivocation
  | ClaimVictim bytes
  | BeginUnbond
  | WithdrawBond

definition read_amount :: "bytes \<Rightarrow> slash_error + u64" where
  "read_amount rest = ok_or BadInstruction (map_option u64_of_le (get_range 0 8 rest))"

fun instruction_read :: "bytes \<Rightarrow> slash_error + slash_instruction" where
  "instruction_read [] = Inl BadInstruction"
| "instruction_read (tag # rest) =
     (if tag = 0 then
        and_then (ok_or BadInstruction (get_range 0 32 rest)) (\<lambda>signing_key.
        and_then (ok_or BadInstruction (map_option u64_of_le (get_range 32 40 rest))) (\<lambda>bond.
        Inr (Register signing_key bond)))
      else if tag = 1 then and_then (read_amount rest) (\<lambda>amount. Inr (Stake amount))
      else if tag = 2 then and_then (read_amount rest) (\<lambda>amount. Inr (Unstake amount))
      else if tag = 3 then Inr Claim
      else if tag = 4 then Inr ProveEquivocation
      else if tag = 5 then Inr (ClaimVictim rest)
      else if tag = 6 then Inr BeginUnbond
      else if tag = 7 then Inr WithdrawBond
      else Inl BadInstruction)"

fun instruction_write :: "slash_instruction \<Rightarrow> bytes" where
  "instruction_write (Register signing_key bond) = [0] @ signing_key @ u64_le bond"
| "instruction_write (Stake amount) = [1] @ u64_le amount"
| "instruction_write (Unstake amount) = [2] @ u64_le amount"
| "instruction_write Claim = [3]"
| "instruction_write ProveEquivocation = [4]"
| "instruction_write BeginUnbond = [6]"
| "instruction_write WithdrawBond = [7]"
| "instruction_write (ClaimVictim wire_bytes) = [5] @ wire_bytes"

definition instruction_shape :: "slash_instruction \<Rightarrow> bool" where
  "instruction_shape i = (case i of Register signing_key _ \<Rightarrow> length signing_key = 32 | _ \<Rightarrow> True)"

lemma prefix_subslice: "n \<le> length xs \<Longrightarrow> prefix (subslice 0 n xs) xs"
  by (simp add: subslice_def take_is_prefix)

lemma instruction_read_write:
  assumes "instruction_shape i"
  shows "instruction_read (instruction_write i) = Inr i"
proof (cases i)
  case (Register k b)
  then show ?thesis
    using assms by (simp add: instruction_shape_def get_range_def layout)
qed (simp_all add: read_amount_def get_range_def layout)

lemma instruction_read_sound:
  assumes "instruction_read bs = Inr i"
  shows "instruction_shape i \<and> prefix (instruction_write i) bs"
proof (cases bs)
  case Nil
  with assms show ?thesis by simp
next
  case (Cons tag rest)
  have register: "prefix (subslice 0 32 rest @ subslice 32 40 rest) rest" if "40 \<le> length rest"
    using that by (simp add: subslice_join prefix_subslice)
  show ?thesis
    using assms Cons
    by (auto simp: instruction_shape_def read_amount_def result_simps get_range_Some prefix_subslice
        u64_le_u64_of_le register split: if_splits)
qed

section \<open>Properties\<close>

text \<open>
  The instruction format round-trips, and what is read is what the bytes begin with: a byte
  string decodes to an instruction exactly when it extends that instruction's encoding, except that
  a victim's claim takes every byte behind its tag.
\<close>
theorem instruction_format:
  "instruction_read bs = Inr i \<longleftrightarrow>
     instruction_shape i \<and> prefix (instruction_write i) bs \<and>
     (case i of ClaimVictim _ \<Rightarrow> bs = instruction_write i | _ \<Rightarrow> True)"
  (is "?read \<longleftrightarrow> ?form")
proof
  assume ?read
  then show ?form
    using instruction_read_sound [of bs i]
    by (cases bs) (auto simp: result_simps split: slash_instruction.splits if_splits)
next
  assume form: ?form
  then obtain rest where "bs = instruction_write i @ rest"
    by (auto simp: prefix_def)
  with form show ?read
    by (cases i) (auto simp: instruction_shape_def read_amount_def get_range_def layout)
qed

end
