(* ===== verification/Receipt.thy ===== *)
theory Receipt
  imports Constants Codec
begin

text \<open>
  The receipt crate (\<open>src/crates/receipt\<close>): the 261-byte statement an operator signs, its
  validity per mode, the two encodings, signing, verification and the chain hash.

  SHA-256, BLAKE3 and Ed25519 are third-party crates and enter as the parameter \<open>crypto\<close>;
  what a theorem needs of them is the named hypothesis \<open>crypto_ok\<close> (digest and signature
  lengths, and that a signature made by a key verifies under its public half). Nothing assumes
  that a hash is injective: a theorem that would need it returns the colliding pair instead.
\<close>

section \<open>Third-party cryptography\<close>

record crypto =
  sha256 :: "bytes \<Rightarrow> bytes"
  blake3 :: "bytes \<Rightarrow> bytes"
  ed_sign :: "bytes \<Rightarrow> bytes \<Rightarrow> bytes"
  ed_verify :: "bytes \<Rightarrow> bytes \<Rightarrow> bytes \<Rightarrow> bool"
  verifying_key :: "bytes \<Rightarrow> bytes"

definition crypto_ok :: "crypto \<Rightarrow> bool" where
  "crypto_ok C \<longleftrightarrow>
     (\<forall>m. length (sha256 C m) = 32) \<and>
     (\<forall>m. length (blake3 C m) = 32) \<and>
     (\<forall>sk m. length (ed_sign C sk m) = 64) \<and>
     (\<forall>sk. length (verifying_key C sk) = 32) \<and>
     (\<forall>sk m. ed_verify C (verifying_key C sk) m (ed_sign C sk m))"

definition collision :: "(bytes \<Rightarrow> bytes) \<Rightarrow> bytes \<Rightarrow> bytes \<Rightarrow> bool" where
  "collision h x y \<longleftrightarrow> x \<noteq> y \<and> h x = h y"

section \<open>Data\<close>

datatype receipt_error =
    WrongLength nat
  | BadDomainTag
  | InvalidMode u8
  | ModeReserved
  | TxSigNotZeroed
  | TxSigZeroed
  | TxHashZeroed
  | RecentBlockhashNotZeroed
  | CommitterNotZeroed
  | CommitterZeroed
  | BadSignature

record receipt =
  r_log_id :: bytes
  r_mode :: mode
  r_seq :: u64
  r_tx_sig :: bytes
  r_tx_hash :: bytes
  r_recent_blockhash :: bytes
  r_prev_receipt_hash :: bytes
  r_committer :: bytes
  r_ingress_slot :: u64
  r_t_ingress_micros :: u64

text \<open>The array types of the struct's fields.\<close>

definition receipt_shape :: "receipt \<Rightarrow> bool" where
  "receipt_shape r \<longleftrightarrow>
     length (r_log_id r) = LEN_LOG_ID \<and>
     length (r_tx_sig r) = LEN_TX_SIG \<and>
     length (r_tx_hash r) = LEN_HASH \<and>
     length (r_recent_blockhash r) = LEN_HASH \<and>
     length (r_prev_receipt_hash r) = LEN_HASH \<and>
     length (r_committer r) = LEN_PUBKEY"

record signed_receipt =
  s_receipt :: receipt
  s_signature :: bytes

definition signed_shape :: "signed_receipt \<Rightarrow> bool" where
  "signed_shape s \<longleftrightarrow> receipt_shape (s_receipt s) \<and> length (s_signature s) = LEN_TX_SIG"

section \<open>Operations\<close>

definition tx_hash_of :: "crypto \<Rightarrow> bytes \<Rightarrow> bytes" where
  "tx_hash_of C wire_bytes = sha256 C wire_bytes"

definition arr :: "nat \<Rightarrow> bytes \<Rightarrow> nat \<Rightarrow> bytes" where
  "arr n buf off = subslice off (off + n) buf"

definition receipt_to_bytes :: "receipt \<Rightarrow> bytes" where
  "receipt_to_bytes r =
     (let out = replicate RECEIPT_LEN 0;
          out = blit OFF_DOMAIN_TAG DOMAIN_TAG out;
          out = blit OFF_LOG_ID (r_log_id r) out;
          out = blit OFF_MODE [mode_as_u8 (r_mode r)] out;
          out = blit OFF_SEQ (u64_le (r_seq r)) out;
          out = blit OFF_TX_SIG (r_tx_sig r) out;
          out = blit OFF_TX_HASH (r_tx_hash r) out;
          out = blit OFF_RECENT_BLOCKHASH (r_recent_blockhash r) out;
          out = blit OFF_PREV_RECEIPT_HASH (r_prev_receipt_hash r) out;
          out = blit OFF_COMMITTER (r_committer r) out;
          out = blit OFF_INGRESS_SLOT (u64_le (r_ingress_slot r)) out;
          out = blit OFF_T_INGRESS_MICROS (u64_le (r_t_ingress_micros r)) out
      in out)"

definition validate :: "receipt \<Rightarrow> receipt_error + unit" where
  "validate r =
     (case r_mode r of
        Plain \<Rightarrow>
          if r_tx_sig r = ZERO_SIG then Inl TxSigZeroed
          else if r_committer r \<noteq> ZERO_PUBKEY then Inl CommitterNotZeroed
          else Inr ()
      | Commit \<Rightarrow>
          if r_tx_sig r \<noteq> ZERO_SIG then Inl TxSigNotZeroed
          else if r_committer r = ZERO_PUBKEY then Inl CommitterZeroed
          else Inr ()
      | Retract \<Rightarrow>
          if r_tx_sig r = ZERO_SIG then Inl TxSigZeroed
          else if r_tx_hash r = ZERO_HASH then Inl TxHashZeroed
          else if r_recent_blockhash r \<noteq> ZERO_HASH then Inl RecentBlockhashNotZeroed
          else if r_committer r \<noteq> ZERO_PUBKEY then Inl CommitterNotZeroed
          else Inr ()
      | Reveal \<Rightarrow> Inl ModeReserved)"

definition receipt_from_bytes :: "bytes \<Rightarrow> receipt_error + receipt" where
  "receipt_from_bytes buf =
     (if length buf \<noteq> RECEIPT_LEN then Inl (WrongLength (length buf))
      else if subslice OFF_DOMAIN_TAG OFF_LOG_ID buf \<noteq> DOMAIN_TAG then Inl BadDomainTag
      else
        (let mode_byte = buf ! OFF_MODE in
         and_then (ok_or (InvalidMode mode_byte) (mode_from_u8 mode_byte)) (\<lambda>m.
         (let r = \<lparr>r_log_id = arr LEN_LOG_ID buf OFF_LOG_ID,
                    r_mode = m,
                    r_seq = u64_of_le (arr LEN_SEQ buf OFF_SEQ),
                    r_tx_sig = arr LEN_TX_SIG buf OFF_TX_SIG,
                    r_tx_hash = arr LEN_HASH buf OFF_TX_HASH,
                    r_recent_blockhash = arr LEN_HASH buf OFF_RECENT_BLOCKHASH,
                    r_prev_receipt_hash = arr LEN_HASH buf OFF_PREV_RECEIPT_HASH,
                    r_committer = arr LEN_PUBKEY buf OFF_COMMITTER,
                    r_ingress_slot = u64_of_le (arr LEN_SLOT buf OFF_INGRESS_SLOT),
                    r_t_ingress_micros = u64_of_le (arr LEN_MICROS buf OFF_T_INGRESS_MICROS)\<rparr>
          in and_then (validate r) (\<lambda>_. Inr r)))))"

definition sign :: "crypto \<Rightarrow> receipt \<Rightarrow> bytes \<Rightarrow> receipt_error + signed_receipt" where
  "sign C r key =
     and_then (validate r) (\<lambda>_.
     Inr \<lparr>s_receipt = r, s_signature = ed_sign C key (receipt_to_bytes r)\<rparr>)"

definition message :: "signed_receipt \<Rightarrow> bytes" where
  "message s = receipt_to_bytes (s_receipt s)"

definition receipt_hash :: "crypto \<Rightarrow> signed_receipt \<Rightarrow> bytes" where
  "receipt_hash C s = sha256 C (receipt_to_bytes (s_receipt s) @ s_signature s)"

definition signed_to_bytes :: "signed_receipt \<Rightarrow> bytes" where
  "signed_to_bytes s =
     (let out = replicate SIGNED_RECEIPT_LEN 0;
          out = blit 0 (receipt_to_bytes (s_receipt s)) out;
          out = blit OFF_SIGNATURE (s_signature s) out
      in out)"

definition signed_from_bytes :: "bytes \<Rightarrow> receipt_error + signed_receipt" where
  "signed_from_bytes buf =
     (if length buf \<noteq> SIGNED_RECEIPT_LEN then Inl (WrongLength (length buf))
      else
        and_then (receipt_from_bytes (subslice 0 OFF_SIGNATURE buf)) (\<lambda>r.
        Inr \<lparr>s_receipt = r, s_signature = subslice OFF_SIGNATURE (length buf) buf\<rparr>))"

definition verify :: "crypto \<Rightarrow> signed_receipt \<Rightarrow> bytes \<Rightarrow> receipt_error + unit" where
  "verify C s key =
     and_then (validate (s_receipt s)) (\<lambda>_.
     (if ed_verify C key (message s) (s_signature s) then Inr () else Inl BadSignature))"

section \<open>The encoding is the concatenation of the fields\<close>

lemma receipt_to_bytes_concat:
  assumes "receipt_shape r"
  shows "receipt_to_bytes r =
    DOMAIN_TAG @ r_log_id r @ [mode_as_u8 (r_mode r)] @ u64_le (r_seq r) @ r_tx_sig r @
    r_tx_hash r @ r_recent_blockhash r @ r_prev_receipt_hash r @ r_committer r @
    u64_le (r_ingress_slot r) @ u64_le (r_t_ingress_micros r)"
  using assms by (simp add: receipt_to_bytes_def receipt_shape_def layout)

lemma length_receipt_to_bytes [simp]: "receipt_shape r \<Longrightarrow> length (receipt_to_bytes r) = 261"
  by (simp add: receipt_to_bytes_concat) (simp add: receipt_shape_def)


section \<open>Reading back\<close>

abbreviation receipt_valid :: "receipt \<Rightarrow> bool" where
  "receipt_valid r \<equiv> receipt_shape r \<and> validate r = Inr ()"

abbreviation signed_valid :: "signed_receipt \<Rightarrow> bool" where
  "signed_valid s \<equiv> signed_shape s \<and> validate (s_receipt s) = Inr ()"

lemma receipt_from_to_bytes:
  assumes "receipt_shape r"
  shows "receipt_from_bytes (receipt_to_bytes r) = and_then (validate r) (\<lambda>_. Inr r)"
  using assms
  by (cases r) (simp add: receipt_from_bytes_def receipt_to_bytes_concat receipt_shape_def arr_def
      layout Let_def)

lemma receipt_from_bytes_cases:
  assumes "receipt_from_bytes bs = Inr r"
  shows "length bs = 261"
    and "subslice 0 12 bs = DOMAIN_TAG"
    and "validate r = Inr ()"
    and "r_log_id r = subslice 12 44 bs"
    and "r_seq r = u64_of_le (subslice 45 53 bs)"
    and "r_tx_sig r = subslice 53 117 bs"
    and "r_tx_hash r = subslice 117 149 bs"
    and "r_recent_blockhash r = subslice 149 181 bs"
    and "r_prev_receipt_hash r = subslice 181 213 bs"
    and "r_committer r = subslice 213 245 bs"
    and "r_ingress_slot r = u64_of_le (subslice 245 253 bs)"
    and "r_t_ingress_micros r = u64_of_le (subslice 253 261 bs)"
    and "bs ! 44 = mode_as_u8 (r_mode r)"
  using assms
  by (auto simp: receipt_from_bytes_def arr_def Let_def mode_from_u8_Some result_simps
      split: if_splits)

lemma receipt_from_bytes_sound:
  assumes "receipt_from_bytes bs = Inr r"
  shows "receipt_valid r \<and> receipt_to_bytes r = bs"
proof -
  note fields = receipt_from_bytes_cases [OF assms]
  have shape: "receipt_shape r"
    by (simp add: receipt_shape_def fields)
  have "receipt_to_bytes r =
      subslice 0 12 bs @ subslice 12 44 bs @ bs ! 44 # subslice 45 53 bs @ subslice 53 117 bs @
      subslice 117 149 bs @ subslice 149 181 bs @ subslice 181 213 bs @ subslice 213 245 bs @
      subslice 245 253 bs @ subslice 253 261 bs"
    by (simp add: receipt_to_bytes_concat [OF shape] fields u64_le_u64_of_le)
  also have "\<dots> = bs"
    by (simp add: nth_Cons_subslice fields(1) subslice_join subslice_join_rest subslice_full)
  finally show ?thesis
    using shape fields(3) by simp
qed

interpretation receipt_codec:
  codec receipt_to_bytes receipt_from_bytes receipt_valid 261
  by unfold_locales (simp_all add: receipt_from_to_bytes receipt_from_bytes_sound)


lemma signed_to_bytes_append:
  assumes "signed_shape s"
  shows "signed_to_bytes s = receipt_to_bytes (s_receipt s) @ s_signature s"
  using assms by (simp add: signed_to_bytes_def signed_shape_def Let_def layout)

lemma signed_from_to_bytes:
  assumes "signed_valid s"
  shows "signed_from_bytes (signed_to_bytes s) = Inr s"
proof -
  have "receipt_shape (s_receipt s)" and "length (s_signature s) = 64"
    using assms by (simp_all add: signed_shape_def)
  with assms show ?thesis
    by (simp add: signed_from_bytes_def signed_to_bytes_append layout receipt_from_to_bytes)
qed

lemma signed_from_bytes_sound:
  assumes "signed_from_bytes bs = Inr s"
  shows "signed_valid s \<and> signed_to_bytes s = bs"
proof -
  obtain r where r: "receipt_from_bytes (subslice 0 261 bs) = Inr r"
    and s: "s = \<lparr>s_receipt = r, s_signature = subslice 261 325 bs\<rparr>" and len: "length bs = 325"
    using assms by (auto simp: signed_from_bytes_def result_simps split: if_splits)
  have valid: "signed_valid s"
    using receipt_from_bytes_sound [OF r] by (simp add: s signed_shape_def len)
  then have "signed_to_bytes s = receipt_to_bytes r @ subslice 261 325 bs"
    by (simp add: signed_to_bytes_append s)
  also have "\<dots> = bs"
    using receipt_from_bytes_sound [OF r] by (simp add: subslice_join subslice_full len)
  finally show ?thesis
    using valid by simp
qed

lemma length_signed_to_bytes: "signed_shape s \<Longrightarrow> length (signed_to_bytes s) = 325"
  by (simp add: signed_to_bytes_append) (simp add: signed_shape_def)

interpretation signed_codec:
  codec signed_to_bytes signed_from_bytes signed_valid 325
  by unfold_locales (simp_all add: signed_from_to_bytes signed_from_bytes_sound length_signed_to_bytes)

section \<open>Signing and verifying\<close>

lemma crypto_okD:
  assumes "crypto_ok C"
  shows "length (sha256 C m) = 32" "length (blake3 C m) = 32" "length (ed_sign C sk m) = 64"
    "length (verifying_key C sk) = 32" "ed_verify C (verifying_key C sk) m (ed_sign C sk m)"
  using assms by (simp_all add: crypto_ok_def)

lemma sign_Inr:
  "sign C r key = Inr s \<longleftrightarrow>
     validate r = Inr () \<and> s = \<lparr>s_receipt = r, s_signature = ed_sign C key (receipt_to_bytes r)\<rparr>"
  by (auto simp: sign_def result_simps)

lemma verify_Inr:
  "verify C s key = Inr () \<longleftrightarrow>
     validate (s_receipt s) = Inr () \<and> ed_verify C key (message s) (s_signature s)"
  by (auto simp: verify_def result_simps split: if_splits)

lemma sign_shape:
  "crypto_ok C \<Longrightarrow> receipt_shape r \<Longrightarrow> sign C r key = Inr s \<Longrightarrow> signed_shape s"
  by (auto simp: sign_Inr signed_shape_def crypto_okD)

lemma sign_verify:
  "crypto_ok C \<Longrightarrow> sign C r key = Inr s \<Longrightarrow> verify C s (verifying_key C key) = Inr ()"
  by (auto simp: sign_Inr verify_Inr message_def crypto_okD)

lemma receipt_hash_transport:
  "signed_shape s \<Longrightarrow> receipt_hash C s = sha256 C (signed_to_bytes s)"
  by (simp add: receipt_hash_def signed_to_bytes_append)

lemma validate_modes:
  "validate r = Inr () \<longleftrightarrow>
     (r_mode r = Plain \<and> r_tx_sig r \<noteq> ZERO_SIG \<and> r_committer r = ZERO_PUBKEY) \<or>
     (r_mode r = Commit \<and> r_tx_sig r = ZERO_SIG \<and> r_committer r \<noteq> ZERO_PUBKEY) \<or>
     (r_mode r = Retract \<and> r_tx_sig r \<noteq> ZERO_SIG \<and> r_tx_hash r \<noteq> ZERO_HASH \<and>
        r_recent_blockhash r = ZERO_HASH \<and> r_committer r = ZERO_PUBKEY)"
  by (cases "r_mode r") (simp_all add: validate_def)


lemma message_inj:
  "receipt_shape (s_receipt a) \<Longrightarrow> receipt_shape (s_receipt b) \<Longrightarrow> message a = message b \<Longrightarrow>
   s_receipt a = s_receipt b"
  by (cases "s_receipt a"; cases "s_receipt b"; cases "r_mode (s_receipt a)"; cases "r_mode (s_receipt b)")
    (auto simp: message_def receipt_to_bytes_concat receipt_shape_def mode_bytes)

section \<open>A concrete instance, for the witnesses\<close>

definition demo_crypto :: crypto where
  "demo_crypto =
     \<lparr>sha256 = (\<lambda>m. take 32 (rev m @ replicate 32 0)),
      blake3 = (\<lambda>m. take 32 (rev m @ replicate 32 0)),
      ed_sign = (\<lambda>sk m. take 64 (take 32 (sk @ replicate 32 0) @ rev m @ replicate 64 0)),
      ed_verify = (\<lambda>vk m s. s = take 64 (vk @ rev m @ replicate 64 0)),
      verifying_key = (\<lambda>sk. take 32 (sk @ replicate 32 0))\<rparr>"

lemma demo_crypto_ok: "crypto_ok demo_crypto"
  by (auto simp: crypto_ok_def demo_crypto_def min_def)

definition demo_receipt :: "u64 \<Rightarrow> u8 \<Rightarrow> receipt" where
  "demo_receipt n tag =
     \<lparr>r_log_id = replicate 32 0x9c, r_mode = Plain, r_seq = n, r_tx_sig = replicate 64 tag,
      r_tx_hash = replicate 32 0xb2, r_recent_blockhash = replicate 32 0xc3,
      r_prev_receipt_hash = ZERO_HASH, r_committer = ZERO_PUBKEY,
      r_ingress_slot = 1000, r_t_ingress_micros = 1700000000000000\<rparr>"

lemma demo_receipt_shape: "receipt_shape (demo_receipt n tag)"
  by (simp add: receipt_shape_def demo_receipt_def)

lemma demo_receipt_validate: "tag \<noteq> 0 \<Longrightarrow> validate (demo_receipt n tag) = Inr ()"
  by (simp add: validate_def demo_receipt_def ZERO_SIG_def)

section \<open>Properties\<close>

text \<open>
  The receipt format is exact: a byte string parses to a receipt if and only if it is the
  encoding of that receipt and the receipt satisfies its mode's rules. So every valid receipt
  survives the wire, nothing invalid parses, and no two byte strings carry one receipt.
\<close>

theorem receipt_bytes_exact:
  "receipt_from_bytes bs = Inr r \<longleftrightarrow>
     receipt_shape r \<and> validate r = Inr () \<and> receipt_to_bytes r = bs"
  by (simp add: receipt_codec.decode_iff)

text \<open>C37. The same for the 325-byte transport encoding of a signed receipt.\<close>

theorem signed_bytes_exact:
  "signed_from_bytes bs = Inr s \<longleftrightarrow>
     signed_shape s \<and> validate (s_receipt s) = Inr () \<and> signed_to_bytes s = bs"
  by (simp add: signed_codec.decode_iff)

text \<open>
  What an operator signs is accepted: the signed receipt verifies under the operator's
  public key and survives the transport encoding, and its chain hash has the width of the
  \<open>prev_receipt_hash\<close> field that will carry it.
\<close>

theorem signed_receipt_verifies:
  assumes "crypto_ok C" and "receipt_shape r" and "sign C r key = Inr s"
  shows "verify C s (verifying_key C key) = Inr () \<and>
         signed_from_bytes (signed_to_bytes s) = Inr s \<and>
         length (receipt_hash C s) = LEN_HASH"
proof -
  have "signed_shape s" and "validate (s_receipt s) = Inr ()"
    using assms by (auto simp: sign_shape sign_Inr)
  with assms show ?thesis
    by (auto simp: sign_verify signed_from_to_bytes receipt_hash_def crypto_okD)
qed

theorem signed_receipt_verifies_witness:
  "\<exists>s. sign demo_crypto (demo_receipt 7 0xaa) [1] = Inr s \<and>
       verify demo_crypto s (verifying_key demo_crypto [1]) = Inr ()"
proof -
  have "sign demo_crypto (demo_receipt 7 0xaa) [1] =
      Inr \<lparr>s_receipt = demo_receipt 7 0xaa,
           s_signature = ed_sign demo_crypto [1] (receipt_to_bytes (demo_receipt 7 0xaa))\<rparr>"
    by (simp add: sign_def demo_receipt_validate)
  with signed_receipt_verifies [OF demo_crypto_ok demo_receipt_shape this]
  show ?thesis by blast
qed

text \<open>
  The chain hash names one signed receipt: two valid signed receipts with the same chain
  hash are the same receipt with the same signature, or their transport encodings are a SHA-256
  collision.
\<close>

theorem receipt_hash_binds:
  assumes "signed_shape a" and "validate (s_receipt a) = Inr ()"
    and "signed_shape b" and "validate (s_receipt b) = Inr ()"
    and "receipt_hash C a = receipt_hash C b"
  shows "a = b \<or> collision (sha256 C) (signed_to_bytes a) (signed_to_bytes b)"
  using assms signed_codec.encode_inj [of a b]
  by (auto simp: collision_def receipt_hash_transport)

theorem receipt_hash_binds_witness:
  "collision (sha256 demo_crypto)
     (signed_to_bytes \<lparr>s_receipt = demo_receipt 7 0xaa, s_signature = replicate 64 1\<rparr>)
     (signed_to_bytes \<lparr>s_receipt = demo_receipt 8 0xaa, s_signature = replicate 64 1\<rparr>)"
proof -
  let ?a = "\<lparr>s_receipt = demo_receipt 7 0xaa, s_signature = replicate 64 1\<rparr>"
  let ?b = "\<lparr>s_receipt = demo_receipt 8 0xaa, s_signature = replicate 64 1\<rparr>"
  have "signed_shape ?a" "validate (s_receipt ?a) = Inr ()"
    "signed_shape ?b" "validate (s_receipt ?b) = Inr ()"
    by (simp_all add: signed_shape_def demo_receipt_shape demo_receipt_validate)
  moreover have "receipt_hash demo_crypto ?a = receipt_hash demo_crypto ?b"
    by (simp add: receipt_hash_def demo_crypto_def)
  moreover have "?a \<noteq> ?b"
    by (simp add: demo_receipt_def)
  ultimately show ?thesis
    using receipt_hash_binds [of ?a ?b demo_crypto] by simp
qed

end
