(* ===== verification/Evidence.thy ===== *)
theory Evidence
  imports Accounts Receipt "HOL-Library.List_Lexorder"
begin

text \<open>
  What the on-chain program reads out of bytes it is handed (\<open>src/crates/program/src\<close>):
  the pairs an Ed25519 verification instruction proved (\<open>ed25519.rs\<close>), whether two receipts
  contradict each other and who was wronged (\<open>evidence.rs\<close>), and the fee payer of a wire
  transaction (\<open>transaction.rs\<close>). The slice order \<open>a <= b\<close> of Rust is the lexicographic order on
  lists of bytes.
\<close>

unbundle bit_operations_syntax

section \<open>The Ed25519 instruction\<close>

definition OFFSETS_LEN :: nat where "OFFSETS_LEN = 14"
definition HEADER_LEN :: nat where "HEADER_LEN = 2"
definition THIS_INSTRUCTION :: u16 where "THIS_INSTRUCTION = 65535"

record verified =
  v_key :: bytes
  v_message :: bytes

definition offset_field :: "bytes \<Rightarrow> nat \<Rightarrow> u16" where
  "offset_field offsets n = u16_of_le [offsets ! (n * 2), offsets ! (n * 2 + 1)]"

definition verified_entry :: "bytes \<Rightarrow> u16 \<Rightarrow> nat \<Rightarrow> slash_error + verified" where
  "verified_entry data index entry =
     (let at = HEADER_LEN + entry * OFFSETS_LEN in
      and_then (ok_or NoEd25519Instruction (get_range at (at + OFFSETS_LEN) data)) (\<lambda>offsets.
        let field = offset_field offsets;
            signature_at = unat (field 0); key_at = unat (field 2);
            message_at = unat (field 4); message_len = unat (field 5)
        in
        if \<exists>i \<in> set [field 1, field 3, field 6]. i \<noteq> THIS_INSTRUCTION \<and> i \<noteq> index
        then Inl OffsetsNotSelfContained
        else
          and_then (ok_or OffsetsNotSelfContained (get_range signature_at (signature_at + 64) data)) (\<lambda>_.
          and_then (ok_or OffsetsNotSelfContained (get_range key_at (key_at + 32) data)) (\<lambda>key.
          and_then (ok_or OffsetsNotSelfContained (get_range message_at (message_at + message_len) data))
            (\<lambda>message. Inr \<lparr>v_key = key, v_message = message\<rparr>)))))"

fun verified_entries :: "bytes \<Rightarrow> u16 \<Rightarrow> nat list \<Rightarrow> slash_error + verified list" where
  "verified_entries data index [] = Inr []"
| "verified_entries data index (entry # entries) =
     and_then (verified_entry data index entry) (\<lambda>pair.
     and_then (verified_entries data index entries) (\<lambda>pairs. Inr (pair # pairs)))"

definition verified_pairs :: "bytes \<Rightarrow> u16 \<Rightarrow> slash_error + verified list" where
  "verified_pairs data index =
     (if length data < HEADER_LEN then Inl NoEd25519Instruction
      else verified_entries data index [0..<unat (data ! 0)])"

section \<open>Equivocation\<close>

record equivocation =
  e_seq :: u64
  e_log_id :: bytes
  e_a :: bytes
  e_b :: bytes

definition evidence_field :: "bytes \<Rightarrow> nat \<Rightarrow> nat \<Rightarrow> slash_error + bytes" where
  "evidence_field receipt at len = ok_or MalformedReceipt (get_range at (at + len) receipt)"

fun well_formed_all :: "bytes list \<Rightarrow> slash_error + unit" where
  "well_formed_all [] = Inr ()"
| "well_formed_all (receipt # rest) =
     (if length receipt \<noteq> RECEIPT_LEN then Inl MalformedReceipt
      else if subslice 0 OFF_LOG_ID receipt \<noteq> DOMAIN_TAG then Inl MalformedReceipt
      else well_formed_all rest)"

definition seq_of :: "bytes \<Rightarrow> slash_error + u64" where
  "seq_of receipt = and_then (evidence_field receipt OFF_SEQ 8) (\<lambda>bs. Inr (u64_of_le bs))"

definition equivocation_check :: "bytes \<Rightarrow> bytes \<Rightarrow> slash_error + equivocation" where
  "equivocation_check a b =
     and_then (well_formed_all [a, b]) (\<lambda>_.
     and_then (evidence_field a OFF_LOG_ID 32) (\<lambda>log_id.
     and_then (evidence_field b OFF_LOG_ID 32) (\<lambda>other_log.
     if other_log \<noteq> log_id then Inl MixedLogs
     else
       and_then (seq_of a) (\<lambda>seq.
       and_then (seq_of b) (\<lambda>other_seq.
       if other_seq \<noteq> seq then Inl DifferentSequence
       else if a = b then Inl NotContradictory
       else Inr \<lparr>e_seq = seq, e_log_id = log_id, e_a = a, e_b = b\<rparr>)))))"

definition equivocation_ordered :: "equivocation \<Rightarrow> bytes \<times> bytes" where
  "equivocation_ordered e = (if e_a e \<le> e_b e then (e_a e, e_b e) else (e_b e, e_a e))"

definition wronged_signature :: "equivocation \<Rightarrow> bytes" where
  "wronged_signature e = subslice OFF_TX_SIG (OFF_TX_SIG + 64) (fst (equivocation_ordered e))"

definition wronged_tx_hash :: "equivocation \<Rightarrow> bytes" where
  "wronged_tx_hash e = subslice OFF_TX_HASH OFF_RECENT_BLOCKHASH (fst (equivocation_ordered e))"

section \<open>The fee payer\<close>

fun compact_steps :: "bytes \<Rightarrow> nat \<Rightarrow> nat list \<Rightarrow> nat \<Rightarrow> slash_error + nat \<times> nat" where
  "compact_steps wire at [] value = Inl MalformedReceipt"
| "compact_steps wire at (step # steps) value =
     and_then (ok_or MalformedReceipt (get_at (at + step) wire)) (\<lambda>byte.
       let value = value OR push_bit (step * 7) (unat (byte AND 0x7f))
       in if byte AND 0x80 = 0 then Inr (value, at + step + 1)
          else compact_steps wire at steps value)"

definition compact_u16 :: "bytes \<Rightarrow> nat \<Rightarrow> slash_error + nat \<times> nat" where
  "compact_u16 wire at = compact_steps wire at [0..<3] 0"

definition fee_payer :: "bytes \<Rightarrow> slash_error + bytes" where
  "fee_payer wire =
     and_then (compact_u16 wire 0) (\<lambda>(signatures, after_count).
     let message_at = after_count + signatures * 64 in
     and_then
       (case get_at message_at wire of
          Some byte \<Rightarrow> if byte AND 0x80 \<noteq> 0 then Inr (message_at + 1) else Inr message_at
        | None \<Rightarrow> Inl MalformedReceipt) (\<lambda>header_at.
     and_then (compact_u16 wire (header_at + 3)) (\<lambda>(_, after_keys).
     ok_or MalformedReceipt (get_range after_keys (after_keys + 32) wire))))"

text \<open>The compact length prefix of Solana's wire format, as its encoder writes it.\<close>

definition shortvec :: "nat \<Rightarrow> bytes" where
  "shortvec n =
     (if n < 128 then [of_nat n]
      else if n < 16384 then [of_nat (n mod 128 + 128), of_nat (n div 128)]
      else [of_nat (n mod 128 + 128), of_nat (n div 128 mod 128 + 128), of_nat (n div 16384)])"

section \<open>What the evidence is\<close>

definition well_formed_message :: "bytes \<Rightarrow> bool" where
  "well_formed_message m \<longleftrightarrow> length m = 261 \<and> subslice 0 12 m = DOMAIN_TAG"

abbreviation message_log :: "bytes \<Rightarrow> bytes" where "message_log m \<equiv> subslice 12 44 m"
abbreviation message_seq :: "bytes \<Rightarrow> u64" where "message_seq m \<equiv> u64_of_le (subslice 45 53 m)"

definition contradict :: "bytes \<Rightarrow> bytes \<Rightarrow> bool" where
  "contradict a b \<longleftrightarrow> well_formed_message a \<and> well_formed_message b \<and>
     message_log a = message_log b \<and> message_seq a = message_seq b \<and> a \<noteq> b"

lemma equivocation_check_iff:
  "equivocation_check a b = Inr e \<longleftrightarrow>
     contradict a b \<and> e = \<lparr>e_seq = message_seq a, e_log_id = message_log a, e_a = a, e_b = b\<rparr>"
  by (auto simp: equivocation_check_def contradict_def well_formed_message_def evidence_field_def
      seq_of_def result_simps get_range_Some)

lemma contradict_sym: "contradict a b \<longleftrightarrow> contradict b a"
  by (auto simp: contradict_def)

lemma equivocation_ordered_sym:
  assumes "equivocation_check a b = Inr e" and "equivocation_check b a = Inr e'"
  shows "equivocation_ordered e' = equivocation_ordered e"
  using assms by (auto simp: equivocation_check_iff equivocation_ordered_def)

lemma message_fields:
  assumes "receipt_shape r"
  shows "well_formed_message (receipt_to_bytes r)"
    and "message_log (receipt_to_bytes r) = r_log_id r"
    and "message_seq (receipt_to_bytes r) = r_seq r"
    and "subslice 53 117 (receipt_to_bytes r) = r_tx_sig r"
    and "subslice 117 149 (receipt_to_bytes r) = r_tx_hash r"
  using assms
  by (simp_all add: well_formed_message_def receipt_to_bytes_concat receipt_shape_def layout)

lemma receipt_bytes_distinct:
  assumes "receipt_shape r" and "receipt_shape r'"
  shows "receipt_to_bytes r = receipt_to_bytes r' \<longleftrightarrow> r = r'"
proof
  assume eq: "receipt_to_bytes r = receipt_to_bytes r'"
  have "mode_as_u8 (r_mode r) = mode_as_u8 (r_mode r')"
    using arg_cong [OF eq, of "\<lambda>bs. bs ! 44"] assms
    by (simp add: receipt_to_bytes_concat receipt_shape_def layout)
  then have "r_mode r = r_mode r'"
    by (metis mode_from_as_u8 option.inject)
  with eq assms show "r = r'"
    by (cases r, cases r') (simp add: receipt_to_bytes_concat receipt_shape_def)
qed simp

lemma contradict_receipts:
  assumes "receipt_shape r" and "receipt_shape r'"
  shows "contradict (receipt_to_bytes r) (receipt_to_bytes r') \<longleftrightarrow>
    r_log_id r = r_log_id r' \<and> r_seq r = r_seq r' \<and> r \<noteq> r'"
  using assms by (auto simp: contradict_def message_fields receipt_bytes_distinct)

section \<open>Reading compact lengths\<close>

lemma high_bit: "(b :: u8) AND 0x80 = 0 \<longleftrightarrow> unat b < 128"
proof -
  have "(0x80 :: u8) = push_bit 7 1"
    by simp
  then have "b AND 0x80 \<noteq> 0 \<longleftrightarrow> bit b 7"
    by (simp only: bit_iff_and_push_bit_not_eq_0)
  also have "\<dots> \<longleftrightarrow> bit (unat b) 7"
    by (simp add: bit_unsigned_iff)
  also have "\<dots> \<longleftrightarrow> odd (unat b div 128)"
    by (simp only: bit_iff_odd) simp
  also have "\<dots> \<longleftrightarrow> 128 \<le> unat b"
  proof -
    have "unat b < 256" using unat_less_2p [of b] by simp
    then have "unat b div 128 = 0 \<or> unat b div 128 = 1" by auto
    moreover have "unat b div 128 = 0 \<longleftrightarrow> unat b < 128" by auto
    ultimately show ?thesis by auto
  qed
  finally show ?thesis by auto
qed

lemma low_bits: "unat ((b :: u8) AND 0x7f) = unat b mod 128"
proof -
  have "(0x7f :: u8) = mask 7"
    by (simp add: mask_eq_exp_minus_1)
  then have "b AND 0x7f = take_bit 7 b"
    by (simp only: take_bit_eq_mask)
  then show ?thesis
    by (simp add: take_bit_eq_mod unat_mod)
qed

lemma or_push_bit: "a < 2 ^ k \<Longrightarrow> a OR push_bit k c = a + 2 ^ k * c" for a c :: nat
proof -
  assume "a < 2 ^ k"
  then have "take_bit k a = a" by (simp add: take_bit_nat_eq_self_iff)
  then have "\<not> bit a n" if "k \<le> n" for n
    using that by (metis bit_take_bit_iff linorder_not_le)
  then have "a AND push_bit k c = 0"
    by (intro bit_eqI) (auto simp: bit_and_iff bit_push_bit_iff)
  then show ?thesis
    by (simp add: disjunctive_add_eq_or push_bit_eq_mult mult.commute flip: disjunctive_add_eq_or)
qed
lemma unat_small: "c < 256 \<Longrightarrow> unat (of_nat c :: u8) = c"
  by (simp add: unat_of_nat)

lemma compact_u16_bytes:
  "unat b0 < 128 \<Longrightarrow> compact_u16 (pre @ b0 # rest) (length pre) = Inr (unat b0, length pre + 1)"
  "128 \<le> unat b0 \<Longrightarrow> unat b1 < 128 \<Longrightarrow> compact_u16 (pre @ b0 # b1 # rest) (length pre) =
     Inr (unat b0 mod 128 + 128 * unat b1, length pre + 2)"
  "128 \<le> unat b0 \<Longrightarrow> 128 \<le> unat b1 \<Longrightarrow> unat b2 < 128 \<Longrightarrow>
     compact_u16 (pre @ b0 # b1 # b2 # rest) (length pre) =
     Inr (unat b0 mod 128 + 128 * (unat b1 mod 128) + 16384 * unat b2, length pre + 3)"
proof -
  have "[0..<3] = [0, 1, 2 :: nat]"
    by (simp add: upt_rec)
  then have steps: "compact_u16 wire at = compact_steps wire at [0, 1, 2] 0" for wire at
    by (simp only: compact_u16_def)
  have at: "get_at (length pre) (pre @ x # xs) = Some x"
    "get_at (Suc (length pre)) (pre @ x # y # xs) = Some y"
    "get_at (Suc (Suc (length pre))) (pre @ x # y # z # xs) = Some z" for x y z and xs :: bytes
    by (simp_all add: get_at_def nth_append)
  have seven: "x mod 128 OR push_bit 7 y = x mod 128 + 128 * y" for x y :: nat
    using or_push_bit [of "x mod 128" 7 y] by simp
  have "x mod 128 + 128 * (y mod 128) < 16384" for x y :: nat
    by auto
  then have fourteen: "(x mod 128 + 128 * (y mod 128)) OR push_bit 14 z =
      x mod 128 + 128 * (y mod 128) + 16384 * z" for x y z :: nat
    using or_push_bit [of "x mod 128 + 128 * (y mod 128)" 14 z] by simp
  show "unat b0 < 128 \<Longrightarrow> compact_u16 (pre @ b0 # rest) (length pre) = Inr (unat b0, length pre + 1)"
    by (simp add: steps at high_bit low_bits)
  show "128 \<le> unat b0 \<Longrightarrow> unat b1 < 128 \<Longrightarrow> compact_u16 (pre @ b0 # b1 # rest) (length pre) =
     Inr (unat b0 mod 128 + 128 * unat b1, length pre + 2)"
    by (simp add: steps at high_bit low_bits seven Let_def del: push_bit_of_nat)
  show "128 \<le> unat b0 \<Longrightarrow> 128 \<le> unat b1 \<Longrightarrow> unat b2 < 128 \<Longrightarrow>
     compact_u16 (pre @ b0 # b1 # b2 # rest) (length pre) =
     Inr (unat b0 mod 128 + 128 * (unat b1 mod 128) + 16384 * unat b2, length pre + 3)"
    by (simp add: steps at high_bit low_bits seven fourteen Let_def)
qed

lemma compact_u16_shortvec:
  assumes "n < 65536"
  shows "compact_u16 (pre @ shortvec n @ rest) (length pre) = Inr (n, length pre + length (shortvec n))"
proof -
  consider "n < 128" | "128 \<le> n" "n < 16384" | "16384 \<le> n" by linarith
  then show ?thesis
  proof cases
    case 1
    then show ?thesis
      by (simp add: shortvec_def compact_u16_bytes(1) unat_small)
  next
    case 2
    then have "n div 128 < 128" by auto
    then have "compact_u16 (pre @ shortvec n @ rest) (length pre) =
        Inr (unat (of_nat (n mod 128 + 128) :: u8) mod 128 + 128 * unat (of_nat (n div 128) :: u8), length pre + 2)"
      using 2 compact_u16_bytes(2) [of "of_nat (n mod 128 + 128)" "of_nat (n div 128)" pre rest]
      by (simp add: shortvec_def unat_small del: of_nat_add)
    with \<open>n div 128 < 128\<close> 2 show ?thesis
      by (simp add: unat_small shortvec_def del: of_nat_add)
  next
    case 3
    then have "n div 16384 < 128" using assms by auto
    have "n mod 128 + 128 * (n div 128 mod 128) + 16384 * (n div 16384) = n"
      using mod_mult2_eq [of n 128 128] mult_div_mod_eq [of 16384 n] by simp
    then show ?thesis
      using 3 \<open>n div 16384 < 128\<close>
        compact_u16_bytes(3) [of "of_nat (n mod 128 + 128)" "of_nat (n div 128 mod 128 + 128)" "of_nat (n div 16384)" pre rest]
      by (simp add: shortvec_def unat_small del: of_nat_add)
  qed
qed

section \<open>Properties\<close>

text \<open>
  C36. Two receipts convict exactly when they are different statements about one position of one log,
  whichever way round they are presented; both ways round name the same canonical pair, and the
  wronged transaction is the one of the same receipt of the two.
\<close>
theorem evidence_canonical:
  assumes "receipt_shape r" and "receipt_shape r'"
  shows "case equivocation_check (receipt_to_bytes r) (receipt_to_bytes r') of
      Inl _ \<Rightarrow> r_log_id r \<noteq> r_log_id r' \<or> r_seq r \<noteq> r_seq r' \<or> r = r'
    | Inr e \<Rightarrow> r_log_id r = r_log_id r' \<and> r_seq r = r_seq r' \<and> r \<noteq> r' \<and>
        (\<exists>e' w. equivocation_check (receipt_to_bytes r') (receipt_to_bytes r) = Inr e' \<and>
          equivocation_ordered e' = equivocation_ordered e \<and> w \<in> {r, r'} \<and>
          wronged_signature e = r_tx_sig w \<and> wronged_signature e' = r_tx_sig w \<and>
          wronged_tx_hash e = r_tx_hash w \<and> wronged_tx_hash e' = r_tx_hash w)"
proof (cases "equivocation_check (receipt_to_bytes r) (receipt_to_bytes r')")
  case (Inl err)
  then have "\<not> contradict (receipt_to_bytes r) (receipt_to_bytes r')"
    by (metis Inl_Inr_False equivocation_check_iff)
  with Inl assms show ?thesis
    by (auto simp: contradict_receipts)
next
  case (Inr e)
  then have c: "contradict (receipt_to_bytes r) (receipt_to_bytes r')"
    and e: "e_a e = receipt_to_bytes r" "e_b e = receipt_to_bytes r'"
    by (simp_all add: equivocation_check_iff)
  then obtain e' where e': "equivocation_check (receipt_to_bytes r') (receipt_to_bytes r) = Inr e'"
    using contradict_sym equivocation_check_iff by blast
  have same: "equivocation_ordered e' = equivocation_ordered e"
    by (rule equivocation_ordered_sym [OF Inr e'])
  have "fst (equivocation_ordered e) \<in> receipt_to_bytes ` {r, r'}"
    using e by (simp add: equivocation_ordered_def)
  then obtain w where w: "w \<in> {r, r'}" "fst (equivocation_ordered e) = receipt_to_bytes w"
    by blast
  then have "receipt_shape w"
    using assms by auto
  then have "wronged_signature e = r_tx_sig w" "wronged_tx_hash e = r_tx_hash w"
    "wronged_signature e' = r_tx_sig w" "wronged_tx_hash e' = r_tx_hash w"
    using w by (simp_all add: wronged_signature_def wronged_tx_hash_def same message_fields)
  with Inr assms c e' same w show ?thesis
    by (auto simp: contradict_receipts)
qed

theorem evidence_canonical_witness:
  "\<exists>e. equivocation_check (receipt_to_bytes (demo_receipt 7 0xaa)) (receipt_to_bytes (demo_receipt 7 0xbb)) = Inr e"
  using evidence_canonical [OF demo_receipt_shape [of 7 "0xaa"] demo_receipt_shape [of 7 "0xbb"]]
  by (auto simp: demo_receipt_def split: sum.splits)

text \<open>
  On the wire form of a transaction, legacy or versioned, the fee payer is read as the first
  account key: a compact count of signatures, the signatures, the optional version byte, three
  header bytes, a compact count of keys, and the keys.
\<close>
theorem fee_payer_wire:
  assumes "n < 65536" and "length sigs = 64 * n" and "k < 65536" and "length header = 3"
    and "length key = 32" and "version = [] \<and> unat (header ! 0) < 128 \<or> (\<exists>v. version = [v] \<and> 128 \<le> unat v)"
  shows "fee_payer (shortvec n @ sigs @ version @ header @ shortvec k @ key @ rest) = Inr key"
proof -
  let ?wire = "shortvec n @ sigs @ version @ header @ shortvec k @ key @ rest"
  let ?m = "length (shortvec n) + n * 64"
  obtain a b c where h: "header = [a, b, c]"
    using assms(4) by (auto simp: numeral_3_eq_3 length_Suc_conv)
  have 1: "compact_u16 ?wire 0 = Inr (n, length (shortvec n))"
    using compact_u16_shortvec [OF assms(1), of "[]"] by simp
  have 2: "get_at ?m ?wire = Some (hd (version @ header))"
    using assms(2,6) h by (auto simp: get_at_def nth_append)
  have 3: "compact_u16 ?wire (?m + length version + 3) = Inr (k, ?m + length version + 3 + length (shortvec k))"
    using compact_u16_shortvec [OF assms(3), of "shortvec n @ sigs @ version @ header" "key @ rest"] assms(2,4)
    by (simp add: mult.commute add.assoc)
  have 4: "get_range (?m + length version + 3 + length (shortvec k)) (?m + length version + 3 + length (shortvec k) + 32) ?wire = Some key"
    using assms(2,4,5) by (simp add: get_range_def subslice_def mult.commute)
  show ?thesis
    using assms(6) 1 2 3 4 h by (auto simp: fee_payer_def Let_def high_bit)
qed

theorem fee_payer_wire_witness:
  "fee_payer (shortvec 1 @ replicate 64 7 @ [0x80] @ [1, 0, 1] @ shortvec 2 @ replicate 32 9 @ replicate 32 3) =
   Inr (replicate 32 9)"
  by (rule fee_payer_wire) simp_all

end
