(* ===== verification/Processor.thy ===== *)
theory Processor
  imports Instruction Evidence
begin

text \<open>
  The handlers of the on-chain program (\<open>src/crates/program/src/processor.rs\<close>). The chain is a
  map from addresses to accounts, so two account infos with one key are one account, as they share
  one cell on chain; a handler is a function on it that fails or returns the new map, and a failed
  instruction leaves the chain as it was, because the runtime discards its writes.

  The runtime is a parameter: address derivation, rent, the clock, the instructions sysvar and the
  system program's two instructions are fields of \<open>runtime\<close>, and \<open>runtime_ok\<close> states what their
  documentation promises. The borrows of account data and lamports never overlap in these
  handlers (each is released at the end of its statement), so a failing borrow is not modelled; log
  messages are not modelled.
\<close>

section \<open>The chain\<close>

record account =
  ac_lamports :: u64
  ac_owner :: pubkey
  ac_data :: bytes

type_synonym world = "pubkey \<Rightarrow> account"

record account_info =
  ai_key :: pubkey
  ai_is_signer :: bool

datatype system_instruction =
    Create_Account pubkey pubkey u64 u64 pubkey
  | Transfer pubkey pubkey u64

record runtime =
  rt_system_program :: pubkey
  rt_incinerator :: pubkey
  rt_ed25519_program :: pubkey
  rt_sysvar_instructions :: pubkey
  rt_hash :: "bytes \<Rightarrow> bytes"
  rt_find_program_address :: "bytes list \<Rightarrow> pubkey \<Rightarrow> pubkey \<times> u8"
  rt_rent :: "program_error + (nat \<Rightarrow> u64)"
  rt_clock :: "program_error + u64"
  rt_current_index :: "pubkey \<Rightarrow> program_error + u16"
  rt_instruction_at :: "nat \<Rightarrow> pubkey \<Rightarrow> program_error + pubkey \<times> bytes"
  rt_invoke :: "system_instruction \<Rightarrow> account_info list \<Rightarrow> bytes list list \<Rightarrow> world \<Rightarrow> program_error + world"

definition set_data :: "pubkey \<Rightarrow> bytes \<Rightarrow> world \<Rightarrow> world" where
  "set_data k d w = w(k := (w k)\<lparr>ac_data := d\<rparr>)"

definition set_lamports :: "pubkey \<Rightarrow> u64 \<Rightarrow> world \<Rightarrow> world" where
  "set_lamports k l w = w(k := (w k)\<lparr>ac_lamports := l\<rparr>)"

fun next_account_info :: "account_info list \<Rightarrow> program_error + account_info \<times> account_info list" where
  "next_account_info [] = Inl NotEnoughAccountKeys"
| "next_account_info (a # rest) = Inr (a, rest)"

text \<open>Reading and writing one account's data through its layout.\<close>

definition load_operator :: "pubkey \<Rightarrow> world \<Rightarrow> program_error + operator_account" where
  "load_operator k w = map_err slash_err (operator_read (ac_data (w k)))"

definition load_position :: "pubkey \<Rightarrow> world \<Rightarrow> program_error + position_account" where
  "load_position k w = map_err slash_err (position_read (ac_data (w k)))"

definition load_conviction :: "pubkey \<Rightarrow> world \<Rightarrow> program_error + conviction_account" where
  "load_conviction k w = map_err slash_err (conviction_read (ac_data (w k)))"

definition store_operator :: "pubkey \<Rightarrow> operator_account \<Rightarrow> world \<Rightarrow> program_error + world" where
  "store_operator k acc w =
     and_then (map_err slash_err (operator_write acc (ac_data (w k)))) (\<lambda>d. Inr (set_data k d w))"

definition store_position :: "pubkey \<Rightarrow> position_account \<Rightarrow> world \<Rightarrow> program_error + world" where
  "store_position k q w =
     and_then (map_err slash_err (position_write q (ac_data (w k)))) (\<lambda>d. Inr (set_data k d w))"

definition store_conviction :: "pubkey \<Rightarrow> conviction_account \<Rightarrow> world \<Rightarrow> program_error + world" where
  "store_conviction k c w =
     and_then (map_err slash_err (conviction_write c (ac_data (w k)))) (\<lambda>d. Inr (set_data k d w))"

section \<open>Checks and payouts\<close>

definition owned_by :: "account_info \<Rightarrow> pubkey \<Rightarrow> world \<Rightarrow> slash_error + unit" where
  "owned_by a program_id w = (if ac_owner (w (ai_key a)) \<noteq> program_id then Inl WrongOwner else Inr ())"

definition at_pda :: "runtime \<Rightarrow> account_info \<Rightarrow> bytes list \<Rightarrow> pubkey \<Rightarrow> slash_error + u8" where
  "at_pda R a seeds program_id =
     (let (expected, bump) = rt_find_program_address R seeds program_id
      in if ai_key a \<noteq> expected then Inl WrongPda else Inr bump)"

definition reserved :: "runtime \<Rightarrow> operator_account \<Rightarrow> u64" where
  "reserved R operator =
     (case rt_rent R of Inr minimum_balance \<Rightarrow> minimum_balance OPERATOR_LEN | Inl _ \<Rightarrow> 0)
     + oa_bond operator + oa_pool_staked operator"

definition pay_out :: "account_info \<Rightarrow> account_info \<Rightarrow> u64 \<Rightarrow> world \<Rightarrow> program_error + world" where
  "pay_out from to amount w =
     and_then (ok_or (slash_err Overdraw) (checked_sub (ac_lamports (w (ai_key from))) amount)) (\<lambda>l.
     let w = set_lamports (ai_key from) l w in
     and_then (ok_or (slash_err Overdraw) (checked_add (ac_lamports (w (ai_key to))) amount)) (\<lambda>l.
     Inr (set_lamports (ai_key to) l w)))"

definition pay_out_from_operator ::
    "runtime \<Rightarrow> account_info \<Rightarrow> operator_account \<Rightarrow> account_info \<Rightarrow> u64 \<Rightarrow> world \<Rightarrow> program_error + world" where
  "pay_out_from_operator R operator_info acc to amount w =
     and_then (ok_or (slash_err Overdraw) (checked_sub (ac_lamports (w (ai_key operator_info))) amount))
       (\<lambda>remaining.
        if remaining < reserved R acc then Inl (slash_err Overdraw)
        else pay_out operator_info to amount w)"

section \<open>Handlers\<close>

definition register ::
    "runtime \<Rightarrow> pubkey \<Rightarrow> account_info list \<Rightarrow> bytes \<Rightarrow> u64 \<Rightarrow> world \<Rightarrow> program_error + world" where
  "register R program_id accounts signing_key bond w =
     and_then (next_account_info accounts) (\<lambda>(authority, info).
     and_then (next_account_info info) (\<lambda>(operator_info, info).
     and_then (next_account_info info) (\<lambda>(system, info).
     if \<not> ai_is_signer authority then Inl (slash_err NotSigner)
     else if bond = 0 then Inl (slash_err InsufficientBond)
     else
       and_then (map_err slash_err (at_pda R operator_info [OPERATOR_SEED, ai_key authority] program_id))
         (\<lambda>bump.
       and_then (rt_rent R) (\<lambda>minimum_balance.
       let rent = minimum_balance OPERATOR_LEN in
       and_then
         (rt_invoke R
           (Create_Account (ai_key authority) (ai_key operator_info) (rent + bond)
             (of_nat OPERATOR_LEN) program_id)
           [authority, operator_info, system]
           [[OPERATOR_SEED, ai_key authority, [bump]]] w) (\<lambda>w.
       store_operator (ai_key operator_info)
         \<lparr>oa_authority = ai_key authority, oa_signing_key = signing_key, oa_bond = bond,
          oa_pool_staked = 0, oa_reward_index = 0, oa_unbond_at = 0, oa_bump = bump\<rparr> w))))))"

definition open_position ::
    "runtime \<Rightarrow> pubkey \<Rightarrow> account_info \<Rightarrow> account_info \<Rightarrow> account_info \<Rightarrow> account_info \<Rightarrow> world
     \<Rightarrow> program_error + position_account \<times> world" where
  "open_position R program_id owner operator_info position_info system w =
     (let seeds = [POSITION_SEED, ai_key operator_info, ai_key owner] in
      and_then (map_err slash_err (at_pda R position_info seeds program_id)) (\<lambda>bump.
      if ac_owner (w (ai_key position_info)) = rt_system_program R then
        and_then (rt_rent R) (\<lambda>minimum_balance.
        let rent = minimum_balance POSITION_LEN in
        and_then
          (rt_invoke R
            (Create_Account (ai_key owner) (ai_key position_info) rent (of_nat POSITION_LEN) program_id)
            [owner, position_info, system]
            [[POSITION_SEED, ai_key operator_info, ai_key owner, [bump]]] w) (\<lambda>w.
        let fresh = \<lparr>pa_owner = ai_key owner, pa_operator = ai_key operator_info, pa_staked = 0,
                     pa_entry_index = 0, pa_reward = 0, pa_bump = bump\<rparr> in
        and_then (store_position (ai_key position_info) fresh w) (\<lambda>w. Inr (fresh, w))))
      else
        and_then (map_err slash_err (owned_by position_info program_id w)) (\<lambda>_.
        and_then (load_position (ai_key position_info) w) (\<lambda>position.
        if pa_owner position \<noteq> ai_key owner \<or> pa_operator position \<noteq> ai_key operator_info
        then Inl (slash_err WrongPda)
        else Inr (position, w)))))"

definition stake ::
    "runtime \<Rightarrow> pubkey \<Rightarrow> account_info list \<Rightarrow> u64 \<Rightarrow> world \<Rightarrow> program_error + world" where
  "stake R program_id accounts amount w =
     and_then (next_account_info accounts) (\<lambda>(owner, info).
     and_then (next_account_info info) (\<lambda>(operator_info, info).
     and_then (next_account_info info) (\<lambda>(position_info, info).
     and_then (next_account_info info) (\<lambda>(system, info).
     if \<not> ai_is_signer owner then Inl (slash_err NotSigner)
     else
       and_then (map_err slash_err (owned_by operator_info program_id w)) (\<lambda>_.
       and_then (load_operator (ai_key operator_info) w) (\<lambda>acc.
       and_then (open_position R program_id owner operator_info position_info system w) (\<lambda>(stored, w).
       and_then
         (map_err (\<lambda>_. slash_err NothingStaked)
           (pool_stake (operator_pool acc) (position_of stored) amount)) (\<lambda>(pool, position).
       and_then
         (rt_invoke R (Transfer (ai_key owner) (ai_key operator_info) amount)
           [owner, operator_info, system] [] w) (\<lambda>w.
       and_then (store_operator (ai_key operator_info) (operator_set_pool acc pool) w) (\<lambda>w.
       store_position (ai_key position_info) (set_position stored position) w))))))))))"

definition unstake ::
    "runtime \<Rightarrow> pubkey \<Rightarrow> account_info list \<Rightarrow> u64 \<Rightarrow> world \<Rightarrow> program_error + world" where
  "unstake R program_id accounts amount w =
     and_then (next_account_info accounts) (\<lambda>(owner, info).
     and_then (next_account_info info) (\<lambda>(operator_info, info).
     and_then (next_account_info info) (\<lambda>(position_info, info).
     if \<not> ai_is_signer owner then Inl (slash_err NotSigner)
     else
       and_then (map_err slash_err (owned_by operator_info program_id w)) (\<lambda>_.
       and_then (map_err slash_err (owned_by position_info program_id w)) (\<lambda>_.
       and_then (load_operator (ai_key operator_info) w) (\<lambda>acc.
       and_then (load_position (ai_key position_info) w) (\<lambda>stored.
       if pa_owner stored \<noteq> ai_key owner \<or> pa_operator stored \<noteq> ai_key operator_info
       then Inl (slash_err WrongPda)
       else
         and_then
           (map_err (\<lambda>_. slash_err Overdraw)
             (pool_unstake (operator_pool acc) (position_of stored) amount)) (\<lambda>(pool, position, _).
         let acc = operator_set_pool acc pool;
             stored = set_position stored position in
         and_then (store_operator (ai_key operator_info) acc w) (\<lambda>w.
         and_then (store_position (ai_key position_info) stored w) (\<lambda>w.
         pay_out_from_operator R operator_info acc owner amount w))))))))))"

definition claim ::
    "runtime \<Rightarrow> pubkey \<Rightarrow> account_info list \<Rightarrow> world \<Rightarrow> program_error + world" where
  "claim R program_id accounts w =
     and_then (next_account_info accounts) (\<lambda>(owner, info).
     and_then (next_account_info info) (\<lambda>(operator_info, info).
     and_then (next_account_info info) (\<lambda>(position_info, info).
     if \<not> ai_is_signer owner then Inl (slash_err NotSigner)
     else
       and_then (map_err slash_err (owned_by operator_info program_id w)) (\<lambda>_.
       and_then (map_err slash_err (owned_by position_info program_id w)) (\<lambda>_.
       and_then (load_operator (ai_key operator_info) w) (\<lambda>acc.
       and_then (load_position (ai_key position_info) w) (\<lambda>stored.
       if pa_owner stored \<noteq> ai_key owner \<or> pa_operator stored \<noteq> ai_key operator_info
       then Inl (slash_err WrongPda)
       else
         let (position, earned) = pool_claim (operator_pool acc) (position_of stored);
             stored = set_position stored position in
         and_then (store_position (ai_key position_info) stored w) (\<lambda>w.
         pay_out_from_operator R operator_info acc owner earned w))))))))"

fun check_pairs :: "bytes \<Rightarrow> verified list \<Rightarrow> slash_error + unit" where
  "check_pairs signing_key [] = Inr ()"
| "check_pairs signing_key (pair # pairs) =
     (if v_key pair \<noteq> signing_key then Inl UnregisteredKey
      else if length (v_message pair) \<noteq> RECEIPT_LEN then Inl MalformedReceipt
      else check_pairs signing_key pairs)"

text \<open>
  The handler in two halves: what the evidence has to be, up to the checked contradiction, and
  what a proven contradiction does to the accounts.
\<close>

definition proven_evidence ::
    "runtime \<Rightarrow> operator_account \<Rightarrow> account_info \<Rightarrow> program_error + equivocation" where
  "proven_evidence R acc sysvar =
     and_then (rt_current_index R (ai_key sysvar)) (\<lambda>here.
     and_then (ok_or (slash_err NoEd25519Instruction) (checked_sub here 1)) (\<lambda>ed25519_index.
     and_then (rt_instruction_at R (unat ed25519_index) (ai_key sysvar)) (\<lambda>(verifier_program, verifier_data).
     if verifier_program \<noteq> rt_ed25519_program R then Inl (slash_err NoEd25519Instruction)
     else
       and_then (map_err slash_err (verified_pairs verifier_data ed25519_index)) (\<lambda>pairs.
       if length pairs \<noteq> 2 then Inl (slash_err WrongSignatureCount)
       else
         and_then (map_err slash_err (check_pairs (oa_signing_key acc) pairs)) (\<lambda>_.
         map_err slash_err (equivocation_check (v_message (pairs ! 0)) (v_message (pairs ! 1))))))))"

definition convict ::
    "runtime \<Rightarrow> pubkey \<Rightarrow> account_info \<Rightarrow> account_info \<Rightarrow> account_info \<Rightarrow> account_info \<Rightarrow> account_info
     \<Rightarrow> operator_account \<Rightarrow> equivocation \<Rightarrow> world \<Rightarrow> program_error + world" where
  "convict R program_id accuser operator_info conviction_info burn_to system acc evidence w =
     (let (low, high) = equivocation_ordered evidence;
          low = rt_hash R low; high = rt_hash R high;
          seeds = [CONVICTION_SEED, ai_key operator_info, low, high] in
      and_then (map_err slash_err (at_pda R conviction_info seeds program_id)) (\<lambda>bump.
      if ac_owner (w (ai_key conviction_info)) \<noteq> rt_system_program R
      then Inl (slash_err AlreadyConvicted)
      else
        let slashed = oa_bond acc in
        if slashed = 0 then Inl (slash_err InsufficientBond)
        else
          let (pool, applied) = distribute (operator_pool acc) (split_of slashed) in
          and_then (rt_rent R) (\<lambda>minimum_balance.
          let rent = minimum_balance CONVICTION_LEN in
          and_then
            (rt_invoke R
              (Create_Account (ai_key accuser) (ai_key conviction_info) rent
                (of_nat CONVICTION_LEN) program_id)
              [accuser, conviction_info, system]
              [[CONVICTION_SEED, ai_key operator_info, low, high, [bump]]] w) (\<lambda>w.
          and_then (rt_clock R) (\<lambda>slot.
          and_then
            (store_conviction (ai_key conviction_info)
              \<lparr>ca_operator = ai_key operator_info, ca_wronged = wronged_signature evidence,
               ca_wronged_tx_hash = wronged_tx_hash evidence, ca_slashed = slashed,
               ca_owed_to_victim = sp_victim applied, ca_slot = slot, ca_bump = bump\<rparr> w) (\<lambda>w.
          let acc = operator_set_pool (acc\<lparr>oa_bond := 0\<rparr>) pool in
          and_then (store_operator (ai_key operator_info) acc w) (\<lambda>w.
          and_then (pay_out operator_info burn_to (sp_burn applied) w) (\<lambda>w.
          pay_out operator_info conviction_info (sp_victim applied) w)))))))
     )"

definition prove_equivocation ::
    "runtime \<Rightarrow> pubkey \<Rightarrow> account_info list \<Rightarrow> world \<Rightarrow> program_error + world" where
  "prove_equivocation R program_id accounts w =
     and_then (next_account_info accounts) (\<lambda>(accuser, info).
     and_then (next_account_info info) (\<lambda>(operator_info, info).
     and_then (next_account_info info) (\<lambda>(conviction_info, info).
     and_then (next_account_info info) (\<lambda>(burn_to, info).
     and_then (next_account_info info) (\<lambda>(sysvar, info).
     and_then (next_account_info info) (\<lambda>(system, info).
     if \<not> ai_is_signer accuser then Inl (slash_err NotSigner)
     else if ai_key burn_to \<noteq> rt_incinerator R then Inl (slash_err BadInstruction)
     else
       and_then (map_err slash_err (owned_by operator_info program_id w)) (\<lambda>_.
       and_then (load_operator (ai_key operator_info) w) (\<lambda>acc.
       and_then (proven_evidence R acc sysvar) (\<lambda>evidence.
       convict R program_id accuser operator_info conviction_info burn_to system acc evidence w)))))))))"

definition as_authority ::
    "pubkey \<Rightarrow> account_info \<Rightarrow> account_info \<Rightarrow> world \<Rightarrow> program_error + operator_account" where
  "as_authority program_id authority operator_info w =
     (if \<not> ai_is_signer authority then Inl (slash_err NotSigner)
      else
        and_then (map_err slash_err (owned_by operator_info program_id w)) (\<lambda>_.
        and_then (load_operator (ai_key operator_info) w) (\<lambda>acc.
        if oa_authority acc \<noteq> ai_key authority then Inl (slash_err NotSigner)
        else Inr acc)))"

definition begin_unbond ::
    "runtime \<Rightarrow> pubkey \<Rightarrow> account_info list \<Rightarrow> world \<Rightarrow> program_error + world" where
  "begin_unbond R program_id accounts w =
     and_then (next_account_info accounts) (\<lambda>(authority, info).
     and_then (next_account_info info) (\<lambda>(operator_info, info).
     and_then (as_authority program_id authority operator_info w) (\<lambda>acc.
     if oa_bond acc = 0 then Inl (slash_err InsufficientBond)
     else if oa_unbond_at acc = 0 then
       and_then (rt_clock R) (\<lambda>slot.
       store_operator (ai_key operator_info) (acc\<lparr>oa_unbond_at := slot + UNBOND_SLOTS\<rparr>) w)
     else Inr w)))"

definition withdraw_bond ::
    "runtime \<Rightarrow> pubkey \<Rightarrow> account_info list \<Rightarrow> world \<Rightarrow> program_error + world" where
  "withdraw_bond R program_id accounts w =
     and_then (next_account_info accounts) (\<lambda>(authority, info).
     and_then (next_account_info info) (\<lambda>(operator_info, info).
     and_then (as_authority program_id authority operator_info w) (\<lambda>acc.
     if oa_unbond_at acc = 0 then Inl (slash_err BondLocked)
     else
       and_then (rt_clock R) (\<lambda>slot.
       if slot < oa_unbond_at acc then Inl (slash_err BondLocked)
       else
         let bond = oa_bond acc;
             acc = acc\<lparr>oa_bond := 0, oa_unbond_at := 0\<rparr> in
         and_then (store_operator (ai_key operator_info) acc w) (\<lambda>w.
         pay_out_from_operator R operator_info acc authority bond w)))))"

definition claim_victim ::
    "runtime \<Rightarrow> pubkey \<Rightarrow> account_info list \<Rightarrow> bytes \<Rightarrow> world \<Rightarrow> program_error + world" where
  "claim_victim R program_id accounts wire w =
     and_then (next_account_info accounts) (\<lambda>(claimant, info).
     and_then (next_account_info info) (\<lambda>(conviction_info, info).
     if \<not> ai_is_signer claimant then Inl (slash_err NotSigner)
     else
       and_then (map_err slash_err (owned_by conviction_info program_id w)) (\<lambda>_.
       and_then (load_conviction (ai_key conviction_info) w) (\<lambda>conviction.
       if rt_hash R wire \<noteq> ca_wronged_tx_hash conviction then Inl (slash_err MalformedReceipt)
       else
         and_then (map_err slash_err (fee_payer wire)) (\<lambda>payer.
         if ai_key claimant \<noteq> payer then Inl (slash_err NotSigner)
         else
           and_then
             (store_conviction (ai_key conviction_info) (conviction\<lparr>ca_owed_to_victim := 0\<rparr>) w) (\<lambda>w.
           pay_out conviction_info claimant (ca_owed_to_victim conviction) w))))))"

fun process_instruction ::
    "runtime \<Rightarrow> pubkey \<Rightarrow> account_info list \<Rightarrow> slash_instruction \<Rightarrow> world \<Rightarrow> program_error + world" where
  "process_instruction R program_id accounts (Register signing_key bond) w =
     register R program_id accounts signing_key bond w"
| "process_instruction R program_id accounts (Stake amount) w = stake R program_id accounts amount w"
| "process_instruction R program_id accounts (Unstake amount) w = unstake R program_id accounts amount w"
| "process_instruction R program_id accounts Claim w = claim R program_id accounts w"
| "process_instruction R program_id accounts ProveEquivocation w =
     prove_equivocation R program_id accounts w"
| "process_instruction R program_id accounts (ClaimVictim wire_bytes) w =
     claim_victim R program_id accounts wire_bytes w"
| "process_instruction R program_id accounts BeginUnbond w = begin_unbond R program_id accounts w"
| "process_instruction R program_id accounts WithdrawBond w = withdraw_bond R program_id accounts w"

definition process ::
    "runtime \<Rightarrow> pubkey \<Rightarrow> account_info list \<Rightarrow> bytes \<Rightarrow> world \<Rightarrow> program_error + world" where
  "process R program_id accounts data w =
     and_then (map_err slash_err (instruction_read data)) (\<lambda>i.
     process_instruction R program_id accounts i w)"

end
