(* ===== verification/Chain.thy ===== *)
theory Chain
  imports Processor
begin

text \<open>
  What the runtime promises the program, and what each handler does to the chain when it succeeds.
  The effect of a handler is given field by field: lamports, owners and decoded data of the
  accounts it was handed, and that every other account is as it was.
\<close>

section \<open>The runtime's promises\<close>

definition empty_account :: "runtime \<Rightarrow> account" where
  "empty_account R = \<lparr>ac_lamports = 0, ac_owner = rt_system_program R, ac_data = []\<rparr>"

definition move_lamports :: "pubkey \<Rightarrow> pubkey \<Rightarrow> u64 \<Rightarrow> world \<Rightarrow> world" where
  "move_lamports f t l w =
     (let w = set_lamports f (ac_lamports (w f) - l) w in set_lamports t (ac_lamports (w t) + l) w)"

text \<open>
  The system program: creating an account takes the lamports from a system-owned payer and turns an
  address that holds nothing into a zeroed account of the given size and owner; a transfer debits a
  system-owned account. Both fail otherwise, and no balance overflows.
\<close>

definition runtime_ok :: "runtime \<Rightarrow> pubkey \<Rightarrow> bool" where
  "runtime_ok R program_id \<longleftrightarrow>
     program_id \<noteq> rt_system_program R \<and>
     (\<forall>f t l s owner infos seeds w w'.
        rt_invoke R (Create_Account f t l s owner) infos seeds w = Inr w' \<longrightarrow>
        f \<noteq> t \<and> w t = empty_account R \<and> ac_owner (w f) = rt_system_program R \<and>
        l \<le> ac_lamports (w f) \<and>
        w' = (set_lamports f (ac_lamports (w f) - l) w)
               (t := \<lparr>ac_lamports = l, ac_owner = owner, ac_data = replicate (unat s) 0\<rparr>)) \<and>
     (\<forall>f t l infos seeds w w'.
        rt_invoke R (Transfer f t l) infos seeds w = Inr w' \<longrightarrow>
        ac_owner (w f) = rt_system_program R \<and> l \<le> ac_lamports (w f) \<and>
        (f \<noteq> t \<longrightarrow> unat (ac_lamports (w t)) + unat l < 2 ^ 64) \<and>
        w' = move_lamports f t l w)"

definition keys_ok :: "account_info list \<Rightarrow> bool" where
  "keys_ok accounts \<longleftrightarrow> (\<forall>a \<in> set accounts. length (ai_key a) = 32)"

abbreviation keys_of :: "account_info list \<Rightarrow> pubkey set" where
  "keys_of accounts \<equiv> ai_key ` set accounts"

section \<open>Reading through updates\<close>

named_theorems chain_simps \<open>what an update of the chain shows at an address\<close>

lemma set_data_simps [simp, chain_simps]:
  "ac_lamports (set_data k d w j) = ac_lamports (w j)"
  "ac_owner (set_data k d w j) = ac_owner (w j)"
  "ac_data (set_data k d w j) = (if j = k then d else ac_data (w j))"
  by (simp_all add: set_data_def)

lemma set_lamports_simps [simp, chain_simps]:
  "ac_lamports (set_lamports k l w j) = (if j = k then l else ac_lamports (w j))"
  "ac_owner (set_lamports k l w j) = ac_owner (w j)"
  "ac_data (set_lamports k l w j) = ac_data (w j)"
  by (simp_all add: set_lamports_def)

lemma set_other [simp]:
  "j \<noteq> k \<Longrightarrow> set_data k d w j = w j"
  "j \<noteq> k \<Longrightarrow> set_lamports k l w j = w j"
  by (simp_all add: set_data_def set_lamports_def)

lemma set_data_upd [simp]: "set_data k d (w(k := a)) = w(k := a\<lparr>ac_data := d\<rparr>)"
  by (simp add: set_data_def)

lemma move_lamports_simps [simp, chain_simps]:
  "ac_owner (move_lamports f t l w j) = ac_owner (w j)"
  "ac_data (move_lamports f t l w j) = ac_data (w j)"
  "f \<noteq> t \<Longrightarrow> ac_lamports (move_lamports f t l w f) = ac_lamports (w f) - l"
  "f \<noteq> t \<Longrightarrow> ac_lamports (move_lamports f t l w t) = ac_lamports (w t) + l"
  "f = t \<Longrightarrow> ac_lamports (move_lamports f t l w j) = ac_lamports (w j)"
  "j \<noteq> f \<Longrightarrow> j \<noteq> t \<Longrightarrow> move_lamports f t l w j = w j"
  by (simp_all add: move_lamports_def Let_def)

lemma next_account_info_Inr [result_simps]:
  "next_account_info as = Inr (a, rest) \<longleftrightarrow> as = a # rest"
  by (cases as) auto

lemma owned_by_Inr [result_simps]: "owned_by a p w = Inr u \<longleftrightarrow> ac_owner (w (ai_key a)) = p"
  by (simp add: owned_by_def)

lemma at_pda_Inr [result_simps]:
  "at_pda R a seeds p = Inr bump \<longleftrightarrow> rt_find_program_address R seeds p = (ai_key a, bump)"
  by (auto simp: at_pda_def split: prod.splits)

lemma load_Inr [result_simps]:
  "load_operator k w = Inr acc \<longleftrightarrow> operator_read (ac_data (w k)) = Inr acc"
  "load_position k w = Inr q \<longleftrightarrow> position_read (ac_data (w k)) = Inr q"
  "load_conviction k w = Inr c \<longleftrightarrow> conviction_read (ac_data (w k)) = Inr c"
  by (simp_all add: load_operator_def load_position_def load_conviction_def result_simps)

lemma store_operator_Inr:
  assumes "store_operator k acc w = Inr w'" and "operator_shape acc"
  obtains d where "w' = set_data k d w" and "operator_read d = Inr acc" and "length d = length (ac_data (w k))"
  using assms operator_layout.load_store [of acc "ac_data (w k)"]
  by (auto simp: store_operator_def result_simps)

lemma store_position_Inr:
  assumes "store_position k q w = Inr w'" and "position_shape q"
  obtains d where "w' = set_data k d w" and "position_read d = Inr q" and "length d = length (ac_data (w k))"
  using assms position_layout.load_store [of q "ac_data (w k)"]
  by (auto simp: store_position_def result_simps)

lemma store_conviction_Inr:
  assumes "store_conviction k c w = Inr w'" and "conviction_shape c"
  obtains d where "w' = set_data k d w" and "conviction_read d = Inr c" and "length d = length (ac_data (w k))"
  using assms conviction_layout.load_store [of c "ac_data (w k)"]
  by (auto simp: store_conviction_def result_simps)

lemma pay_out_Inr:
  assumes "pay_out from to amount w = Inr w'"
  shows "w' = move_lamports (ai_key from) (ai_key to) amount w"
    and "amount \<le> ac_lamports (w (ai_key from))"
    and "ai_key from \<noteq> ai_key to \<Longrightarrow> unat (ac_lamports (w (ai_key to))) + unat amount < 2 ^ 64"
  using assms
  by (auto simp: pay_out_def result_simps checked_sub_Some checked_add_Some move_lamports_def Let_def
      word_le_nat_alt split: if_splits)

lemma pay_out_from_operator_Inr:
  assumes "pay_out_from_operator R operator_info acc to amount w = Inr w'"
  shows "pay_out operator_info to amount w = Inr w'"
    and "reserved R acc \<le> ac_lamports (w (ai_key operator_info)) - amount"
  using assms
  by (auto simp: pay_out_from_operator_def result_simps checked_sub_Some split: if_splits)

lemma create_Inr:
  assumes "runtime_ok R p" and "rt_invoke R (Create_Account f t l s owner) infos seeds w = Inr w'"
  shows "f \<noteq> t" and "w t = empty_account R" and "ac_owner (w f) = rt_system_program R"
    and "l \<le> ac_lamports (w f)"
    and "w' = (set_lamports f (ac_lamports (w f) - l) w)
               (t := \<lparr>ac_lamports = l, ac_owner = owner, ac_data = replicate (unat s) 0\<rparr>)"
  using assms unfolding runtime_ok_def by blast+

lemma transfer_Inr:
  assumes "runtime_ok R p" and "rt_invoke R (Transfer f t l) infos seeds w = Inr w'"
  shows "ac_owner (w f) = rt_system_program R" and "l \<le> ac_lamports (w f)"
    and "f \<noteq> t \<Longrightarrow> unat (ac_lamports (w t)) + unat l < 2 ^ 64"
    and "w' = move_lamports f t l w"
  using assms unfolding runtime_ok_def by blast+

section \<open>Lamports\<close>

definition total_lamports :: "pubkey set \<Rightarrow> world \<Rightarrow> nat" where
  "total_lamports S w = (\<Sum>k\<in>S. unat (ac_lamports (w k)))"

lemma total_set_data [simp]: "total_lamports S (set_data k d w) = total_lamports S w"
  by (simp add: total_lamports_def)

lemma sum_two:
  fixes f g :: "'a \<Rightarrow> nat"
  assumes "finite S" "a \<in> S" "b \<in> S" "a \<noteq> b" "f a + f b = g a + g b"
    and "\<And>k. k \<noteq> a \<Longrightarrow> k \<noteq> b \<Longrightarrow> f k = g k"
  shows "sum f S = sum g S"
proof -
  have S: "S = insert a (insert b (S - {a, b}))"
    using assms(2,3) by auto
  have split: "sum h S = h a + h b + sum h (S - {a, b})" for h :: "'a \<Rightarrow> nat"
    using assms(1,4) by (subst S) simp
  have "sum f (S - {a, b}) = sum g (S - {a, b})"
    using assms(6) by (intro sum.cong) auto
  with assms(5) show ?thesis
    by (simp add: split)
qed

lemma total_move:
  assumes "finite S" "f \<in> S" "t \<in> S" "l \<le> ac_lamports (w f)"
    and "f \<noteq> t \<Longrightarrow> unat (ac_lamports (w t)) + unat l < 2 ^ 64"
  shows "total_lamports S (move_lamports f t l w) = total_lamports S w"
proof (cases "f = t")
  case False
  then show ?thesis
    using assms unfolding total_lamports_def
    by (intro sum_two [of S f t]) (auto simp: unat_minus_le unat_add_bounded word_le_nat_alt)
qed (simp add: total_lamports_def)

lemma total_pay_out:
  assumes "pay_out from to amount w = Inr w'" "finite S" "ai_key from \<in> S" "ai_key to \<in> S"
  shows "total_lamports S w' = total_lamports S w"
  using pay_out_Inr [OF assms(1)] assms(2-) by (simp add: total_move)

lemma total_create:
  assumes "runtime_ok R p" and "rt_invoke R (Create_Account f t l s owner) infos seeds w = Inr w'"
    and "finite S" "f \<in> S" "t \<in> S"
  shows "total_lamports S w' = total_lamports S w"
proof -
  note c = create_Inr [OF assms(1,2)]
  show ?thesis
    unfolding total_lamports_def c(5) using assms(3-) c(1,2,4)
    by (intro sum_two [of S f t]) (auto simp: empty_account_def unat_minus_le word_le_nat_alt)
qed

lemma total_transfer:
  assumes "runtime_ok R p" and "rt_invoke R (Transfer f t l) infos seeds w = Inr w'"
    and "finite S" "f \<in> S" "t \<in> S"
  shows "total_lamports S w' = total_lamports S w"
  using transfer_Inr [OF assms(1,2)] assms(3-) by (simp add: total_move)

section \<open>Effects of the handlers\<close>

lemma operator_read_shape: "operator_read d = Inr acc \<Longrightarrow> operator_shape acc"
  using operator_layout.load_sound by blast

lemma position_read_shape: "position_read d = Inr q \<Longrightarrow> position_shape q"
  using position_layout.load_sound by blast

lemma conviction_read_shape: "conviction_read d = Inr c \<Longrightarrow> conviction_shape c"
  using conviction_layout.load_sound by blast

lemma shape_updates [simp]:
  "operator_shape (acc\<lparr>oa_bond := b\<rparr>) = operator_shape acc"
  "operator_shape (acc\<lparr>oa_unbond_at := s\<rparr>) = operator_shape acc"
  "operator_shape (operator_set_pool acc p) = operator_shape acc"
  "position_shape (set_position q x) = position_shape q"
  "conviction_shape (c\<lparr>ca_owed_to_victim := b\<rparr>) = conviction_shape c"
  by (simp_all add: operator_shape_def position_shape_def conviction_shape_def operator_set_pool_def
      set_position_def)

lemma pool_views [simp]:
  "operator_pool (operator_set_pool acc p) = p"
  "position_of (set_position q x) = x"
  "oa_bond (operator_set_pool acc p) = oa_bond acc"
  "oa_unbond_at (operator_set_pool acc p) = oa_unbond_at acc"
  "oa_authority (operator_set_pool acc p) = oa_authority acc"
  "oa_signing_key (operator_set_pool acc p) = oa_signing_key acc"
  "pa_operator (set_position q x) = pa_operator q"
  "pa_owner (set_position q x) = pa_owner q"
  "operator_pool (acc\<lparr>oa_bond := b\<rparr>) = operator_pool acc"
  "operator_pool (acc\<lparr>oa_unbond_at := s\<rparr>) = operator_pool acc"
  "p_staked (operator_pool acc) = oa_pool_staked acc"
  "p_reward_index (operator_pool acc) = oa_reward_index acc"
  by (simp_all add: operator_pool_def operator_set_pool_def position_of_def set_position_def)

lemma register_Inr:
  assumes ok: "runtime_ok R p" and keys: "keys_ok accounts" "length signing_key = 32"
    and run: "register R p accounts signing_key bond w = Inr w'"
  obtains authority operator_info system rest minimum_balance bump d
  where "accounts = authority # operator_info # system # rest"
    and "ai_is_signer authority" and "bond \<noteq> 0"
    and "rt_find_program_address R [OPERATOR_SEED, ai_key authority] p = (ai_key operator_info, bump)"
    and "rt_rent R = Inr minimum_balance"
    and "w (ai_key operator_info) = empty_account R"
    and "ai_key authority \<noteq> ai_key operator_info"
    and "ac_owner (w (ai_key authority)) = rt_system_program R"
    and "minimum_balance 106 + bond \<le> ac_lamports (w (ai_key authority))"
    and "w' = (set_lamports (ai_key authority)
                 (ac_lamports (w (ai_key authority)) - (minimum_balance 106 + bond)) w)
               (ai_key operator_info :=
                 \<lparr>ac_lamports = minimum_balance 106 + bond, ac_owner = p, ac_data = d\<rparr>)"
    and "operator_read d = Inr \<lparr>oa_authority = ai_key authority, oa_signing_key = signing_key,
          oa_bond = bond, oa_pool_staked = 0, oa_reward_index = 0, oa_unbond_at = 0, oa_bump = bump\<rparr>"
proof -
  obtain authority operator_info system rest minimum_balance bump w1
    where acc: "accounts = authority # operator_info # system # rest"
      and checks: "ai_is_signer authority" "bond \<noteq> 0"
        "rt_find_program_address R [OPERATOR_SEED, ai_key authority] p = (ai_key operator_info, bump)"
        "rt_rent R = Inr minimum_balance"
      and create: "rt_invoke R (Create_Account (ai_key authority) (ai_key operator_info)
          (minimum_balance 106 + bond) (of_nat OPERATOR_LEN) p) [authority, operator_info, system]
          [[OPERATOR_SEED, ai_key authority, [bump]]] w = Inr w1"
      and store: "store_operator (ai_key operator_info) \<lparr>oa_authority = ai_key authority,
          oa_signing_key = signing_key, oa_bond = bond, oa_pool_staked = 0, oa_reward_index = 0,
          oa_unbond_at = 0, oa_bump = bump\<rparr> w1 = Inr w'"
    using run by (auto simp: register_def result_simps Let_def split: if_splits)
  have "operator_shape \<lparr>oa_authority = ai_key authority, oa_signing_key = signing_key,
      oa_bond = bond, oa_pool_staked = 0, oa_reward_index = 0, oa_unbond_at = 0, oa_bump = bump\<rparr>"
    using keys acc by (simp add: operator_shape_def keys_ok_def)
  then obtain d where "w' = set_data (ai_key operator_info) d w1"
    and "operator_read d = Inr \<lparr>oa_authority = ai_key authority, oa_signing_key = signing_key,
      oa_bond = bond, oa_pool_staked = 0, oa_reward_index = 0, oa_unbond_at = 0, oa_bump = bump\<rparr>"
    using store_operator_Inr [OF store] by metis
  with that [OF acc checks] create_Inr [OF ok create] show thesis
    by simp
qed

lemma unstake_Inr:
  assumes run: "unstake R p accounts amount w = Inr w'"
  obtains owner operator_info position_info rest acc stored pool position d e w1
  where "accounts = owner # operator_info # position_info # rest"
    and "ai_is_signer owner"
    and "ac_owner (w (ai_key operator_info)) = p" and "ac_owner (w (ai_key position_info)) = p"
    and "operator_read (ac_data (w (ai_key operator_info))) = Inr acc"
    and "position_read (ac_data (w (ai_key position_info))) = Inr stored"
    and "pa_owner stored = ai_key owner" and "pa_operator stored = ai_key operator_info"
    and "pool_unstake (operator_pool acc) (position_of stored) amount = Inr (pool, position, amount)"
    and "operator_read d = Inr (operator_set_pool acc pool)"
    and "position_read e = Inr (set_position stored position)"
    and "w1 = set_data (ai_key position_info) e (set_data (ai_key operator_info) d w)"
    and "pay_out operator_info owner amount w1 = Inr w'"
    and "reserved R (operator_set_pool acc pool) \<le> ac_lamports (w (ai_key operator_info)) - amount"
proof -
  have v: "v = amount" if "pool_unstake pl q amount = Inr (pl', q', v)" for pl q pl' q' v
    using that by (auto simp: pool_unstake_def Let_def split: if_splits)
  obtain owner operator_info position_info rest acc stored pool position w1 w2 v
    where acc: "accounts = owner # operator_info # position_info # rest"
      and checks: "ai_is_signer owner"
        "ac_owner (w (ai_key operator_info)) = p" "ac_owner (w (ai_key position_info)) = p"
        "operator_read (ac_data (w (ai_key operator_info))) = Inr acc"
        "position_read (ac_data (w (ai_key position_info))) = Inr stored"
        "pa_owner stored = ai_key owner" "pa_operator stored = ai_key operator_info"
      and pool: "pool_unstake (operator_pool acc) (position_of stored) amount = Inr (pool, position, v)"
      and st: "store_operator (ai_key operator_info) (operator_set_pool acc pool) w = Inr w1"
        "store_position (ai_key position_info) (set_position stored position) w1 = Inr w2"
      and pay: "pay_out_from_operator R operator_info (operator_set_pool acc pool) owner amount w2 = Inr w'"
    using run by (auto simp: unstake_def result_simps Let_def split: if_splits)
  obtain d where d: "w1 = set_data (ai_key operator_info) d w" "operator_read d = Inr (operator_set_pool acc pool)"
    using store_operator_Inr [OF st(1)] operator_read_shape [OF checks(4)] shape_updates(3) by metis
  obtain e where e: "w2 = set_data (ai_key position_info) e w1" "position_read e = Inr (set_position stored position)"
    using store_position_Inr [OF st(2)] position_read_shape [OF checks(5)] shape_updates(4) by metis
  show thesis
    using that [OF acc checks _ d(2) e(2) refl] pool v [OF pool] d(1) e(1)
      pay_out_from_operator_Inr [OF pay] by simp
qed

lemma claim_Inr:
  assumes run: "claim R p accounts w = Inr w'"
  obtains owner operator_info position_info rest acc stored position earned e w1
  where "accounts = owner # operator_info # position_info # rest"
    and "ai_is_signer owner"
    and "ac_owner (w (ai_key operator_info)) = p" and "ac_owner (w (ai_key position_info)) = p"
    and "operator_read (ac_data (w (ai_key operator_info))) = Inr acc"
    and "position_read (ac_data (w (ai_key position_info))) = Inr stored"
    and "pa_owner stored = ai_key owner" and "pa_operator stored = ai_key operator_info"
    and "pool_claim (operator_pool acc) (position_of stored) = (position, earned)"
    and "position_read e = Inr (set_position stored position)"
    and "w1 = set_data (ai_key position_info) e w"
    and "pay_out operator_info owner earned w1 = Inr w'"
proof -
  obtain owner operator_info position_info rest acc stored position earned w1
    where acc: "accounts = owner # operator_info # position_info # rest"
      and checks: "ai_is_signer owner"
        "ac_owner (w (ai_key operator_info)) = p" "ac_owner (w (ai_key position_info)) = p"
        "operator_read (ac_data (w (ai_key operator_info))) = Inr acc"
        "position_read (ac_data (w (ai_key position_info))) = Inr stored"
        "pa_owner stored = ai_key owner" "pa_operator stored = ai_key operator_info"
      and pool: "pool_claim (operator_pool acc) (position_of stored) = (position, earned)"
      and st: "store_position (ai_key position_info) (set_position stored position) w = Inr w1"
      and pay: "pay_out_from_operator R operator_info acc owner earned w1 = Inr w'"
    using run by (auto simp: claim_def result_simps Let_def split: if_splits prod.splits)
  obtain e where e: "w1 = set_data (ai_key position_info) e w" "position_read e = Inr (set_position stored position)"
    using store_position_Inr [OF st] position_read_shape [OF checks(5)] shape_updates(4) by metis
  show thesis
    using that [OF acc checks pool e(2,1)] pay_out_from_operator_Inr [OF pay] by simp
qed

text \<open>A position is found, or created empty where nothing was.\<close>

definition opened :: "runtime \<Rightarrow> pubkey \<Rightarrow> pubkey \<Rightarrow> pubkey \<Rightarrow> pubkey \<Rightarrow> world \<Rightarrow> position_account \<Rightarrow> world \<Rightarrow> bool" where
  "opened R p owner operator position w stored w' \<longleftrightarrow>
     pa_owner stored = owner \<and> pa_operator stored = operator \<and>
     ac_owner (w' position) = p \<and> position_read (ac_data (w' position)) = Inr stored \<and>
     (w' = w \<or>
      (\<exists>minimum_balance d. rt_rent R = Inr minimum_balance \<and>
         w position = empty_account R \<and> owner \<noteq> position \<and> ac_owner (w owner) = rt_system_program R \<and>
         minimum_balance 98 \<le> ac_lamports (w owner) \<and>
         pa_staked stored = 0 \<and> pa_entry_index stored = 0 \<and> pa_reward stored = 0 \<and>
         w' = (set_lamports owner (ac_lamports (w owner) - minimum_balance 98) w)
                (position := \<lparr>ac_lamports = minimum_balance 98, ac_owner = p, ac_data = d\<rparr>)))"

lemma opened_frame:
  assumes "opened R p owner operator position w stored w'" and "i \<noteq> position"
  shows "ac_owner (w' i) = ac_owner (w i)" and "ac_data (w' i) = ac_data (w i)"
  using assms unfolding opened_def by (elim conjE disjE exE; simp)+

lemma open_position_Inr:
  assumes ok: "runtime_ok R p"
    and keys: "length (ai_key owner) = 32" "length (ai_key operator_info) = 32"
    and run: "open_position R p owner operator_info position_info system w = Inr (stored, w')"
  shows "opened R p (ai_key owner) (ai_key operator_info) (ai_key position_info) w stored w'"
proof (cases "ac_owner (w (ai_key position_info)) = rt_system_program R")
  case True
  obtain minimum_balance bump w1 where rent: "rt_rent R = Inr minimum_balance"
    and create: "rt_invoke R (Create_Account (ai_key owner) (ai_key position_info)
      (minimum_balance 98) (of_nat POSITION_LEN) p) [owner, position_info, system]
      [[POSITION_SEED, ai_key operator_info, ai_key owner, [bump]]] w = Inr w1"
    and stored: "stored = \<lparr>pa_owner = ai_key owner, pa_operator = ai_key operator_info, pa_staked = 0,
      pa_entry_index = 0, pa_reward = 0, pa_bump = bump\<rparr>"
    and store: "store_position (ai_key position_info) stored w1 = Inr w'"
    using run True by (auto simp: open_position_def result_simps Let_def)
  have "position_shape stored"
    using keys by (simp add: stored position_shape_def)
  then obtain d where "w' = set_data (ai_key position_info) d w1" "position_read d = Inr stored"
    using store_position_Inr [OF store] by metis
  with create_Inr [OF ok create] rent stored show ?thesis
    by (auto simp: opened_def)
next
  case False
  with run show ?thesis
    by (auto simp: open_position_def opened_def result_simps Let_def split: if_splits)
qed

lemma stake_Inr:
  assumes ok: "runtime_ok R p" and keys: "keys_ok accounts"
    and run: "stake R p accounts amount w = Inr w'"
  obtains owner operator_info position_info system rest acc stored pool position d e w1
  where "accounts = owner # operator_info # position_info # system # rest"
    and "ai_is_signer owner"
    and "ac_owner (w (ai_key operator_info)) = p"
    and "operator_read (ac_data (w (ai_key operator_info))) = Inr acc"
    and "opened R p (ai_key owner) (ai_key operator_info) (ai_key position_info) w stored w1"
    and "pool_stake (operator_pool acc) (position_of stored) amount = Inr (pool, position)"
    and "operator_read d = Inr (operator_set_pool acc pool)"
    and "position_read e = Inr (set_position stored position)"
    and "ac_owner (w1 (ai_key owner)) = rt_system_program R"
    and "amount \<le> ac_lamports (w1 (ai_key owner))"
    and "ai_key owner \<noteq> ai_key operator_info \<Longrightarrow>
      unat (ac_lamports (w1 (ai_key operator_info))) + unat amount < 2 ^ 64"
    and "w' = set_data (ai_key position_info) e (set_data (ai_key operator_info) d
      (move_lamports (ai_key owner) (ai_key operator_info) amount w1))"
proof -
  obtain owner operator_info position_info system rest acc stored pool position w1 w2 w3
    where acc: "accounts = owner # operator_info # position_info # system # rest"
      and checks: "ai_is_signer owner" "ac_owner (w (ai_key operator_info)) = p"
        "operator_read (ac_data (w (ai_key operator_info))) = Inr acc"
      and opn: "open_position R p owner operator_info position_info system w = Inr (stored, w1)"
      and pool: "pool_stake (operator_pool acc) (position_of stored) amount = Inr (pool, position)"
      and tr: "rt_invoke R (Transfer (ai_key owner) (ai_key operator_info) amount)
        [owner, operator_info, system] [] w1 = Inr w2"
      and st: "store_operator (ai_key operator_info) (operator_set_pool acc pool) w2 = Inr w3"
        "store_position (ai_key position_info) (set_position stored position) w3 = Inr w'"
    using run by (auto simp: stake_def result_simps Let_def split: if_splits)
  have opd: "opened R p (ai_key owner) (ai_key operator_info) (ai_key position_info) w stored w1"
    using open_position_Inr [OF ok _ _ opn] keys acc by (simp add: keys_ok_def)
  obtain d where d: "w3 = set_data (ai_key operator_info) d w2" "operator_read d = Inr (operator_set_pool acc pool)"
    using store_operator_Inr [OF st(1)] operator_read_shape [OF checks(3)] shape_updates(3) by metis
  have "position_shape stored"
    using opd position_read_shape by (auto simp: opened_def)
  then obtain e where e: "w' = set_data (ai_key position_info) e w3" "position_read e = Inr (set_position stored position)"
    using store_position_Inr [OF st(2)] shape_updates(4) by metis
  show thesis
    using that [OF acc checks opd pool d(2) e(2)] transfer_Inr [OF ok tr] d(1) e(1) by simp
qed

lemma as_authority_Inr [result_simps]:
  "as_authority p authority operator_info w = Inr acc \<longleftrightarrow>
     ai_is_signer authority \<and> ac_owner (w (ai_key operator_info)) = p \<and>
     operator_read (ac_data (w (ai_key operator_info))) = Inr acc \<and> oa_authority acc = ai_key authority"
  by (auto simp: as_authority_def result_simps)

lemma begin_unbond_Inr:
  assumes run: "begin_unbond R p accounts w = Inr w'"
  obtains authority operator_info rest acc
  where "accounts = authority # operator_info # rest"
    and "ai_is_signer authority" and "ac_owner (w (ai_key operator_info)) = p"
    and "operator_read (ac_data (w (ai_key operator_info))) = Inr acc"
    and "oa_authority acc = ai_key authority" and "oa_bond acc \<noteq> 0"
    and "(oa_unbond_at acc \<noteq> 0 \<and> w' = w) \<or>
      (oa_unbond_at acc = 0 \<and> (\<exists>slot d. rt_clock R = Inr slot \<and> w' = set_data (ai_key operator_info) d w \<and>
         operator_read d = Inr (acc\<lparr>oa_unbond_at := slot + UNBOND_SLOTS\<rparr>)))"
proof -
  obtain authority operator_info rest acc
    where acc: "accounts = authority # operator_info # rest"
      and checks: "ai_is_signer authority" "ac_owner (w (ai_key operator_info)) = p"
        "operator_read (ac_data (w (ai_key operator_info))) = Inr acc"
        "oa_authority acc = ai_key authority" "oa_bond acc \<noteq> 0"
      and upd: "(oa_unbond_at acc \<noteq> 0 \<and> w' = w) \<or> (oa_unbond_at acc = 0 \<and> (\<exists>slot. rt_clock R = Inr slot \<and>
        store_operator (ai_key operator_info) (acc\<lparr>oa_unbond_at := slot + UNBOND_SLOTS\<rparr>) w = Inr w'))"
    using run by (auto simp: begin_unbond_def result_simps split: if_splits)
  show thesis
    using upd operator_read_shape [OF checks(3)]
    by (intro that [OF acc checks]) (auto elim!: store_operator_Inr)
qed

lemma withdraw_bond_Inr:
  assumes run: "withdraw_bond R p accounts w = Inr w'"
  obtains authority operator_info rest acc slot d w1
  where "accounts = authority # operator_info # rest"
    and "ai_is_signer authority" and "ac_owner (w (ai_key operator_info)) = p"
    and "operator_read (ac_data (w (ai_key operator_info))) = Inr acc"
    and "oa_authority acc = ai_key authority"
    and "oa_unbond_at acc \<noteq> 0" and "rt_clock R = Inr slot" and "oa_unbond_at acc \<le> slot"
    and "operator_read d = Inr (acc\<lparr>oa_bond := 0, oa_unbond_at := 0\<rparr>)"
    and "w1 = set_data (ai_key operator_info) d w"
    and "pay_out operator_info authority (oa_bond acc) w1 = Inr w'"
proof -
  obtain authority operator_info rest acc slot w1
    where acc: "accounts = authority # operator_info # rest"
      and checks: "ai_is_signer authority" "ac_owner (w (ai_key operator_info)) = p"
        "operator_read (ac_data (w (ai_key operator_info))) = Inr acc"
        "oa_authority acc = ai_key authority"
        "oa_unbond_at acc \<noteq> 0" "rt_clock R = Inr slot" "oa_unbond_at acc \<le> slot"
      and st: "store_operator (ai_key operator_info) (acc\<lparr>oa_bond := 0, oa_unbond_at := 0\<rparr>) w = Inr w1"
      and pay: "pay_out_from_operator R operator_info (acc\<lparr>oa_bond := 0, oa_unbond_at := 0\<rparr>) authority
        (oa_bond acc) w1 = Inr w'"
    using run by (auto simp: withdraw_bond_def result_simps Let_def split: if_splits)
  have "operator_shape (acc\<lparr>oa_bond := 0, oa_unbond_at := 0\<rparr>)"
    using operator_read_shape [OF checks(3)] by simp
  then obtain d where d: "w1 = set_data (ai_key operator_info) d w"
    "operator_read d = Inr (acc\<lparr>oa_bond := 0, oa_unbond_at := 0\<rparr>)"
    using store_operator_Inr [OF st] by metis
  show thesis
    by (rule that [OF acc checks d(2,1) pay_out_from_operator_Inr(1) [OF pay]])
qed

lemma claim_victim_Inr:
  assumes run: "claim_victim R p accounts wire w = Inr w'"
  obtains claimant conviction_info rest conviction d w1
  where "accounts = claimant # conviction_info # rest"
    and "ai_is_signer claimant" and "ac_owner (w (ai_key conviction_info)) = p"
    and "conviction_read (ac_data (w (ai_key conviction_info))) = Inr conviction"
    and "rt_hash R wire = ca_wronged_tx_hash conviction" and "fee_payer wire = Inr (ai_key claimant)"
    and "conviction_read d = Inr (conviction\<lparr>ca_owed_to_victim := 0\<rparr>)"
    and "w1 = set_data (ai_key conviction_info) d w"
    and "pay_out conviction_info claimant (ca_owed_to_victim conviction) w1 = Inr w'"
proof -
  obtain claimant conviction_info rest conviction w1
    where acc: "accounts = claimant # conviction_info # rest"
      and checks: "ai_is_signer claimant" "ac_owner (w (ai_key conviction_info)) = p"
        "conviction_read (ac_data (w (ai_key conviction_info))) = Inr conviction"
        "rt_hash R wire = ca_wronged_tx_hash conviction" "fee_payer wire = Inr (ai_key claimant)"
      and st: "store_conviction (ai_key conviction_info) (conviction\<lparr>ca_owed_to_victim := 0\<rparr>) w = Inr w1"
      and pay: "pay_out conviction_info claimant (ca_owed_to_victim conviction) w1 = Inr w'"
    using run by (auto simp: claim_victim_def result_simps split: if_splits)
  obtain d where d: "w1 = set_data (ai_key conviction_info) d w"
    "conviction_read d = Inr (conviction\<lparr>ca_owed_to_victim := 0\<rparr>)"
    using store_conviction_Inr [OF st] conviction_read_shape [OF checks(3)] shape_updates(5) by metis
  show thesis
    by (rule that [OF acc checks d(2,1) pay])
qed

lemma check_pairs_Inr [result_simps]:
  "check_pairs key pairs = Inr u \<longleftrightarrow> (\<forall>x \<in> set pairs. v_key x = key \<and> length (v_message x) = 261)"
  by (induction pairs) auto

lemma length_two: "length xs = 2 \<longleftrightarrow> (\<exists>a b. xs = [a, b])"
  by (auto simp: numeral_2_eq_2 length_Suc_conv)

lemma proven_evidence_Inr:
  assumes "proven_evidence R acc sysvar = Inr evidence"
  obtains here data a b
  where "rt_current_index R (ai_key sysvar) = Inr here" and "1 \<le> here"
    and "rt_instruction_at R (unat (here - 1)) (ai_key sysvar) = Inr (rt_ed25519_program R, data)"
    and "verified_pairs data (here - 1) =
      Inr [\<lparr>v_key = oa_signing_key acc, v_message = a\<rparr>, \<lparr>v_key = oa_signing_key acc, v_message = b\<rparr>]"
    and "contradict a b" and "equivocation_check a b = Inr evidence"
    and "e_a evidence = a" and "e_b evidence = b" and "e_seq evidence = message_seq a"
proof -
  obtain here index data pairs where
    here: "rt_current_index R (ai_key sysvar) = Inr here" "checked_sub here 1 = Some index"
      "rt_instruction_at R (unat index) (ai_key sysvar) = Inr (rt_ed25519_program R, data)"
    and pairs: "verified_pairs data index = Inr pairs" "length pairs = 2"
      "\<forall>x \<in> set pairs. v_key x = oa_signing_key acc"
    and ev: "equivocation_check (v_message (pairs ! 0)) (v_message (pairs ! 1)) = Inr evidence"
    using assms by (auto simp: proven_evidence_def result_simps split: if_splits)
  obtain x y where xy: "pairs = [x, y]"
    using pairs(2) by (auto simp: length_two)
  have "1 \<le> here" and index: "index = here - 1"
    using here(2) by (simp_all add: checked_sub_def split: if_splits)
  with here pairs ev xy that [of here data "v_message x" "v_message y"] show thesis
    by (simp add: equivocation_check_iff)
qed

lemma convict_Inr:
  assumes ok: "runtime_ok R p" and key: "length (ai_key operator_info) = 32"
    and acc: "operator_shape acc" and ev: "equivocation_check a b = Inr evidence"
    and run: "convict R p accuser operator_info conviction_info burn_to system acc evidence w = Inr w'"
  obtains minimum_balance bump slot pool applied c d w1 w2
  where "rt_find_program_address R [CONVICTION_SEED, ai_key operator_info,
      rt_hash R (fst (equivocation_ordered evidence)), rt_hash R (snd (equivocation_ordered evidence))] p =
      (ai_key conviction_info, bump)"
    and "ac_owner (w (ai_key conviction_info)) = rt_system_program R"
    and "oa_bond acc \<noteq> 0"
    and "distribute (operator_pool acc) (split_of (oa_bond acc)) = (pool, applied)"
    and "rt_rent R = Inr minimum_balance" and "rt_clock R = Inr slot"
    and "w (ai_key conviction_info) = empty_account R"
    and "ai_key accuser \<noteq> ai_key conviction_info"
    and "ac_owner (w (ai_key accuser)) = rt_system_program R"
    and "minimum_balance 154 \<le> ac_lamports (w (ai_key accuser))"
    and "conviction_read c = Inr \<lparr>ca_operator = ai_key operator_info, ca_wronged = wronged_signature evidence,
      ca_wronged_tx_hash = wronged_tx_hash evidence, ca_slashed = oa_bond acc,
      ca_owed_to_victim = sp_victim applied, ca_slot = slot, ca_bump = bump\<rparr>"
    and "operator_read d = Inr (operator_set_pool (acc\<lparr>oa_bond := 0\<rparr>) pool)"
    and "w1 = set_data (ai_key operator_info) d
      ((set_lamports (ai_key accuser) (ac_lamports (w (ai_key accuser)) - minimum_balance 154) w)
         (ai_key conviction_info := \<lparr>ac_lamports = minimum_balance 154, ac_owner = p, ac_data = c\<rparr>))"
    and "pay_out operator_info burn_to (sp_burn applied) w1 = Inr w2"
    and "pay_out operator_info conviction_info (sp_victim applied) w2 = Inr w'"
proof -
  let ?ord = "equivocation_ordered evidence"
  obtain minimum_balance bump slot pool applied w3 w4 w5 w6
    where checks: "rt_find_program_address R [CONVICTION_SEED, ai_key operator_info,
        rt_hash R (fst ?ord), rt_hash R (snd ?ord)] p = (ai_key conviction_info, bump)"
      "ac_owner (w (ai_key conviction_info)) = rt_system_program R" "oa_bond acc \<noteq> 0"
      "distribute (operator_pool acc) (split_of (oa_bond acc)) = (pool, applied)"
      "rt_rent R = Inr minimum_balance" "rt_clock R = Inr slot"
      and create: "rt_invoke R (Create_Account (ai_key accuser) (ai_key conviction_info)
        (minimum_balance 154) (of_nat CONVICTION_LEN) p) [accuser, conviction_info, system]
        [[CONVICTION_SEED, ai_key operator_info, rt_hash R (fst ?ord), rt_hash R (snd ?ord), [bump]]] w = Inr w3"
      and st: "store_conviction (ai_key conviction_info) \<lparr>ca_operator = ai_key operator_info,
        ca_wronged = wronged_signature evidence, ca_wronged_tx_hash = wronged_tx_hash evidence,
        ca_slashed = oa_bond acc, ca_owed_to_victim = sp_victim applied, ca_slot = slot, ca_bump = bump\<rparr> w3 = Inr w4"
        "store_operator (ai_key operator_info) (operator_set_pool (acc\<lparr>oa_bond := 0\<rparr>) pool) w4 = Inr w5"
      and pay: "pay_out operator_info burn_to (sp_burn applied) w5 = Inr w6"
        "pay_out operator_info conviction_info (sp_victim applied) w6 = Inr w'"
    using run
    by (auto simp: convict_def result_simps Let_def split: if_splits prod.splits)
  have "length (fst ?ord) = 261"
    using ev by (auto simp: equivocation_check_iff contradict_def well_formed_message_def equivocation_ordered_def)
  then have "conviction_shape \<lparr>ca_operator = ai_key operator_info,
      ca_wronged = wronged_signature evidence, ca_wronged_tx_hash = wronged_tx_hash evidence,
      ca_slashed = oa_bond acc, ca_owed_to_victim = sp_victim applied, ca_slot = slot, ca_bump = bump\<rparr>"
    using key by (simp add: conviction_shape_def wronged_signature_def wronged_tx_hash_def)
  then obtain c where c: "w4 = set_data (ai_key conviction_info) c w3"
    "conviction_read c = Inr \<lparr>ca_operator = ai_key operator_info,
      ca_wronged = wronged_signature evidence, ca_wronged_tx_hash = wronged_tx_hash evidence,
      ca_slashed = oa_bond acc, ca_owed_to_victim = sp_victim applied, ca_slot = slot, ca_bump = bump\<rparr>"
    using store_conviction_Inr [OF st(1)] by metis
  obtain d where d: "w5 = set_data (ai_key operator_info) d w4"
    "operator_read d = Inr (operator_set_pool (acc\<lparr>oa_bond := 0\<rparr>) pool)"
    using store_operator_Inr [OF st(2)] acc by auto
  note cr = create_Inr [OF ok create]
  show thesis
    using that [OF checks cr(2,1,3,4) c(2) d(2) _ pay] c(1) d(1) cr(5) by simp
qed

lemma prove_equivocation_Inr:
  assumes keys: "keys_ok accounts" and run: "prove_equivocation R p accounts w = Inr w'"
  obtains accuser operator_info conviction_info burn_to sysvar system rest acc evidence
  where "accounts = accuser # operator_info # conviction_info # burn_to # sysvar # system # rest"
    and "ai_is_signer accuser" and "ai_key burn_to = rt_incinerator R"
    and "length (ai_key operator_info) = 32"
    and "ac_owner (w (ai_key operator_info)) = p"
    and "operator_read (ac_data (w (ai_key operator_info))) = Inr acc" and "operator_shape acc"
    and "proven_evidence R acc sysvar = Inr evidence"
    and "convict R p accuser operator_info conviction_info burn_to system acc evidence w = Inr w'"
  using keys run operator_read_shape
  by (auto simp: prove_equivocation_def keys_ok_def result_simps split: if_splits)

lemmas handler_Inr = register_Inr stake_Inr unstake_Inr claim_Inr prove_equivocation_Inr
  claim_victim_Inr begin_unbond_Inr withdraw_bond_Inr

end
