(* ===== verification/Demo_Chain.thy ===== *)
theory Demo_Chain
  imports Chain
begin

text \<open>
  A concrete runtime that keeps \<open>runtime_ok\<close>, and a small chain to evaluate handlers on: the
  system program's two instructions as their documentation has them, a fixed rent, and derived
  addresses whose first byte tells the seed apart.
\<close>

definition key_of :: "u8 \<Rightarrow> pubkey" where
  "key_of b = replicate 32 b"

fun system_program :: "pubkey \<Rightarrow> system_instruction \<Rightarrow> world \<Rightarrow> program_error + world" where
  "system_program system (Create_Account f t l s owner) w =
     (if f \<noteq> t \<and> w t = \<lparr>ac_lamports = 0, ac_owner = system, ac_data = []\<rparr> \<and>
         ac_owner (w f) = system \<and> l \<le> ac_lamports (w f)
      then Inr ((set_lamports f (ac_lamports (w f) - l) w)
             (t := \<lparr>ac_lamports = l, ac_owner = owner, ac_data = replicate (unat s) 0\<rparr>))
      else Inl (Runtime_Error 1))"
| "system_program system (Transfer f t l) w =
     (if ac_owner (w f) = system \<and> l \<le> ac_lamports (w f) \<and>
         (f = t \<or> unat (ac_lamports (w t)) + unat l < 2 ^ 64)
      then Inr (move_lamports f t l w)
      else Inl (Runtime_Error 2))"

definition demo_rent :: "nat \<Rightarrow> u64" where
  "demo_rent n = 10 * of_nat n"

definition demo_runtime :: "u64 \<Rightarrow> bytes \<Rightarrow> runtime" where
  "demo_runtime slot verifier =
     \<lparr>rt_system_program = key_of 0, rt_incinerator = key_of 7, rt_ed25519_program = key_of 8,
      rt_sysvar_instructions = key_of 9,
      rt_hash = sha256 demo_crypto,
      rt_find_program_address =
        (\<lambda>seeds p. (hd (concat seeds) # take 31 (rev (concat seeds) @ replicate 31 0), 255)),
      rt_rent = Inr demo_rent,
      rt_clock = Inr slot,
      rt_current_index = (\<lambda>_. Inr 1),
      rt_instruction_at = (\<lambda>_ _. Inr (key_of 8, verifier)),
      rt_invoke = (\<lambda>i _ _ w. system_program (key_of 0) i w)\<rparr>"

definition world_of :: "(pubkey \<times> account) list \<Rightarrow> world" where
  "world_of accounts k =
     (case map_of accounts k of
        Some a \<Rightarrow> a
      | None \<Rightarrow> \<lparr>ac_lamports = 0, ac_owner = key_of 0, ac_data = []\<rparr>)"

definition wallet :: "u64 \<Rightarrow> account" where
  "wallet l = \<lparr>ac_lamports = l, ac_owner = key_of 0, ac_data = []\<rparr>"

definition demo_world :: world where
  "demo_world = world_of [(key_of 1, wallet 1000000), (key_of 2, wallet 1000000), (key_of 3, wallet 1000000)]"

definition signer :: "pubkey \<Rightarrow> account_info" where
  "signer k = \<lparr>ai_key = k, ai_is_signer = True\<rparr>"

definition nonsigner :: "pubkey \<Rightarrow> account_info" where
  "nonsigner k = \<lparr>ai_key = k, ai_is_signer = False\<rparr>"

definition demo_operator :: pubkey where "demo_operator = 111 # replicate 31 1"
definition demo_position :: pubkey where "demo_position = 112 # replicate 31 3"

definition demo_staked_operator :: operator_account where
  "demo_staked_operator =
     \<lparr>oa_authority = key_of 1, oa_signing_key = key_of 5, oa_bond = 1000, oa_pool_staked = 400,
      oa_reward_index = 0, oa_unbond_at = 0, oa_bump = 255\<rparr>"

definition demo_staked_position :: position_account where
  "demo_staked_position =
     \<lparr>pa_owner = key_of 3, pa_operator = demo_operator, pa_staked = 400, pa_entry_index = 0,
      pa_reward = 0, pa_bump = 255\<rparr>"

text \<open>The chain after a registration with a bond of 1000, and after a stake of 400.\<close>

definition demo_registered :: world where
  "demo_registered = world_of
     [(key_of 1, wallet 997940), (key_of 2, wallet 1000000), (key_of 3, wallet 1000000),
      (demo_operator, \<lparr>ac_lamports = 2060, ac_owner = key_of 10,
         ac_data = operator_bytes (demo_staked_operator\<lparr>oa_pool_staked := 0\<rparr>)\<rparr>)]"

definition demo_staked :: world where
  "demo_staked = world_of
     [(key_of 1, wallet 997940), (key_of 2, wallet 1000000), (key_of 3, wallet 998620),
      (demo_operator, \<lparr>ac_lamports = 2460, ac_owner = key_of 10, ac_data = operator_bytes demo_staked_operator\<rparr>),
      (demo_position, \<lparr>ac_lamports = 980, ac_owner = key_of 10, ac_data = position_bytes demo_staked_position\<rparr>)]"

lemma demo_runtime_ok: "runtime_ok (demo_runtime slot verifier) (key_of 10)"
  by (auto simp: runtime_ok_def demo_runtime_def key_of_def empty_account_def split: if_splits)

lemma info_simps [simp]:
  "ai_key (signer k) = k" "ai_is_signer (signer k)" "ai_key (nonsigner k) = k" "\<not> ai_is_signer (nonsigner k)"
  by (simp_all add: signer_def nonsigner_def)

lemma demo_keys [simp]: "length (key_of b) = 32" "length demo_operator = 32" "length demo_position = 32"
  by (simp_all add: key_of_def demo_operator_def demo_position_def)

lemma demo_staked_reads:
  "ac_owner (demo_staked demo_operator) = key_of 10"
  "operator_read (ac_data (demo_staked demo_operator)) = Inr demo_staked_operator"
  "ac_owner (demo_staked demo_position) = key_of 10"
  "position_read (ac_data (demo_staked demo_position)) = Inr demo_staked_position"
  by code_simp+

end
