(* ===== verification/Conservation.thy ===== *)
theory Conservation
  imports Demo_Chain
begin

text \<open>
  No instruction of the program mints or destroys lamports or touches an account it was not
  handed. The steps a handler is made of (writing data, creating an account, moving lamports) each
  keep both, and every handler is a sequence of such steps.
\<close>

definition conserves :: "account_info list \<Rightarrow> world \<Rightarrow> world \<Rightarrow> bool" where
  "conserves accounts w w' \<longleftrightarrow>
     (\<forall>k. k \<notin> keys_of accounts \<longrightarrow> w' k = w k) \<and>
     (\<forall>S. finite S \<longrightarrow> keys_of accounts \<subseteq> S \<longrightarrow> total_lamports S w' = total_lamports S w)"

lemma conserves_refl [simp]: "conserves accounts w w"
  by (simp add: conserves_def)

lemma conserves_trans [trans]: "conserves as w w' \<Longrightarrow> conserves as w' w'' \<Longrightarrow> conserves as w w''"
  by (simp add: conserves_def)

lemma conserves_set_data: "k \<in> keys_of as \<Longrightarrow> conserves as w (set_data k d w)"
  unfolding conserves_def by (metis set_other(1) total_set_data)

lemma conserves_move:
  assumes "f \<in> keys_of as" "t \<in> keys_of as" "l \<le> ac_lamports (w f)"
    and "f \<noteq> t \<Longrightarrow> unat (ac_lamports (w t)) + unat l < 2 ^ 64"
  shows "conserves as w (move_lamports f t l w)"
  unfolding conserves_def
proof (intro conjI allI impI)
  fix k
  assume "k \<notin> keys_of as"
  then have "k \<noteq> f" "k \<noteq> t"
    using assms(1,2) by auto
  then show "move_lamports f t l w k = w k"
    by simp
next
  fix S :: "pubkey set"
  assume "finite S" "keys_of as \<subseteq> S"
  then show "total_lamports S (move_lamports f t l w) = total_lamports S w"
    using assms by (intro total_move) auto
qed

lemma conserves_pay_out:
  assumes "pay_out from to amount w = Inr w'" "ai_key from \<in> keys_of as" "ai_key to \<in> keys_of as"
  shows "conserves as w w'"
  using pay_out_Inr [OF assms(1)] assms(2,3) by (simp add: conserves_move)

lemma conserves_created:
  assumes "f \<in> keys_of as" "t \<in> keys_of as" "f \<noteq> t" "w t = empty_account R" "l \<le> ac_lamports (w f)"
  shows "conserves as w ((set_lamports f (ac_lamports (w f) - l) w)
           (t := \<lparr>ac_lamports = l, ac_owner = p, ac_data = d\<rparr>))" (is "conserves as w ?w'")
  unfolding conserves_def
proof (intro conjI allI impI)
  fix k
  assume "k \<notin> keys_of as"
  then have "k \<noteq> f" "k \<noteq> t"
    using assms(1,2) by auto
  then show "?w' k = w k"
    by simp
next
  fix S :: "pubkey set"
  assume "finite S" "keys_of as \<subseteq> S"
  then show "total_lamports S ?w' = total_lamports S w"
    unfolding total_lamports_def using assms
    by (intro sum_two [of S f t]) (auto simp: empty_account_def unat_minus_le word_le_nat_alt)
qed

lemma conserves_opened:
  assumes "opened R p owner operator position w stored w'"
    and "owner \<in> keys_of as" "position \<in> keys_of as"
  shows "conserves as w w'"
  using assms unfolding opened_def by (metis conserves_refl conserves_created)

lemma register_conserves:
  assumes "runtime_ok R p" "keys_ok as" "length key = 32" "register R p as key bond w = Inr w'"
  shows "conserves as w w'"
  using assms
proof (rule register_Inr, goal_cases)
  case (1 authority operator_info system rest minimum_balance bump d)
  then show ?case
    using conserves_created [of "ai_key authority" as "ai_key operator_info" w R
        "minimum_balance 106 + bond" p d] by simp
qed

lemma stake_conserves:
  assumes "runtime_ok R p" "keys_ok as" "stake R p as amount w = Inr w'"
  shows "conserves as w w'"
  using assms
proof (rule stake_Inr, goal_cases)
  case (1 owner operator_info position_info system rest acc stored pool position d e w1)
  have keys: "ai_key owner \<in> keys_of as" "ai_key operator_info \<in> keys_of as"
    "ai_key position_info \<in> keys_of as"
    using 1(1) by auto
  have "conserves as w w1"
    by (rule conserves_opened [OF 1(5) keys(1,3)])
  also have "conserves as w1 (move_lamports (ai_key owner) (ai_key operator_info) amount w1)"
    by (rule conserves_move [OF keys(1,2) 1(10,11)])
  also have "conserves as \<dots> w'"
    unfolding 1(12) by (intro conserves_trans [OF conserves_set_data conserves_set_data] keys)
  finally show ?case .
qed

lemma unstake_conserves:
  assumes "unstake R p as amount w = Inr w'"
  shows "conserves as w w'"
  using assms
proof (rule unstake_Inr, goal_cases)
  case (1 owner operator_info position_info rest acc stored pool position d e w1)
  have keys: "ai_key owner \<in> keys_of as" "ai_key operator_info \<in> keys_of as"
    "ai_key position_info \<in> keys_of as"
    using 1(1) by auto
  have "conserves as w w1"
    unfolding 1(12) by (intro conserves_trans [OF conserves_set_data conserves_set_data] keys)
  also have "conserves as w1 w'"
    by (rule conserves_pay_out [OF 1(13) keys(2,1)])
  finally show ?case .
qed

lemma claim_conserves:
  assumes "claim R p as w = Inr w'"
  shows "conserves as w w'"
  using assms
proof (rule claim_Inr, goal_cases)
  case (1 owner operator_info position_info rest acc stored position earned e w1)
  have "conserves as w w1"
    unfolding 1(11) by (rule conserves_set_data) (simp add: 1(1))
  also have "conserves as w1 w'"
    by (rule conserves_pay_out [OF 1(12)]) (simp_all add: 1(1))
  finally show ?case .
qed

lemma prove_equivocation_conserves:
  assumes ok: "runtime_ok R p" and "keys_ok as" "prove_equivocation R p as w = Inr w'"
  shows "conserves as w w'"
  using assms(2,3)
proof (rule prove_equivocation_Inr, goal_cases)
  case (1 accuser operator_info conviction_info burn_to sysvar system rest acc evidence)
  have keys: "ai_key accuser \<in> keys_of as" "ai_key operator_info \<in> keys_of as"
    "ai_key conviction_info \<in> keys_of as" "ai_key burn_to \<in> keys_of as"
    using 1(1) by auto
  obtain a b where ev: "equivocation_check a b = Inr evidence"
    using 1(8) by (rule proven_evidence_Inr)
  from ok 1(4,7) ev 1(9) show ?case
  proof (rule convict_Inr, goal_cases)
    case (1 minimum_balance bump slot pool applied c d w1 w2)
    have "conserves as w w1"
      unfolding 1(13)
      by (rule conserves_trans [OF conserves_created conserves_set_data]) (use keys 1 in auto)
    also have "conserves as w1 w2"
      by (rule conserves_pay_out [OF 1(14) keys(2,4)])
    also have "conserves as w2 w'"
      by (rule conserves_pay_out [OF 1(15) keys(2,3)])
    finally show ?case .
  qed
qed

lemma claim_victim_conserves:
  assumes "claim_victim R p as wire w = Inr w'"
  shows "conserves as w w'"
  using assms
proof (rule claim_victim_Inr, goal_cases)
  case (1 claimant conviction_info rest conviction d w1)
  have "conserves as w w1"
    unfolding 1(8) by (rule conserves_set_data) (simp add: 1(1))
  also have "conserves as w1 w'"
    by (rule conserves_pay_out [OF 1(9)]) (simp_all add: 1(1))
  finally show ?case .
qed

lemma begin_unbond_conserves:
  assumes "begin_unbond R p as w = Inr w'"
  shows "conserves as w w'"
  using assms by (rule begin_unbond_Inr) (auto intro: conserves_set_data)

lemma withdraw_bond_conserves:
  assumes "withdraw_bond R p as w = Inr w'"
  shows "conserves as w w'"
  using assms
proof (rule withdraw_bond_Inr, goal_cases)
  case (1 authority operator_info rest acc slot d w1)
  have "conserves as w w1"
    unfolding 1(10) by (rule conserves_set_data) (simp add: 1(1))
  also have "conserves as w1 w'"
    by (rule conserves_pay_out [OF 1(11)]) (simp_all add: 1(1))
  finally show ?case .
qed

lemma process_instruction_conserves:
  assumes "runtime_ok R p" "keys_ok as" "instruction_shape i" "process_instruction R p as i w = Inr w'"
  shows "conserves as w w'"
  using assms
  by (cases i) (auto simp: instruction_shape_def intro: register_conserves stake_conserves
      unstake_conserves claim_conserves prove_equivocation_conserves claim_victim_conserves
      begin_unbond_conserves withdraw_bond_conserves)

lemma process_Inr:
  assumes "process R p as data w = Inr w'"
  obtains i where "instruction_read data = Inr i" and "instruction_shape i"
    and "process_instruction R p as i w = Inr w'"
  using assms instruction_read_sound by (auto simp: process_def result_simps)

lemma process_write:
  "instruction_shape i \<Longrightarrow> process R p as (instruction_write i) w = process_instruction R p as i w"
  by (simp add: process_def instruction_read_write)

section \<open>Runs of the small chain\<close>

text \<open>A successful run is known once its result is known at the accounts it was handed.\<close>

lemma run_by_evaluation:
  assumes "runtime_ok R p" and "keys_ok as" and ok: "\<not> is_err (process R p as data w)"
    and at: "\<forall>a \<in> set as. projr (process R p as data w) (ai_key a) = w' (ai_key a)"
    and frame: "\<And>k. k \<notin> keys_of as \<Longrightarrow> w' k = w k"
  shows "process R p as data w = Inr w'"
proof -
  obtain w1 where w1: "process R p as data w = Inr w1"
    using ok by (auto simp: not_is_err_iff)
  then obtain i where "instruction_shape i" "process_instruction R p as i w = Inr w1"
    by (rule process_Inr)
  then have "conserves as w w1"
    by (rule process_instruction_conserves [OF assms(1,2)])
  then have "w1 k = w' k" for k
    using at frame [of k] w1 by (cases "k \<in> keys_of as") (auto simp: conserves_def)
  with w1 show ?thesis
    by (simp add: fun_eq_iff)
qed

lemma demo_registered_run:
  "process (demo_runtime 5 []) (key_of 10) [signer (key_of 1), nonsigner demo_operator, nonsigner (key_of 0)]
     (instruction_write (Register (key_of 5) 1000)) demo_world = Inr demo_registered"
proof (rule run_by_evaluation [OF demo_runtime_ok])
  show "demo_registered k = demo_world k"
    if "k \<notin> keys_of [signer (key_of 1), nonsigner demo_operator, nonsigner (key_of 0)]" for k
    using that by (simp add: demo_registered_def demo_world_def world_of_def)
qed (simp add: keys_ok_def, code_simp, code_simp)

lemma demo_neq [simp]:
  "demo_operator \<noteq> key_of b" "demo_position \<noteq> key_of b" "demo_operator \<noteq> demo_position"
  "key_of b \<noteq> demo_operator" "key_of b \<noteq> demo_position" "demo_position \<noteq> demo_operator"
  "key_of b = key_of c \<longleftrightarrow> b = c"
proof -
  have ends: "hd (key_of b) = b" "last (key_of b) = b" for b
    by (simp_all add: key_of_def)
  have tags: "hd demo_operator = 111" "last demo_operator = 1" "hd demo_position = 112" "last demo_position = 3"
    by (simp_all add: demo_operator_def demo_position_def)
  have ne: "(111 :: u8) \<noteq> 1" "(112 :: u8) \<noteq> 3"
    by simp_all
  show "demo_operator \<noteq> key_of b" "key_of b \<noteq> demo_operator"
    using ends tags(1,2) ne(1) by metis+
  show "demo_position \<noteq> key_of b" "key_of b \<noteq> demo_position"
    using ends tags(3,4) ne(2) by metis+
  show "key_of b = key_of c \<longleftrightarrow> b = c"
    using ends by metis
qed (simp_all add: demo_operator_def demo_position_def)

lemma demo_runtime_fields [simp]:
  "rt_system_program (demo_runtime slot v) = key_of 0" "rt_rent (demo_runtime slot v) = Inr demo_rent"
  "rt_invoke (demo_runtime slot v) i infos seeds w = system_program (key_of 0) i w"
  by (simp_all add: demo_runtime_def)

lemma demo_accounts:
  "demo_registered (key_of 3) = wallet 1000000" "demo_registered demo_position = wallet 0"
  "demo_registered demo_operator = \<lparr>ac_lamports = 2060, ac_owner = key_of 10,
     ac_data = operator_bytes (demo_staked_operator\<lparr>oa_pool_staked := 0\<rparr>)\<rparr>"
  by (simp_all add: demo_registered_def world_of_def wallet_def)

lemma demo_shapes [simp]: "operator_shape (demo_staked_operator\<lparr>oa_pool_staked := x\<rparr>)"
  "operator_shape demo_staked_operator" "position_shape demo_staked_position"
  by (simp_all add: operator_shape_def demo_staked_operator_def position_shape_def
      demo_staked_position_def key_of_def demo_operator_def)

lemma layout_again:
  "operator_shape a \<Longrightarrow> operator_read (operator_bytes a) = Inr a"
  "operator_shape a \<Longrightarrow> operator_shape b \<Longrightarrow> operator_write a (operator_bytes b) = Inr (operator_bytes a)"
  "position_shape q \<Longrightarrow> position_shape r \<Longrightarrow> position_write q (position_bytes r) = Inr (position_bytes q)"
  "position_shape q \<Longrightarrow> position_write q (replicate 98 0) = Inr (position_bytes q)"
  using operator_layout.load_encode [of a "[]"]
  by (simp_all add: operator_write_bytes position_write_bytes length_operator_bytes length_position_bytes)

lemma demo_staked_run:
  "process (demo_runtime 6 []) (key_of 10)
     [signer (key_of 3), nonsigner demo_operator, nonsigner demo_position, nonsigner (key_of 0)]
     (instruction_write (Stake 400)) demo_registered = Inr demo_staked"
proof -
  let ?fresh = "demo_staked_position\<lparr>pa_staked := 0\<rparr>"
  have shape: "position_shape ?fresh"
    by (simp add: position_shape_def demo_staked_position_def key_of_def demo_operator_def)
  have pda: "at_pda (demo_runtime 6 []) (nonsigner demo_position) [POSITION_SEED, demo_operator, key_of 3] (key_of 10) = Inr 255"
    by code_simp
  have opn: "open_position (demo_runtime 6 []) (key_of 10) (signer (key_of 3)) (nonsigner demo_operator)
      (nonsigner demo_position) (nonsigner (key_of 0)) demo_registered =
      Inr (?fresh, demo_registered(key_of 3 := wallet 999020,
        demo_position := \<lparr>ac_lamports = 980, ac_owner = key_of 10, ac_data = position_bytes ?fresh\<rparr>))"
    using shape pda
    by (simp add: open_position_def demo_accounts wallet_def demo_rent_def
        store_position_def layout_again demo_staked_position_def set_lamports_def Let_def)
  have pl: "pool_stake (operator_pool (demo_staked_operator\<lparr>oa_pool_staked := 0\<rparr>)) (position_of ?fresh) 400 =
      Inr (operator_pool demo_staked_operator, position_of demo_staked_position)"
    by code_simp
  have upd: "operator_set_pool (demo_staked_operator\<lparr>oa_pool_staked := 0\<rparr>) (operator_pool demo_staked_operator) =
      demo_staked_operator"
    "set_position ?fresh (position_of demo_staked_position) = demo_staked_position"
    by code_simp+
  have "demo_staked = demo_registered(key_of 3 := wallet 998620,
      demo_operator := \<lparr>ac_lamports = 2460, ac_owner = key_of 10, ac_data = operator_bytes demo_staked_operator\<rparr>,
      demo_position := \<lparr>ac_lamports = 980, ac_owner = key_of 10, ac_data = position_bytes demo_staked_position\<rparr>)"
    by (simp add: fun_eq_iff demo_staked_def demo_registered_def world_of_def)
  then have "process_instruction (demo_runtime 6 []) (key_of 10)
      [signer (key_of 3), nonsigner demo_operator, nonsigner demo_position, nonsigner (key_of 0)]
      (Stake 400) demo_registered = Inr demo_staked"
    using shape
    by (simp add: stake_def opn pl upd owned_by_def load_operator_def store_operator_def
        store_position_def layout_again demo_accounts wallet_def move_lamports_def set_lamports_def
        set_data_def Let_def)
  then show ?thesis
    by (simp only: process_write instruction_shape_def slash_instruction.case)
qed

section \<open>Properties\<close>

text \<open>
  C11. A successful instruction of any kind leaves every account outside its account list as it was
  and keeps the total of lamports of any finite set of accounts that contains the list: the program
  never mints, burns or strands lamports outside the accounts it names.
\<close>
theorem process_conserves_lamports:
  assumes "runtime_ok R p" and "keys_ok accounts" and "process R p accounts data w = Inr w'"
    and "finite S" and "keys_of accounts \<subseteq> S"
  shows "total_lamports S w' = total_lamports S w \<and> (\<forall>k. k \<notin> keys_of accounts \<longrightarrow> w' k = w k)"
  using process_instruction_conserves [OF assms(1,2)] process_Inr [OF assms(3)] assms(4,5)
  by (metis conserves_def)

theorem process_conserves_lamports_witness:
  "total_lamports {key_of 0, key_of 3, demo_operator, demo_position} demo_staked =
   total_lamports {key_of 0, key_of 3, demo_operator, demo_position} demo_registered"
  using process_conserves_lamports [OF demo_runtime_ok _ demo_staked_run,
      of "{key_of 0, key_of 3, demo_operator, demo_position}"]
  by (simp add: keys_ok_def)

end
