(* ===== verification/Coverage.thy ===== *)
theory Coverage
  imports Conservation Pool_Contract
begin

text \<open>
  The operator account always covers what it owes. The chain runs any instructions of the program,
  with any accounts, interleaved with whatever else the chain does; the invariant relates every
  operator account to all the positions that point at it: the lamports in it cover rent, the bond,
  every stake and every reward. It rests on the contract of the pool (\<open>coverage_pool\<close>) for what the
  pool owes and on the effects of the handlers for what is in the account.
\<close>

section \<open>Operators and positions on the chain\<close>

definition operator_in :: "pubkey \<Rightarrow> world \<Rightarrow> pubkey \<Rightarrow> operator_account \<Rightarrow> bool" where
  "operator_in p w k acc \<longleftrightarrow> ac_owner (w k) = p \<and> operator_read (ac_data (w k)) = Inr acc"

definition position_in :: "pubkey \<Rightarrow> world \<Rightarrow> pubkey \<Rightarrow> position_account \<Rightarrow> bool" where
  "position_in p w k q \<longleftrightarrow> ac_owner (w k) = p \<and> position_read (ac_data (w k)) = Inr q"

definition positions_of :: "pubkey \<Rightarrow> world \<Rightarrow> pubkey \<Rightarrow> pubkey set" where
  "positions_of p w k = {j. \<exists>q. position_in p w j q \<and> pa_operator q = k}"

definition position_at :: "world \<Rightarrow> pubkey \<Rightarrow> position" where
  "position_at w j = position_of (projr (position_read (ac_data (w j))))"

definition covered :: "pubkey \<Rightarrow> (nat \<Rightarrow> u64) \<Rightarrow> world \<Rightarrow> pubkey \<Rightarrow> operator_account \<Rightarrow> bool" where
  "covered p rent w k acc \<longleftrightarrow>
     (\<exists>ks funded paid. distinct ks \<and> set ks = positions_of p w k \<and>
        pool.solvent (operator_pool acc) (map (position_at w) ks) funded paid \<and>
        unat (rent 106) + unat (oa_bond acc) + unat (oa_pool_staked acc) + funded
          \<le> unat (ac_lamports (w k)) + paid \<and>
        (oa_bond acc \<noteq> 0 \<longrightarrow> funded = 0))"

text \<open>The cover of every operator account but the excepted ones, and no position without its operator.\<close>

definition chain_inv :: "pubkey \<Rightarrow> (nat \<Rightarrow> u64) \<Rightarrow> pubkey set \<Rightarrow> world \<Rightarrow> bool" where
  "chain_inv p rent except w \<longleftrightarrow>
     (\<forall>k acc. operator_in p w k acc \<longrightarrow> k \<notin> except \<longrightarrow> covered p rent w k acc) \<and>
     (\<forall>k. positions_of p w k \<noteq> {} \<longrightarrow> (\<exists>acc. operator_in p w k acc))"

text \<open>
  One step of the chain: an instruction of the program under a runtime that keeps its promises and
  charges the fixed rent, or anything else the chain does, which by the account rules leaves data
  of the program's accounts alone, never debits them, and can hand the program only accounts full
  of zeros.
\<close>

definition elsewhere :: "pubkey \<Rightarrow> world \<Rightarrow> world \<Rightarrow> bool" where
  "elsewhere p w w' \<longleftrightarrow>
     (\<forall>k. ac_owner (w k) = p \<longrightarrow>
        ac_owner (w' k) = p \<and> ac_data (w' k) = ac_data (w k) \<and> ac_lamports (w k) \<le> ac_lamports (w' k)) \<and>
     (\<forall>k. ac_owner (w k) \<noteq> p \<longrightarrow> ac_owner (w' k) = p \<longrightarrow> set (ac_data (w' k)) \<subseteq> {0})"

inductive chain_step :: "pubkey \<Rightarrow> (nat \<Rightarrow> u64) \<Rightarrow> world \<Rightarrow> world \<Rightarrow> bool" for p rent where
  Program: "runtime_ok R p \<Longrightarrow> rt_rent R = Inr rent \<Longrightarrow> keys_ok accounts \<Longrightarrow>
    process R p accounts data w = Inr w' \<Longrightarrow> chain_step p rent w w'"
| Elsewhere: "elsewhere p w w' \<Longrightarrow> chain_step p rent w w'"

text \<open>
  The states such steps reach, with the instructions that succeeded on the way. An operator is
  over-bonded when its registration asked for a bond that, with the rent, does not fit a balance:
  \<open>register\<close> adds the two unchecked, so its account was created with less than the bond it records.
\<close>

inductive chain_reachable :: "pubkey \<Rightarrow> (nat \<Rightarrow> u64) \<Rightarrow> (account_info list \<times> bytes) list \<Rightarrow> world \<Rightarrow> bool" for p rent where
  Before: "(\<And>k. ac_owner (w k) \<noteq> p) \<Longrightarrow> chain_reachable p rent [] w"
| Ran: "chain_reachable p rent log w \<Longrightarrow> runtime_ok R p \<Longrightarrow> rt_rent R = Inr rent \<Longrightarrow> keys_ok accounts \<Longrightarrow>
    process R p accounts data w = Inr w' \<Longrightarrow> chain_reachable p rent (log @ [(accounts, data)]) w'"
| Meanwhile: "chain_reachable p rent log w \<Longrightarrow> elsewhere p w w' \<Longrightarrow> chain_reachable p rent log w'"

fun bond_overflows :: "(nat \<Rightarrow> u64) \<Rightarrow> account_info list \<times> bytes \<Rightarrow> bool" where
  "bond_overflows rent (accounts, data) =
     (case instruction_read data of
        Inr (Register _ bond) \<Rightarrow> 2 ^ 64 \<le> unat (rent 106) + unat bond
      | _ \<Rightarrow> False)"

definition overbonded :: "(nat \<Rightarrow> u64) \<Rightarrow> (account_info list \<times> bytes) list \<Rightarrow> pubkey set" where
  "overbonded rent log = set (map (\<lambda>(accounts, _). ai_key (accounts ! 1)) (filter (bond_overflows rent) log))"

lemma overbonded_snoc:
  "overbonded rent log \<subseteq> overbonded rent (log @ [i])"
  "bond_overflows rent (accounts, data) \<Longrightarrow> ai_key (accounts ! 1) \<in> overbonded rent (log @ [(accounts, data)])"
  by (auto simp: overbonded_def simp del: bond_overflows.simps)

inductive_cases chain_step_elim: "chain_step p rent w w'"

section \<open>Frames\<close>

lemma in_exclusive:
  "operator_in p w k acc \<Longrightarrow> \<not> position_in p w k q"
  "position_in p w k q \<Longrightarrow> \<not> operator_in p w k acc"
  by (auto simp: operator_in_def position_in_def dest: tag_exclusive(1))

lemma in_unique:
  "operator_in p w k acc \<Longrightarrow> operator_in p w k acc' \<Longrightarrow> acc' = acc"
  "position_in p w k q \<Longrightarrow> position_in p w k q' \<Longrightarrow> q' = q"
  by (simp_all add: operator_in_def position_in_def)

lemma position_at_in: "position_in p w k q \<Longrightarrow> position_at w k = position_of q"
  by (simp add: position_in_def position_at_def)

lemma positions_of_frame:
  assumes "\<And>j q. pa_operator q = k \<Longrightarrow> position_in p w' j q \<longleftrightarrow> position_in p w j q"
  shows "positions_of p w' k = positions_of p w k"
    and "j \<in> positions_of p w k \<Longrightarrow> position_at w' j = position_at w j"
  using assms by (auto simp: positions_of_def) (metis position_at_in)

lemma coveredI:
  assumes "distinct ks" "set ks = positions_of p w k"
    and "pool.solvent (operator_pool acc) (map (position_at w) ks) funded paid"
    and "unat (rent 106) + unat (oa_bond acc) + unat (oa_pool_staked acc) + funded
      \<le> unat (ac_lamports (w k)) + paid"
    and "oa_bond acc \<noteq> 0 \<Longrightarrow> funded = 0"
  shows "covered p rent w k acc"
  unfolding covered_def using assms by blast

lemma coveredE:
  assumes "covered p rent w k acc"
  obtains ks funded paid where "distinct ks" "set ks = positions_of p w k"
    and "pool.solvent (operator_pool acc) (map (position_at w) ks) funded paid"
    and "unat (rent 106) + unat (oa_bond acc) + unat (oa_pool_staked acc) + funded
      \<le> unat (ac_lamports (w k)) + paid"
    and "oa_bond acc \<noteq> 0 \<Longrightarrow> funded = 0"
  using assms unfolding covered_def by blast

lemma covered_frame:
  assumes cov: "covered p rent w k acc"
    and pos: "\<And>j q. pa_operator q = k \<Longrightarrow> position_in p w' j q \<longleftrightarrow> position_in p w j q"
    and pool: "operator_pool acc' = operator_pool acc"
    and lam: "unat (oa_bond acc') + unat (ac_lamports (w k)) \<le> unat (oa_bond acc) + unat (ac_lamports (w' k))"
    and bond: "oa_bond acc = 0 \<Longrightarrow> oa_bond acc' = 0"
  shows "covered p rent w' k acc'"
  using cov
proof (rule coveredE)
  fix ks funded paid
  assume ks: "distinct ks" "set ks = positions_of p w k"
    and solvent: "pool.solvent (operator_pool acc) (map (position_at w) ks) funded paid"
    and le: "unat (rent 106) + unat (oa_bond acc) + unat (oa_pool_staked acc) + funded
      \<le> unat (ac_lamports (w k)) + paid" "oa_bond acc \<noteq> 0 \<Longrightarrow> funded = 0"
  have map: "map (position_at w') ks = map (position_at w) ks"
    using positions_of_frame(2) [OF pos] ks(2) by simp
  have staked: "oa_pool_staked acc' = oa_pool_staked acc"
    using pool by (metis pool_views(11))
  show ?thesis
  proof (rule coveredI [of ks])
    show "set ks = positions_of p w' k"
      using ks(2) positions_of_frame(1) [OF pos] by simp
    show "pool.solvent (operator_pool acc') (map (position_at w') ks) funded paid"
      unfolding map pool by (rule solvent)
    show "unat (rent 106) + unat (oa_bond acc') + unat (oa_pool_staked acc') + funded
        \<le> unat (ac_lamports (w' k)) + paid"
      unfolding staked using le(1) lam by linarith
  qed (use ks(1) le(2) bond in auto)
qed

lemma chain_invD:
  assumes "chain_inv p rent except w"
  shows "operator_in p w k acc \<Longrightarrow> k \<notin> except \<Longrightarrow> covered p rent w k acc"
    and "position_in p w j q \<Longrightarrow> \<exists>acc. operator_in p w (pa_operator q) acc"
  using assms unfolding chain_inv_def positions_of_def by blast+

lemma chain_invI:
  assumes "\<And>k acc. operator_in p w k acc \<Longrightarrow> k \<notin> except \<Longrightarrow> covered p rent w k acc"
    and "\<And>j q. position_in p w j q \<Longrightarrow> \<exists>acc. operator_in p w (pa_operator q) acc"
  shows "chain_inv p rent except w"
  using assms unfolding chain_inv_def positions_of_def by blast

lemma chain_inv_mono: "chain_inv p rent except w \<Longrightarrow> except \<subseteq> except' \<Longrightarrow> chain_inv p rent except' w"
  unfolding chain_inv_def by blast

lemma chain_inv_touch:
  assumes inv: "chain_inv p rent except w"
    and ops: "\<And>j a. j \<noteq> k \<Longrightarrow> operator_in p w' j a \<longleftrightarrow> operator_in p w j a"
    and lam: "\<And>j a. j \<noteq> k \<Longrightarrow> operator_in p w j a \<Longrightarrow> ac_lamports (w j) \<le> ac_lamports (w' j)"
    and pos: "\<And>j q. pa_operator q \<noteq> k \<Longrightarrow> position_in p w' j q \<longleftrightarrow> position_in p w j q"
    and new: "operator_in p w' k acc'" "k \<notin> except \<Longrightarrow> covered p rent w' k acc'"
  shows "chain_inv p rent except w'"
proof (rule chain_invI)
  fix j a
  assume a: "operator_in p w' j a" and j: "j \<notin> except"
  show "covered p rent w' j a"
  proof (cases "j = k")
    case True
    with a new have "a = acc'"
      by (metis in_unique(1))
    with True new(2) j show ?thesis by simp
  next
    case False
    then have a': "operator_in p w j a"
      using a ops by simp
    show ?thesis
    proof (rule covered_frame [OF chain_invD(1) [OF inv a' j]])
      show "position_in p w' i q \<longleftrightarrow> position_in p w i q" if "pa_operator q = j" for i q
        using pos [of q i] False that by simp
    qed (use lam [OF False a'] in \<open>simp_all add: word_le_nat_alt\<close>)
  qed
next
  fix j q
  assume q: "position_in p w' j q"
  show "\<exists>acc. operator_in p w' (pa_operator q) acc"
  proof (cases "pa_operator q = k")
    case True
    with new(1) show ?thesis by blast
  next
    case False
    with q pos have "position_in p w j q" by simp
    then obtain acc where "operator_in p w (pa_operator q) acc"
      using chain_invD(2) [OF inv] by blast
    with ops [OF False] show ?thesis by blast
  qed
qed

lemma chain_inv_frame:
  assumes inv: "chain_inv p rent except w"
    and ops: "\<And>j a. operator_in p w' j a \<longleftrightarrow> operator_in p w j a"
    and lam: "\<And>j a. operator_in p w j a \<Longrightarrow> ac_lamports (w j) \<le> ac_lamports (w' j)"
    and pos: "\<And>j q. position_in p w' j q \<longleftrightarrow> position_in p w j q"
  shows "chain_inv p rent except w'"
proof (rule chain_invI)
  fix j a
  assume "operator_in p w' j a" and j: "j \<notin> except"
  then have a: "operator_in p w j a"
    using ops by simp
  show "covered p rent w' j a"
    using lam [OF a] pos
    by (intro covered_frame [OF chain_invD(1) [OF inv a j]]) (simp_all add: word_le_nat_alt)
next
  fix j q
  assume "position_in p w' j q"
  then show "\<exists>acc. operator_in p w' (pa_operator q) acc"
    using chain_invD(2) [OF inv] ops pos by simp
qed

lemma solvent_paid:
  assumes "pool.solvent pl qs funded paid"
  shows "paid \<le> funded"
proof -
  have "1000000000000 * paid \<le> 1000000000000 * funded"
    using assms by (simp add: pool.solvent_def)
  then show ?thesis by simp
qed

lemma covered_staked:
  assumes "covered p rent w k acc"
  shows "unat (oa_pool_staked acc) \<le> unat (ac_lamports (w k))"
  using assms by (rule coveredE) (auto dest: solvent_paid)

lemma covered_position:
  assumes cov: "covered p rent w k acc" and q: "position_in p w j q" "pa_operator q = k"
  shows "anchored_at (operator_pool acc) (position_of q) \<and>
    owed (operator_pool acc) (position_of q) < 1000000000000 * 2 ^ 64 \<and>
    position_staked (position_of q) \<le> pool_total (operator_pool acc)"
  using cov
proof (rule coveredE)
  fix ks funded paid
  assume ks: "set ks = positions_of p w k"
    and sol: "pool.solvent (operator_pool acc) (map (position_at w) ks) funded paid"
  have "j \<in> set ks"
    using ks q by (auto simp: positions_of_def)
  then obtain i where i: "i < length (map (position_at w) ks)" "map (position_at w) ks ! i = position_of q"
    using position_at_in [OF q(1)] by (auto simp: in_set_conv_nth)
  show ?thesis
    using pool.solvent_position [OF sol i(1)] unfolding i(2) by simp
qed

text \<open>One position of one operator is replaced: the shape of staking, unstaking and claiming.\<close>

lemma chain_inv_position:
  assumes inv: "chain_inv p rent except w"
    and old: "operator_in p w k acc" "position_in p w pk stored" "pa_operator stored = k"
    and new: "operator_in p w' k acc'" "position_in p w' pk stored'" "pa_operator stored' = k"
    and frame: "\<And>j. j \<noteq> k \<Longrightarrow> j \<noteq> pk \<Longrightarrow> ac_owner (w' j) = ac_owner (w j) \<and> ac_data (w' j) = ac_data (w j)"
    and lam: "\<And>j a. j \<noteq> k \<Longrightarrow> operator_in p w j a \<Longrightarrow> ac_lamports (w j) \<le> ac_lamports (w' j)"
    and solvent: "\<And>qs i funded paid. k \<notin> except \<Longrightarrow> i < length qs \<Longrightarrow> qs ! i = position_of stored \<Longrightarrow>
      pool.solvent (operator_pool acc) qs funded paid \<Longrightarrow>
      pool.solvent (operator_pool acc') (qs[i := position_of stored']) funded (paid + v)"
    and lam_k: "k \<notin> except \<Longrightarrow> unat (oa_pool_staked acc') + unat (ac_lamports (w k))
      \<le> unat (oa_pool_staked acc) + unat (ac_lamports (w' k)) + v"
    and bond: "oa_bond acc' = oa_bond acc"
  shows "chain_inv p rent except w'"
proof -
  have ne: "pk \<noteq> k"
    using old in_exclusive by blast
  have same: "operator_in p w' j = operator_in p w j" "position_in p w' j = position_in p w j"
    if "j \<noteq> k" "j \<noteq> pk" for j
    using frame [OF that] by (simp_all add: operator_in_def position_in_def fun_eq_iff)
  have ops: "operator_in p w' j a \<longleftrightarrow> operator_in p w j a" if "j \<noteq> k" for j a
    using that same(1) [of j] in_exclusive(2) old(2) new(2) by (cases "j = pk") auto
  have other: "position_in p w' j q \<longleftrightarrow> position_in p w j q" if "j \<noteq> pk" for j q
    using that same(2) [of j] in_exclusive(1) old(1) new(1) by (cases "j = k") auto
  have pos: "position_in p w' j q \<longleftrightarrow> position_in p w j q" if "pa_operator q \<noteq> k" for j q
    using that other [of j q] in_unique(2) old(2,3) new(2,3) by (cases "j = pk") blast+
  have set: "positions_of p w' k = positions_of p w k"
    using other old(2,3) new(2,3) unfolding positions_of_def by (intro Collect_cong) metis
  have "covered p rent w' k acc'" if k: "k \<notin> except"
  proof (rule coveredE [OF chain_invD(1) [OF inv old(1) k]])
    fix ks funded paid
    assume ks: "distinct ks" "set ks = positions_of p w k"
      and sol: "pool.solvent (operator_pool acc) (map (position_at w) ks) funded paid"
      and le: "unat (rent 106) + unat (oa_bond acc) + unat (oa_pool_staked acc) + funded
        \<le> unat (ac_lamports (w k)) + paid" "oa_bond acc \<noteq> 0 \<Longrightarrow> funded = 0"
    have "pk \<in> set ks"
      using ks(2) old(2,3) by (auto simp: positions_of_def)
    then obtain i where i: "i < length ks" "ks ! i = pk"
      by (auto simp: in_set_conv_nth)
    have at: "position_at w' j = (if j = pk then position_of stored' else position_at w j)"
      if "j \<in> set ks" for j
      using that ks(2) other position_at_in old(2) new(2) unfolding positions_of_def by auto metis
    have "map (position_at w') ks = (map (position_at w) ks)[i := position_of stored']"
      using ks(1) i at by (intro nth_equalityI) (auto simp: nth_list_update nth_eq_iff_index_eq)
    moreover have "pool.solvent (operator_pool acc') ((map (position_at w) ks)[i := position_of stored'])
        funded (paid + v)"
      using i sol position_at_in [OF old(2)] k by (intro solvent) simp_all
    ultimately have sol': "pool.solvent (operator_pool acc') (map (position_at w') ks) funded (paid + v)"
      by (simp only:)
    have le': "unat (rent 106) + unat (oa_bond acc') + unat (oa_pool_staked acc') + funded
        \<le> unat (ac_lamports (w' k)) + (paid + v)"
      unfolding bond using le(1) lam_k [OF k] by linarith
    show ?thesis
      by (rule coveredI [where w = w' and rent = rent and k = k, OF ks(1) _ sol' le']) (use ks(2) le(2) bond set in auto)
  qed
  with inv ops lam pos new(1) show ?thesis
    by (rule chain_inv_touch)
qed

section \<open>Every instruction keeps the cover\<close>

lemma pay_out_effect:
  assumes "pay_out from to amount w = Inr w'"
  shows "ac_owner (w' j) = ac_owner (w j)" and "ac_data (w' j) = ac_data (w j)"
    and "j \<noteq> ai_key from \<Longrightarrow> ac_lamports (w j) \<le> ac_lamports (w' j)"
    and "unat (ac_lamports (w (ai_key from))) \<le> unat (ac_lamports (w' (ai_key from))) + unat amount"
proof -
  note p = pay_out_Inr [OF assms]
  show "ac_owner (w' j) = ac_owner (w j)" "ac_data (w' j) = ac_data (w j)"
    by (simp_all add: p(1))
  show "ac_lamports (w j) \<le> ac_lamports (w' j)" if "j \<noteq> ai_key from"
  proof (cases "j = ai_key to")
    case True
    with that p(3) show ?thesis
      by (simp add: p(1) word_le_nat_alt unat_add_bounded)
  next
    case False
    with that show ?thesis by (simp add: p(1))
  qed
  show "unat (ac_lamports (w (ai_key from))) \<le> unat (ac_lamports (w' (ai_key from))) + unat amount"
    using p(2) by (cases "ai_key from = ai_key to") (simp_all add: p(1) unat_minus_le)
qed

lemma unstake_covers:
  assumes inv: "chain_inv p rent except w" and run: "unstake R p accounts amount w = Inr w'"
  shows "chain_inv p rent except w'"
  using run
proof (rule unstake_Inr, goal_cases)
  case (1 owner operator_info position_info rest acc stored pl position d e w1)
  let ?k = "ai_key operator_info" and ?j = "ai_key position_info"
  have old: "operator_in p w ?k acc" "position_in p w ?j stored"
    using 1 by (simp_all add: operator_in_def position_in_def)
  then have ne: "?j \<noteq> ?k"
    using in_exclusive by metis
  note pay = pay_out_effect [OF 1(13)]
  have new: "operator_in p w' ?k (operator_set_pool acc pl)" "position_in p w' ?j (set_position stored position)"
    using 1(3,4,10,11) ne by (simp_all add: operator_in_def position_in_def pay(1,2) 1(12))
  have pl: "amount \<le> q_staked (position_of stored)" "p_staked pl = oa_pool_staked acc - amount"
    using 1(9) by (auto simp: pool_unstake_def Let_def split: if_splits)
  have staked: "unat (p_staked pl) + unat amount = unat (oa_pool_staked acc)" if "?k \<notin> except"
  proof -
    have "q_staked (position_of stored) \<le> oa_pool_staked acc"
      using covered_position [OF chain_invD(1) [OF inv old(1) that] old(2) 1(8)] by (simp add: word_le_nat_alt)
    then show ?thesis
      using pl by (simp add: unat_minus_le word_le_nat_alt)
  qed
  show ?case
  proof (rule chain_inv_position [OF inv old 1(8) new, where v = 0])
    show "pool.solvent (operator_pool (operator_set_pool acc pl)) (qs[i := position_of (set_position stored position)])
        funded (paid + 0)"
      if "i < length qs" "qs ! i = position_of stored" "pool.solvent (operator_pool acc) qs funded paid"
      for qs i funded paid
      using that pool.solvent_unstake [OF that(3,1), of amount pl position amount] 1(9) by simp
    show "unat (oa_pool_staked (operator_set_pool acc pl)) + unat (ac_lamports (w ?k))
        \<le> unat (oa_pool_staked acc) + unat (ac_lamports (w' ?k)) + 0" if "?k \<notin> except"
      using pay(4) 1(12) staked [OF that] by (simp add: operator_set_pool_def)
  qed (use 1(8,12) pay in auto)
qed

lemma claim_covers:
  assumes inv: "chain_inv p rent except w" and run: "claim R p accounts w = Inr w'"
  shows "chain_inv p rent except w'"
  using run
proof (rule claim_Inr, goal_cases)
  case (1 owner operator_info position_info rest acc stored position earned e w1)
  let ?k = "ai_key operator_info" and ?j = "ai_key position_info"
  have old: "operator_in p w ?k acc" "position_in p w ?j stored"
    using 1 by (simp_all add: operator_in_def position_in_def)
  then have ne: "?j \<noteq> ?k"
    using in_exclusive by metis
  note pay = pay_out_effect [OF 1(12)]
  have new: "operator_in p w' ?k acc" "position_in p w' ?j (set_position stored position)"
    using 1(3,4,5,10) ne by (simp_all add: operator_in_def position_in_def pay(1,2) 1(11))
  show ?case
  proof (rule chain_inv_position [OF inv old 1(8) new, where v = "unat earned"])
    show "pool.solvent (operator_pool acc) (qs[i := position_of (set_position stored position)])
        funded (paid + unat earned)"
      if "i < length qs" "qs ! i = position_of stored" "pool.solvent (operator_pool acc) qs funded paid"
      for qs i funded paid
      using that pool.solvent_claim [OF that(3,1), of position earned] 1(9) by simp
    show "unat (oa_pool_staked acc) + unat (ac_lamports (w ?k))
        \<le> unat (oa_pool_staked acc) + unat (ac_lamports (w' ?k)) + unat earned"
      using pay(4) 1(11) by simp
  qed (use 1(8,11) pay in auto)
qed

lemma opened_covers:
  assumes inv: "chain_inv p rent except w" and ok: "runtime_ok R p" and k: "operator_in p w k acc"
    and opn: "opened R p owner k j w stored w'"
  shows "chain_inv p rent except w' \<and> operator_in p w' k acc \<and> position_in p w' j stored"
proof (cases "w' = w")
  case True
  with inv k opn show ?thesis
    by (simp add: opened_def position_in_def)
next
  case False
  then obtain minimum_balance :: "nat \<Rightarrow> u64" and d where j: "w j = empty_account R"
    and owner: "owner \<noteq> j" "ac_owner (w owner) = rt_system_program R"
    and zero: "pa_staked stored = 0" "pa_entry_index stored = 0" "pa_reward stored = 0"
    and w': "w' = (set_lamports owner (ac_lamports (w owner) - minimum_balance 98) w)
                (j := \<lparr>ac_lamports = minimum_balance 98, ac_owner = p, ac_data = d\<rparr>)"
    using opn unfolding opened_def by blast
  have stored: "pa_operator stored = k" "position_read d = Inr stored"
    using opn by (simp_all add: opened_def w')
  have sys: "rt_system_program R \<noteq> p"
    using ok by (auto simp: runtime_ok_def)
  have fresh: "ac_owner (w j) \<noteq> p"
    using j sys by (simp add: empty_account_def)
  then have kj: "k \<noteq> j" and ko: "k \<noteq> owner"
    using k owner(2) sys by (auto simp: operator_in_def)
  have new: "position_in p w' j stored"
    using stored by (simp add: w' position_in_def)
  have same: "ac_owner (w' i) = ac_owner (w i)" "ac_data (w' i) = ac_data (w i)" if "i \<noteq> j" for i
    using that by (simp_all add: w')
  have ops: "operator_in p w' i a \<longleftrightarrow> operator_in p w i a" for i a
    using same [of i] fresh in_exclusive(2) [OF new] by (cases "i = j") (auto simp: operator_in_def)
  have pos: "position_in p w' i q \<longleftrightarrow> position_in p w i q" if "i \<noteq> j" for i q
    using same [OF that] by (simp add: position_in_def)
  have set: "positions_of p w' k = insert j (positions_of p w k)"
    using new stored(1) pos unfolding positions_of_def by auto metis
  have "covered p rent w' k acc" if "k \<notin> except"
  proof (rule coveredE [OF chain_invD(1) [OF inv k that]])
    fix ks funded paid
    assume ks: "distinct ks" "set ks = positions_of p w k"
      and sol: "pool.solvent (operator_pool acc) (map (position_at w) ks) funded paid"
      and le: "unat (rent 106) + unat (oa_bond acc) + unat (oa_pool_staked acc) + funded
        \<le> unat (ac_lamports (w k)) + paid" "oa_bond acc \<noteq> 0 \<Longrightarrow> funded = 0"
    have "j \<notin> set ks"
      using fresh ks(2) by (auto simp: positions_of_def position_in_def)
    then have "position_at w' i = position_at w i" if "i \<in> set ks" for i
      using that same(2) [of i] by (cases "i = j") (auto simp: position_at_def)
    then have "map (position_at w') (ks @ [j]) = map (position_at w) ks @ [position_of stored]"
      using position_at_in [OF new] by simp
    moreover have "pool.solvent (operator_pool acc) (map (position_at w) ks @ [position_of stored]) funded paid"
      using zero by (intro pool.solvent_open [OF sol]) (simp_all add: position_of_def owed_def)
    ultimately have sol': "pool.solvent (operator_pool acc) (map (position_at w') (ks @ [j])) funded paid"
      by (simp only:)
    show ?thesis
    proof (rule coveredI [OF _ _ sol'])
      show "unat (rent 106) + unat (oa_bond acc) + unat (oa_pool_staked acc) + funded
          \<le> unat (ac_lamports (w' k)) + paid"
        using le(1) kj ko by (simp add: w')
    qed (use ks \<open>j \<notin> set ks\<close> set le(2) in auto)
  qed
  moreover have "operator_in p w' k acc"
    using k ops by simp
  moreover have "ac_lamports (w i) \<le> ac_lamports (w' i)" if "i \<noteq> k" "operator_in p w i a" for i a
    using that fresh owner(2) sys by (auto simp: w' operator_in_def)
  moreover have "position_in p w' i q \<longleftrightarrow> position_in p w i q" if "pa_operator q \<noteq> k" for i q
    using that pos [of i q] fresh new stored(1) in_unique(2) by (cases "i = j") (auto simp: position_in_def)
  ultimately have "chain_inv p rent except w'"
    using ops by (intro chain_inv_touch [OF inv, of k w' acc]) auto
  with k ops new show ?thesis by simp
qed

lemma stake_covers:
  assumes inv: "chain_inv p rent except w" and ok: "runtime_ok R p" and keys: "keys_ok accounts"
    and run: "stake R p accounts amount w = Inr w'"
  shows "chain_inv p rent except w'"
  using ok keys run
proof (rule stake_Inr, goal_cases)
  case (1 owner operator_info position_info system rest acc stored pl position d e w1)
  let ?k = "ai_key operator_info" and ?j = "ai_key position_info" and ?o = "ai_key owner"
  have k: "operator_in p w ?k acc"
    using 1(3,4) by (simp add: operator_in_def)
  have inv1: "chain_inv p rent except w1" and old: "operator_in p w1 ?k acc" "position_in p w1 ?j stored"
    using opened_covers [OF inv ok k 1(5)] by simp_all
  then have ne: "?j \<noteq> ?k"
    using in_exclusive by metis
  have sys: "rt_system_program R \<noteq> p"
    using ok by (auto simp: runtime_ok_def)
  then have ok': "?o \<noteq> ?k" and oj: "?o \<noteq> ?j"
    using 1(9) old by (auto simp: operator_in_def position_in_def)
  have stored: "pa_operator stored = ?k"
    using 1(5) by (simp add: opened_def)
  have new: "operator_in p w' ?k (operator_set_pool acc pl)" "position_in p w' ?j (set_position stored position)"
    using old 1(7,8) ne by (simp_all add: operator_in_def position_in_def 1(12))
  have room: "unat (ac_lamports (w1 ?k)) + unat amount < 2 ^ 64"
    using 1(11) ok' by simp
  have fits: "pool_total (operator_pool acc) + unat amount < 2 ^ 64" if "?k \<notin> except"
    using covered_staked [OF chain_invD(1) [OF inv1 old(1) that]] room by simp
  then have staked: "unat (p_staked pl) = unat (oa_pool_staked acc) + unat amount" if "?k \<notin> except"
    using that 1(6) by (auto simp: pool_stake_def Let_def unat_add_bounded split: if_splits)
  show ?case
  proof (rule chain_inv_position [OF inv1 old stored new, where v = 0])
    show "pool.solvent (operator_pool (operator_set_pool acc pl)) (qs[i := position_of (set_position stored position)])
        funded (paid + 0)"
      if "?k \<notin> except" "i < length qs" "qs ! i = position_of stored" "pool.solvent (operator_pool acc) qs funded paid"
      for qs i funded paid
      using that pool.solvent_stake [OF that(4,2) _ fits [OF that(1)], of pl position] 1(6) by simp
    show "unat (oa_pool_staked (operator_set_pool acc pl)) + unat (ac_lamports (w1 ?k))
        \<le> unat (oa_pool_staked acc) + unat (ac_lamports (w' ?k)) + 0" if "?k \<notin> except"
      using ok' room staked [OF that] by (simp add: 1(12) operator_set_pool_def unat_add_bounded)
    show "ac_lamports (w1 i) \<le> ac_lamports (w' i)" if "i \<noteq> ?k" "operator_in p w1 i a" for i a
      using that 1(9) sys by (cases "i = ?o") (auto simp: 1(12) operator_in_def)
  qed (use stored 1(12) in auto)
qed

lemma register_covers:
  assumes inv: "chain_inv p rent except w" and ok: "runtime_ok R p" "rt_rent R = Inr rent"
    and keys: "keys_ok accounts" "length signing_key = 32"
    and fits: "ai_key (accounts ! 1) \<notin> except \<Longrightarrow> unat (rent 106) + unat bond < 2 ^ 64"
    and run: "register R p accounts signing_key bond w = Inr w'"
  shows "chain_inv p rent except w'"
  using ok(1) keys run
proof (rule register_Inr, goal_cases)
  case (1 authority operator_info system rest minimum_balance bump d)
  let ?k = "ai_key operator_info" and ?o = "ai_key authority"
  let ?acc = "\<lparr>oa_authority = ?o, oa_signing_key = signing_key, oa_bond = bond, oa_pool_staked = 0,
    oa_reward_index = 0, oa_unbond_at = 0, oa_bump = bump\<rparr>"
  have rent: "minimum_balance = rent"
    using 1(5) ok(2) by simp
  have sys: "rt_system_program R \<noteq> p"
    using ok(1) by (auto simp: runtime_ok_def)
  have fresh: "ac_owner (w ?k) \<noteq> p"
    using 1(6) sys by (simp add: empty_account_def)
  have none: "pa_operator q \<noteq> ?k" if "position_in p w i q" for i q
    using chain_invD(2) [OF inv that] fresh by (auto simp: operator_in_def)
  have new: "operator_in p w' ?k ?acc"
    using 1(11) by (simp add: 1(10) operator_in_def)
  have same: "ac_owner (w' i) = ac_owner (w i)" "ac_data (w' i) = ac_data (w i)" if "i \<noteq> ?k" for i
    using that by (simp_all add: 1(10))
  have pos: "position_in p w' i q \<longleftrightarrow> position_in p w i q" for i q
    using same [of i] fresh in_exclusive(1) [OF new] by (cases "i = ?k") (auto simp: position_in_def)
  have at: "accounts ! 1 = operator_info"
    using 1(1) by simp
  have cov: "covered p rent w' ?k ?acc" if "?k \<notin> except"
  proof (rule coveredI [of "[]" _ _ _ _ 0 0])
    show "set [] = positions_of p w' ?k"
      using none pos by (simp add: positions_of_def)
    show "pool.solvent (operator_pool ?acc) (map (position_at w') []) 0 0"
      by (simp add: pool.solvent_def operator_pool_def)
    show "unat (rent 106) + unat (oa_bond ?acc) + unat (oa_pool_staked ?acc) + 0
        \<le> unat (ac_lamports (w' ?k)) + 0"
      using fits [unfolded at, OF that] by (simp add: 1(10) rent unat_add_bounded)
  qed simp_all
  show ?case
  proof (rule chain_inv_touch [OF inv _ _ _ new cov])
    show "ac_lamports (w i) \<le> ac_lamports (w' i)" if "i \<noteq> ?k" "operator_in p w i a" for i a
      using that 1(8) sys by (auto simp: 1(10) operator_in_def)
    show "operator_in p w' i a \<longleftrightarrow> operator_in p w i a" if "i \<noteq> ?k" for i a
      using same [OF that] by (simp add: operator_in_def)
    show "position_in p w' i q \<longleftrightarrow> position_in p w i q" for i q
      by (rule pos)
  qed
qed

lemma distribute_sum:
  assumes "distribute pl (split_of x) = (pl', s)"
  shows "unat (sp_burn s) + unat (sp_victim s) + unat (sp_pool s) = unat x"
    and "p_staked pl' = p_staked pl" and "sp_pool s = sp_pool (split_of x) \<or> sp_pool s = 0"
proof -
  have "unat (sp_burn (split_of x)) + unat (sp_pool (split_of x)) < 2 ^ 64"
    using split_of_sum [of x] unat_u64_less [of x] by simp
  then show "unat (sp_burn s) + unat (sp_victim s) + unat (sp_pool s) = unat x"
    using assms split_of_sum [of x]
    by (auto simp: distribute_def without_pool_def unat_add_bounded split: if_splits)
  show "p_staked pl' = p_staked pl" "sp_pool s = sp_pool (split_of x) \<or> sp_pool s = 0"
    using assms by (auto simp: distribute_def without_pool_def split: if_splits)
qed

lemma convict_covers:
  assumes inv: "chain_inv p rent except w" and ok: "runtime_ok R p"
    and k: "length (ai_key operator_info) = 32" "operator_in p w (ai_key operator_info) acc" "operator_shape acc"
    and ev: "equivocation_check a b = Inr evidence"
    and run: "convict R p accuser operator_info conviction_info burn_to system acc evidence w = Inr w'"
  shows "chain_inv p rent except w'"
  using ok k(1,3) ev run
proof (rule convict_Inr, goal_cases)
  case (1 minimum_balance bump slot pl applied c d w1 w2)
  let ?k = "ai_key operator_info" and ?c = "ai_key conviction_info" and ?o = "ai_key accuser"
  let ?acc = "operator_set_pool (acc\<lparr>oa_bond := 0\<rparr>) pl"
  have sys: "rt_system_program R \<noteq> p"
    using ok by (auto simp: runtime_ok_def)
  have ne: "?k \<noteq> ?c" "?k \<noteq> ?o"
    using k(2) 1(2,9) sys by (auto simp: operator_in_def)
  note pay1 = pay_out_effect [OF 1(14)] and pay2 = pay_out_effect [OF 1(15)]
  have new: "operator_in p w' ?k ?acc"
    using k(2) 1(12) ne by (simp add: operator_in_def pay1(1,2) pay2(1,2) 1(13))
  have same: "ac_owner (w' i) = ac_owner (w i)" "ac_data (w' i) = ac_data (w i)"
    if "i \<noteq> ?k" "i \<noteq> ?c" for i
    using that by (simp_all add: pay1(1,2) pay2(1,2) 1(13))
  have con: "ac_owner (w' ?c) = p" "conviction_read (ac_data (w' ?c)) = Inr
      \<lparr>ca_operator = ?k, ca_wronged = wronged_signature evidence,
       ca_wronged_tx_hash = wronged_tx_hash evidence, ca_slashed = oa_bond acc,
       ca_owed_to_victim = sp_victim applied, ca_slot = slot, ca_bump = bump\<rparr>"
    using 1(11) ne by (simp_all add: pay1(1,2) pay2(1,2) 1(13))
  have pos: "position_in p w' i q \<longleftrightarrow> position_in p w i q" for i q
    using same [of i] in_exclusive(1) [OF k(2)] in_exclusive(1) [OF new] 1(2) sys tag_exclusive(6) [OF con(2)]
    by (cases "i = ?k"; cases "i = ?c") (auto simp: position_in_def)
  have ops: "operator_in p w' i x \<longleftrightarrow> operator_in p w i x" if "i \<noteq> ?k" for i x
    using that same [of i] 1(2) sys tag_exclusive(5) [OF con(2)]
    by (cases "i = ?c") (auto simp: operator_in_def)
  have lam: "ac_lamports (w i) \<le> ac_lamports (w' i)" if "i \<noteq> ?k" "operator_in p w i x" for i x
  proof -
    have "i \<noteq> ?c" "i \<noteq> ?o"
      using that 1(2,9) sys by (auto simp: operator_in_def)
    then have "ac_lamports (w i) = ac_lamports (w1 i)"
      by (simp add: 1(13))
    also have "\<dots> \<le> ac_lamports (w' i)"
      using pay1(3) pay2(3) that(1) order_trans by blast
    finally show ?thesis .
  qed
  have paid_out: "unat (ac_lamports (w ?k)) \<le>
      unat (ac_lamports (w' ?k)) + unat (sp_burn applied) + unat (sp_victim applied)"
    using pay1(4) pay2(4) ne by (simp add: 1(13))
  note sum = distribute_sum [OF 1(4)]
  have "covered p rent w' ?k ?acc" if "?k \<notin> except"
  proof (rule coveredE [OF chain_invD(1) [OF inv k(2) that]])
    fix ks funded paid
    assume ks: "distinct ks" "set ks = positions_of p w ?k"
      and sol: "pool.solvent (operator_pool acc) (map (position_at w) ks) funded paid"
      and le: "unat (rent 106) + unat (oa_bond acc) + unat (oa_pool_staked acc) + funded
        \<le> unat (ac_lamports (w ?k)) + paid" "oa_bond acc \<noteq> 0 \<Longrightarrow> funded = 0"
    have zero: "funded = 0" "paid = 0"
      using le(2) 1(3) solvent_paid [OF sol] by simp_all
    have "pool.solvent pl (map (position_at w) ks) (funded + split_pool applied) paid"
      using 1(4) unat_u64_less [of "sp_pool (split_of (oa_bond acc))"] zero
      by (intro pool.solvent_distribute [OF sol]) simp_all
    moreover have "map (position_at w') ks = map (position_at w) ks"
      using positions_of_frame(2) [OF pos] ks(2) by simp
    ultimately have sol': "pool.solvent (operator_pool ?acc) (map (position_at w') ks) (split_pool applied) 0"
      using zero by (simp only: pool_views add_0)
    show ?thesis
    proof (rule coveredI [OF ks(1) _ sol'])
      show "set ks = positions_of p w' ?k"
        using ks(2) positions_of_frame(1) [OF pos] by simp
      show "unat (rent 106) + unat (oa_bond ?acc) + unat (oa_pool_staked ?acc) + split_pool applied
          \<le> unat (ac_lamports (w' ?k)) + 0"
        using le(1) paid_out sum(1,2) zero by (simp add: operator_set_pool_def)
    qed simp
  qed
  with inv ops lam pos new show ?case
    by (intro chain_inv_touch [of p rent except w ?k w' ?acc])
qed

lemma prove_equivocation_covers:
  assumes "chain_inv p rent except w" "runtime_ok R p" "keys_ok accounts"
    and "prove_equivocation R p accounts w = Inr w'"
  shows "chain_inv p rent except w'"
  using assms(3,4)
proof (rule prove_equivocation_Inr, goal_cases)
  case (1 accuser operator_info conviction_info burn_to sysvar system rest acc evidence)
  obtain a b where ev: "equivocation_check a b = Inr evidence"
    using 1(8) by (rule proven_evidence_Inr)
  have k: "operator_in p w (ai_key operator_info) acc"
    using 1(5,6) by (simp add: operator_in_def)
  show ?case
    by (rule convict_covers [OF assms(1,2) 1(4) k 1(7) ev 1(9)])
qed

lemma claim_victim_covers:
  assumes inv: "chain_inv p rent except w" and run: "claim_victim R p accounts wire w = Inr w'"
  shows "chain_inv p rent except w'"
  using run
proof (rule claim_victim_Inr, goal_cases)
  case (1 claimant conviction_info rest conviction d w1)
  let ?c = "ai_key conviction_info"
  note pay = pay_out_effect [OF 1(9)]
  have same: "operator_in p w' i = operator_in p w i" "position_in p w' i = position_in p w i" for i
    using tag_exclusive(5,6) [OF 1(4)] tag_exclusive(5,6) [OF 1(7)]
    by (cases "i = ?c"; simp add: operator_in_def position_in_def pay(1,2) 1(8) fun_eq_iff)+
  show ?case
  proof (rule chain_inv_frame [OF inv])
    show "ac_lamports (w i) \<le> ac_lamports (w' i)" if "operator_in p w i a" for i a
    proof -
      have "i \<noteq> ?c"
        using that tag_exclusive(5) [OF 1(4)] by (auto simp: operator_in_def)
      then show ?thesis
        using pay(3) [of i] by (simp add: 1(8))
    qed
  qed (simp_all add: same)
qed

lemma operator_update_covers:
  assumes inv: "chain_inv p rent except w" and k: "operator_in p w k acc" "operator_in p w' k acc'"
    and same: "\<And>j. ac_owner (w' j) = ac_owner (w j)" "\<And>j. j \<noteq> k \<Longrightarrow> ac_data (w' j) = ac_data (w j)"
    and lam: "\<And>j. j \<noteq> k \<Longrightarrow> ac_lamports (w j) \<le> ac_lamports (w' j)"
    and pool: "operator_pool acc' = operator_pool acc"
    and lam_k: "unat (oa_bond acc') + unat (ac_lamports (w k)) \<le> unat (oa_bond acc) + unat (ac_lamports (w' k))"
    and bond: "oa_bond acc = 0 \<Longrightarrow> oa_bond acc' = 0"
  shows "chain_inv p rent except w'"
proof -
  have pos: "position_in p w' i q \<longleftrightarrow> position_in p w i q" for i q
  proof (cases "i = k")
    case True
    with k show ?thesis
      using in_exclusive(1) by blast
  next
    case False
    with same show ?thesis
      by (simp add: position_in_def)
  qed
  have "covered p rent w' k acc'" if "k \<notin> except"
    by (rule covered_frame [OF chain_invD(1) [OF inv k(1) that] pos pool lam_k bond])
  then show ?thesis
    using lam same by (intro chain_inv_touch [OF inv _ _ pos k(2)]) (simp_all add: operator_in_def)
qed

lemma begin_unbond_covers:
  assumes inv: "chain_inv p rent except w" and run: "begin_unbond R p accounts w = Inr w'"
  shows "chain_inv p rent except w'"
  using run
proof (rule begin_unbond_Inr, goal_cases)
  case (1 authority operator_info rest acc)
  let ?k = "ai_key operator_info"
  have old: "operator_in p w ?k acc"
    using 1(3,4) by (simp add: operator_in_def)
  show ?case
    using 1(7)
  proof (elim disjE conjE exE)
    fix slot d
    assume w': "w' = set_data ?k d w" and d: "operator_read d = Inr (acc\<lparr>oa_unbond_at := slot + UNBOND_SLOTS\<rparr>)"
    have "operator_in p w' ?k (acc\<lparr>oa_unbond_at := slot + UNBOND_SLOTS\<rparr>)"
      using 1(3) d by (simp add: operator_in_def w')
    then show ?case
      by (rule operator_update_covers [OF inv old]) (simp_all add: w')
  qed (use inv in simp)
qed

lemma withdraw_bond_covers:
  assumes inv: "chain_inv p rent except w" and run: "withdraw_bond R p accounts w = Inr w'"
  shows "chain_inv p rent except w'"
  using run
proof (rule withdraw_bond_Inr, goal_cases)
  case (1 authority operator_info rest acc slot d w1)
  let ?k = "ai_key operator_info" and ?acc = "acc\<lparr>oa_bond := 0, oa_unbond_at := 0\<rparr>"
  note pay = pay_out_effect [OF 1(11)]
  have "operator_in p w ?k acc" "operator_in p w' ?k ?acc"
    using 1(3,4,9) by (simp_all add: operator_in_def pay(1,2) 1(10))
  then show ?case
  proof (rule operator_update_covers [OF inv])
    show "unat (oa_bond ?acc) + unat (ac_lamports (w ?k)) \<le> unat (oa_bond acc) + unat (ac_lamports (w' ?k))"
      using pay(4) by (simp add: 1(10))
    show "ac_lamports (w i) \<le> ac_lamports (w' i)" if "i \<noteq> ?k" for i
      using pay(3) [OF that] by (simp add: 1(10))
  qed (simp_all add: pay(1,2) 1(10))
qed

lemma process_covers:
  assumes inv: "chain_inv p rent except w" and ok: "runtime_ok R p" "rt_rent R = Inr rent" "keys_ok accounts"
    and fits: "bond_overflows rent (accounts, data) \<Longrightarrow> ai_key (accounts ! 1) \<in> except" and run: "process R p accounts data w = Inr w'"
  shows "chain_inv p rent except w'"
proof -
  obtain i where i: "instruction_read data = Inr i" "instruction_shape i"
    and run: "process_instruction R p accounts i w = Inr w'"
    using run by (rule process_Inr)
  show ?thesis
  proof (cases i)
    case (Register key bond)
    with i run fits show ?thesis
      using register_covers [OF inv ok] by (auto simp: instruction_shape_def not_le [symmetric])
  qed (use run in \<open>auto intro: stake_covers [OF inv ok(1,3)] unstake_covers [OF inv] claim_covers [OF inv]
      prove_equivocation_covers [OF inv ok(1,3)] claim_victim_covers [OF inv] begin_unbond_covers [OF inv]
      withdraw_bond_covers [OF inv]\<close>)
qed

lemma zero_data_reads_nothing:
  assumes "set d \<subseteq> {0}"
  shows "operator_read d \<noteq> Inr acc" "position_read d \<noteq> Inr q"
proof -
  have zero: "d ! 0 = 0" if "Suc n \<le> length d" for n
    using assms that nth_mem [of 0 d] by fastforce
  show "operator_read d \<noteq> Inr acc"
    using zero [of 105]
    by (auto simp: operator_read_def result_simps get_range_Some subslice_def OPERATOR_TAG_def)
  show "position_read d \<noteq> Inr q"
    using zero [of 97]
    by (auto simp: position_read_def result_simps get_range_Some subslice_def POSITION_TAG_def)
qed

lemma elsewhere_covers:
  assumes inv: "chain_inv p rent except w"
    and "elsewhere p w w'"
  shows "chain_inv p rent except w'"
proof (rule chain_inv_frame [OF inv])
  have own: "ac_owner (w k) = p \<Longrightarrow>
      ac_owner (w' k) = p \<and> ac_data (w' k) = ac_data (w k) \<and> ac_lamports (w k) \<le> ac_lamports (w' k)"
    and new: "ac_owner (w k) \<noteq> p \<Longrightarrow> ac_owner (w' k) = p \<Longrightarrow> set (ac_data (w' k)) \<subseteq> {0}" for k
    using assms(2) unfolding elsewhere_def by blast+
  show "operator_in p w' j a \<longleftrightarrow> operator_in p w j a" for j a
    using own [of j] new [of j] zero_data_reads_nothing(1) [of "ac_data (w' j)" a]
    by (cases "ac_owner (w j) = p") (auto simp: operator_in_def)
  show "position_in p w' j q \<longleftrightarrow> position_in p w j q" for j q
    using own [of j] new [of j] zero_data_reads_nothing(2) [of "ac_data (w' j)" q]
    by (cases "ac_owner (w j) = p") (auto simp: position_in_def)
  show "ac_lamports (w j) \<le> ac_lamports (w' j)" if "operator_in p w j a" for j a
    using own [of j] that by (simp add: operator_in_def)
qed

lemma chain_inv_reachable: "chain_reachable p rent log w \<Longrightarrow> chain_inv p rent (overbonded rent log) w"
proof (induction rule: chain_reachable.induct)
  case (Before w)
  then show ?case
    by (intro chain_invI) (auto simp: operator_in_def position_in_def)
next
  case (Ran log w R accounts data w')
  show ?case
    by (rule process_covers [OF chain_inv_mono [OF Ran.IH overbonded_snoc(1)] Ran.hyps(2-4) overbonded_snoc(2) Ran.hyps(5)])
next
  case (Meanwhile log w w')
  show ?case
    by (rule elsewhere_covers [OF Meanwhile.IH Meanwhile.hyps(2)])
qed

lemma chain_reachable_covered:
  "chain_reachable p rent log w \<Longrightarrow> operator_in p w k acc \<Longrightarrow> k \<notin> overbonded rent log \<Longrightarrow> covered p rent w k acc"
  by (rule chain_invD(1) [OF chain_inv_reachable])

section \<open>What the cover means\<close>

definition staked_at :: "world \<Rightarrow> pubkey \<Rightarrow> nat" where
  "staked_at w j = unat (q_staked (position_at w j))"

definition claimable_at :: "world \<Rightarrow> operator_account \<Rightarrow> pubkey \<Rightarrow> nat" where
  "claimable_at w acc j = unat (claimable (position_at w j) (oa_reward_index acc))"

lemma covered_sum:
  assumes "covered p rent w k acc"
  shows "finite (positions_of p w k)"
    and "(\<Sum>j \<in> positions_of p w k. staked_at w j) = unat (oa_pool_staked acc)"
    and "unat (rent 106) + unat (oa_bond acc) + unat (oa_pool_staked acc) +
      (\<Sum>j \<in> positions_of p w k. claimable_at w acc j) \<le> unat (ac_lamports (w k))"
  using assms
proof (atomize (full), rule coveredE)
  fix ks funded paid
  assume ks: "distinct ks" "set ks = positions_of p w k"
    and sol: "pool.solvent (operator_pool acc) (map (position_at w) ks) funded paid"
    and le: "unat (rent 106) + unat (oa_bond acc) + unat (oa_pool_staked acc) + funded
      \<le> unat (ac_lamports (w k)) + paid"
  have "finite (positions_of p w k)"
    using ks(2) by (metis List.finite_set)
  have sum: "(\<Sum>j \<in> positions_of p w k. f j) = (\<Sum>j\<leftarrow>ks. f j)" for f :: "pubkey \<Rightarrow> nat"
    using ks by (metis sum_list_distinct_conv_sum_set)
  have "(\<Sum>j\<leftarrow>ks. claimable_at w acc j) + paid \<le> funded"
    using solvent_claims [OF sol] by (simp add: claimable_at_def o_def)
  moreover have "(\<Sum>j\<leftarrow>ks. staked_at w j) = unat (oa_pool_staked acc)"
    using sol by (simp add: pool.solvent_def staked_at_def o_def)
  ultimately show "finite (positions_of p w k) \<and>
      (\<Sum>j \<in> positions_of p w k. staked_at w j) = unat (oa_pool_staked acc) \<and>
      unat (rent 106) + unat (oa_bond acc) + unat (oa_pool_staked acc) +
        (\<Sum>j \<in> positions_of p w k. claimable_at w acc j) \<le> unat (ac_lamports (w k))"
    using le \<open>finite (positions_of p w k)\<close> by (simp add: sum)
qed

lemma claimable_covered:
  assumes cov: "covered p rent w k acc" and q: "position_in p w j q" "pa_operator q = k"
  shows "unat (rent 106) + unat (oa_bond acc) + unat (oa_pool_staked acc) +
    unat (claimable (position_of q) (oa_reward_index acc)) \<le> unat (ac_lamports (w k))"
proof -
  have "j \<in> positions_of p w k"
    using q by (auto simp: positions_of_def)
  then have "claimable_at w acc j \<le> (\<Sum>j \<in> positions_of p w k. claimable_at w acc j)"
    using covered_sum(1) [OF cov] by (intro member_le_sum) simp_all
  with covered_sum(3) [OF cov] position_at_in [OF q(1)] show ?thesis
    by (simp add: claimable_at_def)
qed

lemma store_operator_ok:
  assumes "operator_read (ac_data (w k)) = Inr old" and "operator_shape acc"
  obtains d where "store_operator k acc w = Inr (set_data k d w)" and "operator_read d = Inr acc"
proof (rule operator_layout.store_total [OF assms(2,1)])
  fix d
  assume "operator_write acc (ac_data (w k)) = Inr d" "operator_read d = Inr acc"
  then show thesis
    by (intro that [of d]) (simp_all add: store_operator_def)
qed

lemma store_position_ok:
  assumes "position_read (ac_data (w k)) = Inr old" and "position_shape q"
  obtains d where "store_position k q w = Inr (set_data k d w)" and "position_read d = Inr q"
proof (rule position_layout.store_total [OF assms(2,1)])
  fix d
  assume "position_write q (ac_data (w k)) = Inr d" "position_read d = Inr q"
  then show thesis
    by (intro that [of d]) (simp_all add: store_position_def)
qed

lemma pay_out_from_operator_ok:
  assumes rent: "rt_rent R = Inr rent"
    and floor: "unat (rent 106) + unat (oa_bond acc) + unat (oa_pool_staked acc) + unat amount
      \<le> unat (ac_lamports (w (ai_key from)))"
    and room: "ai_key from \<noteq> ai_key to" "unat (ac_lamports (w (ai_key to))) + unat amount < 2 ^ 64"
  shows "pay_out_from_operator R from acc to amount w = Inr (move_lamports (ai_key from) (ai_key to) amount w)"
proof -
  let ?l = "ac_lamports (w (ai_key from))"
  have "unat (rent 106 + oa_bond acc) = unat (rent 106) + unat (oa_bond acc)"
    using floor unat_u64_less [of ?l] by (intro unat_add_bounded) simp
  then have "unat (rent 106 + oa_bond acc + oa_pool_staked acc) =
      unat (rent 106) + unat (oa_bond acc) + unat (oa_pool_staked acc)"
    using floor unat_u64_less [of ?l] by (subst unat_add_bounded) simp_all
  moreover have "amount \<le> ?l"
    using floor by (simp add: word_le_nat_alt)
  ultimately have "\<not> ?l - amount < reserved R acc"
    using floor rent by (simp add: reserved_def word_less_nat_alt unat_minus_le)
  then show ?thesis
    using room \<open>amount \<le> ?l\<close>
    by (simp add: pay_out_from_operator_def pay_out_def checked_sub_def checked_add_def
        move_lamports_def Let_def)
qed

end
