(* ===== verification/Stakers.thy ===== *)
theory Stakers
  imports Coverage Demo_Chain
begin

text \<open>
  What the cover of the operator account means to the people staked in it: their stakes and rewards
  are in the account at all times, and the program never refuses to pay them out.
\<close>

lemma unstake_ok:
  assumes cov: "covered p rent w k acc" and rent: "rt_rent R = Inr rent"
    and k: "operator_in p w k acc" and j: "position_in p w j q" "pa_operator q = k" "pa_owner q = staker"
    and ne: "staker \<noteq> k" and room: "unat (ac_lamports (w staker)) + unat (ac_lamports (w k)) < 2 ^ 64"
    and amount: "amount \<le> pa_staked q"
  shows "\<exists>w'. unstake R p [\<lparr>ai_key = staker, ai_is_signer = True\<rparr>, \<lparr>ai_key = k, ai_is_signer = s\<rparr>,
      \<lparr>ai_key = j, ai_is_signer = t\<rparr>] amount w = Inr w' \<and>
    ac_lamports (w' staker) = ac_lamports (w staker) + amount"
proof -
  have jk: "j \<noteq> k"
    using in_exclusive k j(1) by metis
  have "\<not> q_staked (position_of q) < amount"
    using amount by (simp add: position_of_def not_less)
  then obtain pl q' where pl: "pool_unstake (operator_pool acc) (position_of q) amount = Inr (pl, q', amount)"
    and staked: "p_staked pl = oa_pool_staked acc - amount"
    by (simp add: pool_unstake_def Let_def)
  have "q_staked (position_of q) \<le> oa_pool_staked acc"
    using covered_position [OF cov j(1,2)] by (simp add: word_le_nat_alt)
  then have le: "amount \<le> oa_pool_staked acc"
    using amount by (simp add: position_of_def)
  let ?acc = "operator_set_pool acc pl"
  obtain d where d: "store_operator k ?acc w = Inr (set_data k d w)"
    using k operator_read_shape store_operator_ok shape_updates(3) unfolding operator_in_def by metis
  have "position_read (ac_data (set_data k d w j)) = Inr q"
    using j(1) jk by (simp add: position_in_def)
  then obtain e where e: "store_position j (set_position q q') (set_data k d w) = Inr (set_data j e (set_data k d w))"
    using store_position_ok position_read_shape shape_updates(4) by metis
  let ?w = "set_data j e (set_data k d w)"
  have sum: "unat (rent 106) + unat (oa_bond acc) + unat (oa_pool_staked acc) \<le> unat (ac_lamports (w k))"
    using covered_sum(3) [OF cov] by linarith
  have "unat amount \<le> unat (ac_lamports (w k))"
    using sum le by (simp add: word_le_nat_alt)
  then have pay: "pay_out_from_operator R \<lparr>ai_key = k, ai_is_signer = s\<rparr> ?acc \<lparr>ai_key = staker, ai_is_signer = True\<rparr>
      amount ?w = Inr (move_lamports k staker amount ?w)"
    using sum room ne le staked
    by (subst pay_out_from_operator_ok [OF rent])
      (auto simp: operator_set_pool_def unat_minus_le word_le_nat_alt)
  show ?thesis
    using k j pl d e pay ne
    by (simp add: unstake_def owned_by_def load_operator_def load_position_def operator_in_def
        position_in_def Let_def)
qed

lemma claim_ok:
  assumes cov: "covered p rent w k acc" and rent: "rt_rent R = Inr rent"
    and k: "operator_in p w k acc" and j: "position_in p w j q" "pa_operator q = k" "pa_owner q = staker"
    and ne: "staker \<noteq> k" and room: "unat (ac_lamports (w staker)) + unat (ac_lamports (w k)) < 2 ^ 64"
  shows "\<exists>w'. claim R p [\<lparr>ai_key = staker, ai_is_signer = True\<rparr>, \<lparr>ai_key = k, ai_is_signer = s\<rparr>,
      \<lparr>ai_key = j, ai_is_signer = t\<rparr>] w = Inr w' \<and>
    ac_lamports (w' staker) = ac_lamports (w staker) + claimable (position_of q) (oa_reward_index acc)"
proof -
  let ?v = "claimable (position_of q) (oa_reward_index acc)"
  note sum = claimable_covered [OF cov j(1,2)]
  obtain q' where cl: "pool_claim (operator_pool acc) (position_of q) = (q', ?v)"
    by (simp add: pool_claim_def Let_def)
  have jk: "j \<noteq> k"
    using in_exclusive k j(1) by metis
  have "position_read (ac_data (w j)) = Inr q"
    using j(1) by (simp add: position_in_def)
  then obtain e where e: "store_position j (set_position q q') w = Inr (set_data j e w)"
    using store_position_ok position_read_shape shape_updates(4) by metis
  have pay: "pay_out_from_operator R \<lparr>ai_key = k, ai_is_signer = s\<rparr> acc \<lparr>ai_key = staker, ai_is_signer = True\<rparr>
      ?v (set_data j e w) = Inr (move_lamports k staker ?v (set_data j e w))"
    using sum room ne by (subst pay_out_from_operator_ok [OF rent]) auto
  show ?thesis
    using k j cl e pay ne
    by (simp add: claim_def owned_by_def load_operator_def load_position_def operator_in_def
        position_in_def Let_def)
qed

section \<open>Properties\<close>

text \<open>
  C3. In every state the chain can reach, with any instructions of the program interleaved with
  anything else, the balance of an operator account covers rent, the bond, the stakes of every
  position that points at it and everything those positions can claim; and the stakes add up to the
  stake the operator account records. The exception is an operator that registered with a bond that
  overflows together with the rent; one such operator takes nothing from the cover of the others.
\<close>
theorem stakers_always_covered:
  assumes "chain_reachable p rent log w" and "operator_in p w k acc" and "k \<notin> overbonded rent log"
  shows "finite (positions_of p w k) \<and>
    (\<Sum>j \<in> positions_of p w k. staked_at w j) = unat (oa_pool_staked acc) \<and>
    unat (rent 106) + unat (oa_bond acc) +
      (\<Sum>j \<in> positions_of p w k. staked_at w j + claimable_at w acc j) \<le> unat (ac_lamports (w k))"
  using covered_sum [OF chain_reachable_covered [OF assms]]
  by (simp add: sum.distrib add.assoc)

text \<open>
  C9. A staker is never refused: in every reachable state, whatever part of the stake of a
  position its owner asks back is paid in full, and so is everything the position can claim,
  provided the owner's own balance does not overflow and the operator's bond and rent did not when it
  registered.
\<close>
theorem stakers_never_refused:
  assumes "chain_reachable p rent log w" and "rt_rent R = Inr rent"
    and "operator_in p w k acc" and "k \<notin> overbonded rent log" and "position_in p w j q" and "pa_operator q = k" and "pa_owner q = staker"
    and "staker \<noteq> k" and "unat (ac_lamports (w staker)) + unat (ac_lamports (w k)) < 2 ^ 64"
    and "amount \<le> pa_staked q"
  shows "(\<exists>w'. unstake R p [\<lparr>ai_key = staker, ai_is_signer = True\<rparr>, \<lparr>ai_key = k, ai_is_signer = False\<rparr>,
        \<lparr>ai_key = j, ai_is_signer = False\<rparr>] amount w = Inr w' \<and>
        ac_lamports (w' staker) = ac_lamports (w staker) + amount) \<and>
    (\<exists>w'. claim R p [\<lparr>ai_key = staker, ai_is_signer = True\<rparr>, \<lparr>ai_key = k, ai_is_signer = False\<rparr>,
        \<lparr>ai_key = j, ai_is_signer = False\<rparr>] w = Inr w' \<and>
        ac_lamports (w' staker) = ac_lamports (w staker) + claimable (position_of q) (oa_reward_index acc))"
  using unstake_ok [OF chain_reachable_covered [OF assms(1,3,4)] assms(2,3,5-10)]
    claim_ok [OF chain_reachable_covered [OF assms(1,3,4)] assms(2,3,5-9)]
  by blast

section \<open>Witnesses\<close>

definition demo_log :: "(account_info list \<times> bytes) list" where
  "demo_log =
     [([signer (key_of 1), nonsigner demo_operator, nonsigner (key_of 0)], instruction_write (Register (key_of 5) 1000)),
      ([signer (key_of 3), nonsigner demo_operator, nonsigner demo_position, nonsigner (key_of 0)], instruction_write (Stake 400))]"

lemma demo_staked_reachable: "chain_reachable (key_of 10) demo_rent demo_log demo_staked"
proof -
  have start: "chain_reachable (key_of 10) demo_rent [] demo_world"
    by (rule chain_reachable.Before) (simp add: demo_world_def world_of_def wallet_def)
  have "chain_reachable (key_of 10) demo_rent (take 1 demo_log) demo_registered"
    using chain_reachable.Ran [OF start demo_runtime_ok demo_runtime_fields(2) _ demo_registered_run]
    by (simp add: demo_log_def keys_ok_def)
  from chain_reachable.Ran [OF this demo_runtime_ok demo_runtime_fields(2) _ demo_staked_run] show ?thesis
    by (simp add: demo_log_def keys_ok_def)
qed

lemma demo_not_overbonded: "overbonded demo_rent demo_log = {}"
proof -
  have "instruction_read (instruction_write (Register (key_of 5) 1000)) = Inr (Register (key_of 5) 1000)"
    "instruction_read (instruction_write (Stake 400)) = Inr (Stake 400)"
    by (rule instruction_read_write, simp add: instruction_shape_def)+
  then show ?thesis
    by (simp add: overbonded_def demo_log_def demo_rent_def)
qed

lemma demo_staked_operator_in: "operator_in (key_of 10) demo_staked demo_operator demo_staked_operator"
  by (simp add: operator_in_def demo_staked_reads)

lemma demo_staked_position_in: "position_in (key_of 10) demo_staked demo_position demo_staked_position"
  by (simp add: position_in_def demo_staked_reads)

theorem stakers_always_covered_witness:
  "\<exists>acc. operator_in (key_of 10) demo_staked demo_operator acc \<and>
     (\<Sum>j \<in> positions_of (key_of 10) demo_staked demo_operator. staked_at demo_staked j) = 400 \<and>
     unat (oa_bond acc) = 1000 \<and> unat (oa_pool_staked acc) = 400"
  using stakers_always_covered [OF demo_staked_reachable demo_staked_operator_in] demo_not_overbonded demo_staked_operator_in
  by (intro exI [of _ demo_staked_operator]) (simp add: demo_staked_operator_def)

theorem stakers_never_refused_witness:
  "\<exists>w'. unstake (demo_runtime 9 []) (key_of 10)
     [\<lparr>ai_key = key_of 3, ai_is_signer = True\<rparr>, \<lparr>ai_key = demo_operator, ai_is_signer = False\<rparr>,
      \<lparr>ai_key = demo_position, ai_is_signer = False\<rparr>] 150 demo_staked = Inr w' \<and>
     ac_lamports (w' (key_of 3)) = ac_lamports (demo_staked (key_of 3)) + 150"
proof -
  have rent: "rt_rent (demo_runtime 9 []) = Inr demo_rent"
    by simp
  have room: "unat (ac_lamports (demo_staked (key_of 3))) + unat (ac_lamports (demo_staked demo_operator)) < 2 ^ 64"
    by (simp add: demo_staked_def world_of_def wallet_def)
  have "pa_operator demo_staked_position = demo_operator" "pa_owner demo_staked_position = key_of 3"
    "150 \<le> pa_staked demo_staked_position"
    by (simp_all add: demo_staked_position_def)
  from stakers_never_refused [OF demo_staked_reachable rent demo_staked_operator_in _ demo_staked_position_in
      this(1,2) demo_neq(4) room this(3)]
  show ?thesis
    using demo_not_overbonded by blast
qed

end
