(* ===== verification/Conviction.thy ===== *)
theory Conviction
  imports Stakers
begin

text \<open>
  What happens to an operator over time: its key and authority never change, its bond never grows
  and leaves the account in two ways only, by conviction or by a withdrawal behind the timelock; a
  conviction does exactly what the split says, and only once.
\<close>

section \<open>How an operator account evolves\<close>

definition operator_evolves :: "runtime \<Rightarrow> operator_account \<Rightarrow> operator_account \<Rightarrow> bool" where
  "operator_evolves R acc acc' \<longleftrightarrow>
     oa_authority acc' = oa_authority acc \<and> oa_signing_key acc' = oa_signing_key acc \<and>
     ((oa_bond acc' = oa_bond acc \<and> oa_unbond_at acc' = oa_unbond_at acc) \<or>
      (oa_bond acc' = 0 \<and> oa_unbond_at acc' = oa_unbond_at acc) \<or>
      (oa_bond acc' = oa_bond acc \<and> oa_unbond_at acc = 0 \<and>
        (\<exists>slot. rt_clock R = Inr slot \<and> oa_unbond_at acc' = slot + UNBOND_SLOTS)) \<or>
      (oa_bond acc' = 0 \<and> oa_unbond_at acc \<noteq> 0 \<and> oa_unbond_at acc' = 0 \<and>
        (\<exists>slot. rt_clock R = Inr slot \<and> oa_unbond_at acc \<le> slot)))"

lemma operator_evolves_refl [simp]: "operator_evolves R acc acc"
  by (simp add: operator_evolves_def)

lemma operator_evolves_pool [simp]: "operator_evolves R acc (operator_set_pool acc p)"
  by (simp add: operator_evolves_def)

lemma operator_evolves_unbond:
  assumes "rt_clock R = Inr slot" and "oa_unbond_at acc = 0"
  shows "operator_evolves R acc (acc\<lparr>oa_unbond_at := slot + UNBOND_SLOTS\<rparr>)"
  using assms by (cases acc) (simp add: operator_evolves_def)

lemma operator_in_same:
  assumes "operator_in p w k acc" "ac_owner (w' k) = ac_owner (w k)" "ac_data (w' k) = ac_data (w k)"
  shows "\<exists>acc'. operator_in p w' k acc' \<and> operator_evolves R acc acc'"
  using assms by (auto simp: operator_in_def)

lemma operator_in_new:
  assumes "operator_in p w k acc" "ac_owner (w' k) = ac_owner (w k)"
    and "operator_read (ac_data (w' k)) = Inr acc'" "operator_evolves R acc acc'"
  shows "\<exists>acc'. operator_in p w' k acc' \<and> operator_evolves R acc acc'"
  using assms by (auto simp: operator_in_def)

lemma register_evolves:
  assumes "runtime_ok R p" "keys_ok as" "length key = 32" "register R p as key bond w = Inr w'"
    and k: "operator_in p w k acc"
  shows "\<exists>acc'. operator_in p w' k acc' \<and> operator_evolves R acc acc'"
  using assms(1-4)
proof (rule register_Inr, goal_cases)
  case (1 authority operator_info system rest minimum_balance bump d)
  have "k \<noteq> ai_key operator_info"
    using k assms(1) 1(6) by (auto simp: operator_in_def empty_account_def runtime_ok_def)
  then show ?case
    by (intro operator_in_same [OF k]) (simp_all add: 1(10))
qed

lemma stake_evolves:
  assumes "runtime_ok R p" "keys_ok as" "stake R p as amount w = Inr w'" and k: "operator_in p w k acc"
  shows "\<exists>acc'. operator_in p w' k acc' \<and> operator_evolves R acc acc'"
  using assms(1-3)
proof (rule stake_Inr, goal_cases)
  case (1 owner operator_info position_info system rest acc1 stored pl position d e w1)
  let ?j = "ai_key position_info" and ?k = "ai_key operator_info"
  have sys: "rt_system_program R \<noteq> p"
    using assms(1) by (auto simp: runtime_ok_def)
  have kj: "i \<noteq> ?j" if "operator_in p w i x" for i x
    using that 1(5) sys tag_exclusive(1) by (auto simp: opened_def operator_in_def empty_account_def)
  have same: "ac_owner (w1 i) = ac_owner (w i)" "ac_data (w1 i) = ac_data (w i)" if "i \<noteq> ?j" for i
    using opened_frame [OF 1(5) that] by simp_all
  show ?case
  proof (cases "k = ?k")
    case True
    then have "acc1 = acc"
      using k 1(4) by (simp add: operator_in_def)
    with True 1(7) k kj [OF k] same [of k] show ?thesis
      by (intro operator_in_new [OF k, of _ "operator_set_pool acc pl"]) (simp_all add: 1(12))
  next
    case False
    with k kj [OF k] same [of k] show ?thesis
      by (intro operator_in_same [OF k]) (simp_all add: 1(12))
  qed
qed

lemma unstake_evolves:
  assumes "unstake R p as amount w = Inr w'" and k: "operator_in p w k acc"
  shows "\<exists>acc'. operator_in p w' k acc' \<and> operator_evolves R acc acc'"
  using assms(1)
proof (rule unstake_Inr, goal_cases)
  case (1 owner operator_info position_info rest acc1 stored pl position d e w1)
  note pay = pay_out_effect [OF 1(13)]
  have kj: "k \<noteq> ai_key position_info"
    using k 1(6) tag_exclusive(3) by (auto simp: operator_in_def)
  show ?case
  proof (cases "k = ai_key operator_info")
    case True
    then have "acc1 = acc"
      using k 1(5) by (simp add: operator_in_def)
    with True 1(10) kj show ?thesis
      by (intro operator_in_new [OF k, of _ "operator_set_pool acc pl"]) (simp_all add: pay(1,2) 1(12))
  next
    case False
    with kj show ?thesis
      by (intro operator_in_same [OF k]) (simp_all add: pay(1,2) 1(12))
  qed
qed

lemma claim_evolves:
  assumes "claim R p as w = Inr w'" and k: "operator_in p w k acc"
  shows "\<exists>acc'. operator_in p w' k acc' \<and> operator_evolves R acc acc'"
  using assms(1)
proof (rule claim_Inr, goal_cases)
  case (1 owner operator_info position_info rest acc1 stored position earned e w1)
  have "k \<noteq> ai_key position_info"
    using k 1(6) tag_exclusive(3) by (auto simp: operator_in_def)
  then show ?case
    by (intro operator_in_same [OF k]) (simp_all add: pay_out_effect [OF 1(12)] 1(11))
qed

lemma prove_equivocation_evolves:
  assumes ok: "runtime_ok R p" and "keys_ok as" "prove_equivocation R p as w = Inr w'"
    and k: "operator_in p w k acc"
  shows "\<exists>acc'. operator_in p w' k acc' \<and> operator_evolves R acc acc'"
  using assms(2,3)
proof (rule prove_equivocation_Inr, goal_cases)
  case (1 accuser operator_info conviction_info burn_to sysvar system rest acc1 evidence)
  obtain a b where ev: "equivocation_check a b = Inr evidence"
    using 1(8) by (rule proven_evidence_Inr)
  note op = 1(5,6)
  from ok 1(4,7) ev 1(9) show ?case
  proof (rule convict_Inr, goal_cases)
    case (1 minimum_balance bump slot pl applied c d w1 w2)
    have kc: "k \<noteq> ai_key conviction_info"
      using k 1(7) ok by (auto simp: operator_in_def empty_account_def runtime_ok_def)
    note pay = pay_out_effect(1,2) [OF 1(14)] pay_out_effect(1,2) [OF 1(15)]
    show ?case
    proof (cases "k = ai_key operator_info")
      case True
      then have "acc1 = acc"
        using k op(2) by (simp add: operator_in_def)
      with True 1(12) kc show ?thesis
        by (intro operator_in_new [OF k, of _ "operator_set_pool (acc\<lparr>oa_bond := 0\<rparr>) pl"])
          (simp_all add: pay 1(13), simp add: operator_evolves_def)
    next
      case False
      with kc show ?thesis
        by (intro operator_in_same [OF k]) (simp_all add: pay 1(13))
    qed
  qed
qed

lemma claim_victim_evolves:
  assumes "claim_victim R p as wire w = Inr w'" and k: "operator_in p w k acc"
  shows "\<exists>acc'. operator_in p w' k acc' \<and> operator_evolves R acc acc'"
  using assms(1)
proof (rule claim_victim_Inr, goal_cases)
  case (1 claimant conviction_info rest conviction d w1)
  have "k \<noteq> ai_key conviction_info"
    using k 1(4) tag_exclusive(5) by (auto simp: operator_in_def)
  then show ?case
    by (intro operator_in_same [OF k]) (simp_all add: pay_out_effect [OF 1(9)] 1(8))
qed

lemma begin_unbond_evolves:
  assumes "begin_unbond R p as w = Inr w'" and k: "operator_in p w k acc"
  shows "\<exists>acc'. operator_in p w' k acc' \<and> operator_evolves R acc acc'"
  using assms(1)
proof (rule begin_unbond_Inr, goal_cases)
  case (1 authority operator_info rest acc1)
  show ?case
  proof (cases "k = ai_key operator_info \<and> oa_unbond_at acc1 = 0")
    case True
    then obtain slot d where clock: "rt_clock R = Inr slot" and w': "w' = set_data k d w"
      and d: "operator_read d = Inr (acc1\<lparr>oa_unbond_at := slot + UNBOND_SLOTS\<rparr>)"
      using 1(7) by auto
    have acc: "acc1 = acc"
      using True k 1(4) by (simp add: operator_in_def)
    have "operator_evolves R acc1 (acc1\<lparr>oa_unbond_at := slot + UNBOND_SLOTS\<rparr>)"
      using True by (intro operator_evolves_unbond [OF clock]) simp
    then show ?thesis
      using d unfolding acc w' by (intro operator_in_new [OF k]) simp_all
  next
    case False
    with 1(7) show ?thesis
      by (intro operator_in_same [OF k]) auto
  qed
qed

lemma withdraw_bond_evolves:
  assumes "withdraw_bond R p as w = Inr w'" and k: "operator_in p w k acc"
  shows "\<exists>acc'. operator_in p w' k acc' \<and> operator_evolves R acc acc'"
  using assms(1)
proof (rule withdraw_bond_Inr, goal_cases)
  case (1 authority operator_info rest acc1 slot d w1)
  note pay = pay_out_effect(1,2) [OF 1(11)]
  show ?case
  proof (cases "k = ai_key operator_info")
    case True
    then have "acc1 = acc"
      using k 1(4) by (simp add: operator_in_def)
    with True 1 show ?thesis
      by (intro operator_in_new [OF k, of _ "acc\<lparr>oa_bond := 0, oa_unbond_at := 0\<rparr>"])
        (simp_all add: pay operator_evolves_def)
  next
    case False
    then show ?thesis
      by (intro operator_in_same [OF k]) (simp_all add: pay 1(10))
  qed
qed

lemma process_evolves:
  assumes ok: "runtime_ok R p" "keys_ok as" and run: "process R p as data w = Inr w'"
    and k: "operator_in p w k acc"
  shows "\<exists>acc'. operator_in p w' k acc' \<and> operator_evolves R acc acc'"
proof -
  obtain i where i: "instruction_shape i" and run: "process_instruction R p as i w = Inr w'"
    using run by (rule process_Inr)
  show ?thesis
    using i run
    by (cases i) (auto simp: instruction_shape_def intro: register_evolves [OF ok _ _ k]
        stake_evolves [OF ok _ k] unstake_evolves [OF _ k] claim_evolves [OF _ k]
        prove_equivocation_evolves [OF ok _ k] claim_victim_evolves [OF _ k]
        begin_unbond_evolves [OF _ k] withdraw_bond_evolves [OF _ k])
qed

end
