(* ===== verification/Slashing_Safety.thy ===== *)
theory Slashing_Safety
  imports Conviction
begin

text \<open>
  Properties of the bond over whole runs of the chain: an operator is slashed at most once, its key
  never changes, a bond leaves only by conviction or behind the timelock, and a bond past its
  timelock can be withdrawn at any time.
\<close>

section \<open>Operators over runs\<close>

lemma chain_step_evolves:
  assumes "chain_step p rent w w'" and k: "operator_in p w k acc"
  shows "\<exists>acc'. operator_in p w' k acc' \<and> oa_authority acc' = oa_authority acc \<and>
    oa_signing_key acc' = oa_signing_key acc \<and> (oa_bond acc' = oa_bond acc \<or> oa_bond acc' = 0)"
  using assms(1)
proof cases
  case (Program R accounts data)
  then obtain acc' where "operator_in p w' k acc'" "operator_evolves R acc acc'"
    using process_evolves [OF _ _ _ k] by blast
  then show ?thesis
    unfolding operator_evolves_def by blast
next
  case Elsewhere
  then have "operator_in p w' k acc"
    using k by (simp add: operator_in_def elsewhere_def)
  then show ?thesis by blast
qed

lemma chain_run_evolves:
  assumes "(chain_step p rent)\<^sup>*\<^sup>* w w'" and k: "operator_in p w k acc"
  shows "\<exists>acc'. operator_in p w' k acc' \<and> oa_authority acc' = oa_authority acc \<and>
    oa_signing_key acc' = oa_signing_key acc \<and> (oa_bond acc' = oa_bond acc \<or> oa_bond acc' = 0)"
  using assms
proof (induction rule: rtranclp_induct)
  case base
  then show ?case by blast
next
  case (step w1 w2)
  then obtain acc1 where "operator_in p w1 k acc1" "oa_authority acc1 = oa_authority acc"
    "oa_signing_key acc1 = oa_signing_key acc" "oa_bond acc1 = oa_bond acc \<or> oa_bond acc1 = 0"
    by blast
  with chain_step_evolves [OF step.hyps(2)] show ?case
    by metis
qed

lemma prove_equivocation_needs_bond:
  assumes "operator_in p w k acc" "oa_bond acc = 0" "keys_ok accounts"
    and "1 < length accounts" "ai_key (accounts ! 1) = k" "runtime_ok R p"
  shows "is_err (prove_equivocation R p accounts w)"
proof (rule ccontr)
  assume "\<not> ?thesis"
  then obtain w' where run: "prove_equivocation R p accounts w = Inr w'"
    by (auto simp: not_is_err_iff)
  from assms(3) run show False
  proof (rule prove_equivocation_Inr, goal_cases)
    case (1 accuser operator_info conviction_info burn_to sysvar system rest acc1 evidence)
    obtain a b where ev: "equivocation_check a b = Inr evidence"
      using 1(8) by (rule proven_evidence_Inr)
    have "acc1 = acc"
      using 1(1,6) assms(1,5) by (simp add: operator_in_def)
    moreover have "oa_bond acc1 \<noteq> 0"
      using assms(6) 1(4,7) ev 1(9) by (rule convict_Inr)
    ultimately show ?case
      using assms(2) by simp
  qed
qed

lemma prove_equivocation_takes_bond:
  assumes "runtime_ok R p" "keys_ok accounts" "prove_equivocation R p accounts w = Inr w'"
  obtains acc acc' where "1 < length accounts" and "operator_in p w (ai_key (accounts ! 1)) acc"
    and "operator_in p w' (ai_key (accounts ! 1)) acc'" and "oa_bond acc \<noteq> 0" and "oa_bond acc' = 0"
  using assms(2,3)
proof (rule prove_equivocation_Inr, goal_cases)
  case (1 accuser operator_info conviction_info burn_to sysvar system rest acc evidence)
  note op = 1 and thesis = 1(1)
  obtain a b where ev: "equivocation_check a b = Inr evidence"
    using 1(9) by (rule proven_evidence_Inr)
  have old: "operator_in p w (ai_key operator_info) acc"
    using 1(6,7) by (simp add: operator_in_def)
  from assms(1) 1(5,8) ev 1(10) show ?case
  proof (rule convict_Inr, goal_cases)
    case (1 minimum_balance bump slot pl applied c d w1 w2)
    have "ai_key operator_info \<noteq> ai_key conviction_info"
      using old 1(7) assms(1) by (auto simp: operator_in_def empty_account_def runtime_ok_def)
    then have new: "operator_in p w' (ai_key operator_info) (operator_set_pool (acc\<lparr>oa_bond := 0\<rparr>) pl)"
      using old 1(12) pay_out_effect(1,2) [OF 1(14)] pay_out_effect(1,2) [OF 1(15)]
      by (simp add: operator_in_def 1(13))
    show ?case
      by (rule thesis [of acc "operator_set_pool (acc\<lparr>oa_bond := 0\<rparr>) pl"])
        (use old new 1(3) op(2) in simp_all)
  qed
qed

section \<open>The timelock\<close>

text \<open>Runs of the chain under a clock: slots never go back.\<close>

inductive timed_step :: "pubkey \<Rightarrow> u64 \<times> world \<Rightarrow> u64 \<times> world \<Rightarrow> bool" for p where
  Timed_Program: "runtime_ok R p \<Longrightarrow> keys_ok accounts \<Longrightarrow> rt_clock R = Inr t' \<Longrightarrow> t \<le> t' \<Longrightarrow>
    process R p accounts data w = Inr w' \<Longrightarrow> timed_step p (t, w) (t', w')"
| Timed_Elsewhere: "t \<le> t' \<Longrightarrow>
    (\<And>k. ac_owner (w k) = p \<Longrightarrow>
      ac_owner (w' k) = p \<and> ac_data (w' k) = ac_data (w k) \<and> ac_lamports (w k) \<le> ac_lamports (w' k)) \<Longrightarrow>
    timed_step p (t, w) (t', w')"

definition locked_until :: "pubkey \<Rightarrow> pubkey \<Rightarrow> u64 \<Rightarrow> u64 \<times> world \<Rightarrow> bool" where
  "locked_until p k t0 s \<longleftrightarrow> t0 \<le> fst s \<and>
     (\<exists>acc. operator_in p (snd s) k acc \<and>
        (oa_unbond_at acc = 0 \<or> unat t0 + 216000 \<le> unat (oa_unbond_at acc)))"

lemma timed_step_locked:
  assumes "timed_step p s s'" and "locked_until p k t0 s" and "unat (fst s') + 216000 < 2 ^ 64"
  shows "locked_until p k t0 s'"
  using assms(1)
proof cases
  case (Timed_Program R accounts t' t data w w')
  obtain acc where acc: "operator_in p w k acc" "oa_unbond_at acc = 0 \<or> unat t0 + 216000 \<le> unat (oa_unbond_at acc)"
    and t0: "t0 \<le> t"
    using assms(2) Timed_Program(1) by (auto simp: locked_until_def)
  obtain acc' where acc': "operator_in p w' k acc'" "operator_evolves R acc acc'"
    using process_evolves [OF Timed_Program(3,4,7) acc(1)] by blast
  have "unat (t' + UNBOND_SLOTS) = unat t' + 216000"
    using assms(3) Timed_Program(2) by (simp add: unat_add_bounded)
  moreover have "unat t0 \<le> unat t'"
    using t0 Timed_Program(6) by (simp add: word_le_nat_alt)
  ultimately have "oa_unbond_at acc' = 0 \<or> unat t0 + 216000 \<le> unat (oa_unbond_at acc')"
    using acc(2) acc'(2) Timed_Program(5) unfolding operator_evolves_def by auto
  with acc'(1) t0 Timed_Program(2,6) show ?thesis
    unfolding locked_until_def by auto
next
  case (Timed_Elsewhere t t' w w')
  with assms(2) show ?thesis
    unfolding locked_until_def operator_in_def by auto
qed

lemma timed_step_mono: "timed_step p s s' \<Longrightarrow> fst s \<le> fst s'"
  by (cases rule: timed_step.cases) auto

lemma timed_run_locked:
  assumes "(timed_step p)\<^sup>*\<^sup>* s s'" and "locked_until p k t0 s" and "unat (fst s') + 216000 < 2 ^ 64"
  shows "locked_until p k t0 s'"
  using assms
proof (induction rule: rtranclp_induct)
  case (step s1 s2)
  have "unat (fst s1) \<le> unat (fst s2)"
    using timed_step_mono [OF step.hyps(2)] by (simp add: word_le_nat_alt)
  then have "locked_until p k t0 s1"
    using step.IH step.prems by simp
  then show ?case
    using timed_step_locked [OF step.hyps(2)] step.prems by simp
qed

lemma withdraw_bond_ok:
  assumes cov: "covered p rent w k acc" and rent: "rt_rent R = Inr rent" and clock: "rt_clock R = Inr slot"
    and k: "operator_in p w k acc" and due: "oa_unbond_at acc \<noteq> 0" "oa_unbond_at acc \<le> slot"
    and ne: "oa_authority acc \<noteq> k"
    and room: "unat (ac_lamports (w (oa_authority acc))) + unat (ac_lamports (w k)) < 2 ^ 64"
  shows "\<exists>w'. withdraw_bond R p [\<lparr>ai_key = oa_authority acc, ai_is_signer = True\<rparr>,
      \<lparr>ai_key = k, ai_is_signer = s\<rparr>] w = Inr w' \<and>
    ac_lamports (w' (oa_authority acc)) = ac_lamports (w (oa_authority acc)) + oa_bond acc"
proof -
  let ?acc = "acc\<lparr>oa_bond := 0, oa_unbond_at := 0\<rparr>" and ?a = "oa_authority acc"
  have "operator_shape acc"
    using k operator_read_shape by (auto simp: operator_in_def)
  then have "operator_shape ?acc"
    by simp
  then obtain d where d: "store_operator k ?acc w = Inr (set_data k d w)"
    using k store_operator_ok unfolding operator_in_def by metis
  have sum: "unat (rent 106) + unat (oa_bond acc) + unat (oa_pool_staked acc) \<le> unat (ac_lamports (w k))"
    using covered_sum(3) [OF cov] by linarith
  have "pay_out_from_operator R \<lparr>ai_key = k, ai_is_signer = s\<rparr> ?acc \<lparr>ai_key = ?a, ai_is_signer = True\<rparr>
      (oa_bond acc) (set_data k d w) = Inr (move_lamports k ?a (oa_bond acc) (set_data k d w))"
    using sum room ne by (subst pay_out_from_operator_ok [OF rent]) auto
  then show ?thesis
    using k d due clock ne
    by (simp add: withdraw_bond_def as_authority_def owned_by_def load_operator_def operator_in_def
        Let_def not_less [symmetric])
qed

section \<open>Properties\<close>

text \<open>
  C7. An operator is slashed at most once: after a successful conviction, whatever the chain does
  next, every further conviction of the same operator account fails, for this contradiction or any
  other.
\<close>
theorem slashed_at_most_once:
  assumes "runtime_ok R p" and "keys_ok accounts" and "prove_equivocation R p accounts w = Inr w1"
    and "(chain_step p rent)\<^sup>*\<^sup>* w1 w2"
    and "runtime_ok R' p" and "keys_ok accounts'" and "1 < length accounts'"
    and "ai_key (accounts' ! 1) = ai_key (accounts ! 1)"
  shows "is_err (prove_equivocation R' p accounts' w2)"
  using assms(1-3)
proof (rule prove_equivocation_takes_bond)
  fix acc'
  assume "operator_in p w1 (ai_key (accounts ! 1)) acc'" and "oa_bond acc' = 0"
  then obtain acc2 where "operator_in p w2 (ai_key (accounts ! 1)) acc2" "oa_bond acc2 = 0"
    using chain_run_evolves [OF assms(4)] by metis
  then show ?thesis
    using prove_equivocation_needs_bond assms(5-8) by metis
qed

text \<open>
  The terms an operator registered under are fixed: whatever the chain does, its account
  keeps its authority and its signing key, and its bond is what it was or nothing.
\<close>
theorem operator_terms_fixed:
  assumes "(chain_step p rent)\<^sup>*\<^sup>* w w'" and "operator_in p w k acc"
  shows "\<exists>acc'. operator_in p w' k acc' \<and> oa_authority acc' = oa_authority acc \<and>
    oa_signing_key acc' = oa_signing_key acc \<and> (oa_bond acc' = oa_bond acc \<or> oa_bond acc' = 0)"
  using assms by (rule chain_run_evolves)

text \<open>
  C8. The timelock holds over whole runs: from a moment at which the bond is not unbonding, no
  withdrawal succeeds before 216000 slots have passed.
\<close>
theorem bond_timelock:
  assumes "(timed_step p)\<^sup>*\<^sup>* (t0, w0) (t1, w1)" and "operator_in p w0 k acc" and "oa_unbond_at acc = 0"
    and "withdraw_bond R p accounts w1 = Inr w2" and "1 < length accounts" and "ai_key (accounts ! 1) = k"
    and "rt_clock R = Inr t2" and "unat t1 + 216000 < 2 ^ 64"
  shows "unat t0 + 216000 \<le> unat t2"
proof -
  have "locked_until p k t0 (t0, w0)"
    using assms(2,3) by (auto simp: locked_until_def)
  then have "locked_until p k t0 (t1, w1)"
    using timed_run_locked [OF assms(1)] assms(8) by simp
  then obtain acc1 where acc1: "operator_in p w1 k acc1"
    "oa_unbond_at acc1 = 0 \<or> unat t0 + 216000 \<le> unat (oa_unbond_at acc1)"
    by (auto simp: locked_until_def)
  from assms(4) show ?thesis
    by (rule withdraw_bond_Inr)
      (use acc1 assms(5-7) in \<open>auto simp: operator_in_def word_le_nat_alt\<close>)
qed

text \<open>
  C35. Once the timelock has run, the bond can be withdrawn at every later slot without asking
  again: in any reachable state an operator whose unbonding slot has passed is paid its whole bond
  by one instruction, provided bond and rent did not overflow when it registered.
\<close>
theorem unbonded_never_lapses:
  assumes "chain_reachable p rent log w" and "rt_rent R = Inr rent" and "rt_clock R = Inr slot"
    and "operator_in p w k acc" and "k \<notin> overbonded rent log" and "oa_unbond_at acc \<noteq> 0" and "oa_unbond_at acc \<le> slot"
    and "oa_authority acc \<noteq> k"
    and "unat (ac_lamports (w (oa_authority acc))) + unat (ac_lamports (w k)) < 2 ^ 64"
  shows "\<exists>w'. withdraw_bond R p [\<lparr>ai_key = oa_authority acc, ai_is_signer = True\<rparr>,
      \<lparr>ai_key = k, ai_is_signer = False\<rparr>] w = Inr w' \<and>
    ac_lamports (w' (oa_authority acc)) = ac_lamports (w (oa_authority acc)) + oa_bond acc"
  by (rule withdraw_bond_ok [OF chain_reachable_covered [OF assms(1,4,5)] assms(2-4,6-9)])

end
