(* ===== verification/Compensation.thy ===== *)
theory Compensation
  imports Slashing_Safety
begin

text \<open>
  Who can lose lamports, and where a slashed bond goes: only an account that signed or one of the
  program's own is ever debited, a conviction moves exactly the shares of the split, and the
  victim's share is paid once, to the fee payer of the transaction the receipt names.
\<close>

section \<open>What an instruction may change\<close>

definition conviction_in :: "pubkey \<Rightarrow> world \<Rightarrow> pubkey \<Rightarrow> conviction_account \<Rightarrow> bool" where
  "conviction_in p w k c \<longleftrightarrow> ac_owner (w k) = p \<and> conviction_read (ac_data (w k)) = Inr c"

definition honours :: "pubkey \<Rightarrow> account_info list \<Rightarrow> world \<Rightarrow> world \<Rightarrow> bool" where
  "honours p accounts w w' \<longleftrightarrow>
     (\<forall>i c. conviction_in p w i c \<longrightarrow>
        conviction_in p w' i c \<or> conviction_in p w' i (c\<lparr>ca_owed_to_victim := 0\<rparr>)) \<and>
     (\<forall>i. ac_owner (w i) \<noteq> p \<longrightarrow> ac_lamports (w' i) < ac_lamports (w i) \<longrightarrow>
        accounts \<noteq> [] \<and> ai_is_signer (hd accounts) \<and> i = ai_key (hd accounts))"

lemma honoursI:
  assumes "\<And>i c. conviction_in p w i c \<Longrightarrow>
      conviction_in p w' i c \<or> conviction_in p w' i (c\<lparr>ca_owed_to_victim := 0\<rparr>)"
    and "\<And>i. ac_owner (w i) \<noteq> p \<Longrightarrow> ac_lamports (w' i) < ac_lamports (w i) \<Longrightarrow>
      accounts \<noteq> [] \<and> ai_is_signer (hd accounts) \<and> i = ai_key (hd accounts)"
  shows "honours p accounts w w'"
  using assms unfolding honours_def by blast

lemma conviction_exclusive:
  "conviction_in p w k c \<Longrightarrow> operator_read (ac_data (w k)) = Inl BadAccountData"
  "conviction_in p w k c \<Longrightarrow> position_read (ac_data (w k)) = Inl BadAccountData"
  using tag_exclusive(5,6) by (auto simp: conviction_in_def)

lemma conviction_same:
  assumes "conviction_in p w i c" "ac_owner (w' i) = ac_owner (w i)" "ac_data (w' i) = ac_data (w i)"
  shows "conviction_in p w' i c \<or> conviction_in p w' i (c\<lparr>ca_owed_to_victim := 0\<rparr>)"
  using assms by (simp add: conviction_in_def)

lemma not_less_pay_out:
  assumes "pay_out from to amount w = Inr w'" and "ac_lamports (w' i) < ac_lamports (w i)"
  shows "i = ai_key from"
  using pay_out_effect(3) [OF assms(1)] assms(2) by (metis not_less)

lemma register_honours:
  assumes ok: "runtime_ok R p" and "keys_ok as" "length key = 32" "register R p as key bond w = Inr w'"
  shows "honours p as w w'"
  using assms
proof (rule register_Inr, goal_cases)
  case (1 authority operator_info system rest minimum_balance bump d)
  show ?case
  proof (rule honoursI)
    fix i c
    assume c: "conviction_in p w i c"
    have "i \<noteq> ai_key operator_info"
      using c ok 1(6) by (auto simp: conviction_in_def empty_account_def runtime_ok_def)
    then show "conviction_in p w' i c \<or> conviction_in p w' i (c\<lparr>ca_owed_to_victim := 0\<rparr>)"
      by (intro conviction_same [OF c]) (simp_all add: 1(10))
  next
    fix i
    assume "ac_lamports (w' i) < ac_lamports (w i)"
    then have "i = ai_key authority"
      using 1(6) by (auto simp: 1(10) empty_account_def split: if_splits)
    with 1(1,2) show "as \<noteq> [] \<and> ai_is_signer (hd as) \<and> i = ai_key (hd as)"
      by simp
  qed
qed

lemma stake_honours:
  assumes ok: "runtime_ok R p" and "keys_ok as" "stake R p as amount w = Inr w'"
  shows "honours p as w w'"
  using assms
proof (rule stake_Inr, goal_cases)
  case (1 owner operator_info position_info system rest acc stored pl position d e w1)
  show ?case
  proof (rule honoursI)
    fix i c
    assume c: "conviction_in p w i c"
    have i: "i \<noteq> ai_key operator_info"
      using conviction_exclusive(1) [OF c] 1(4) by auto
    have j: "i \<noteq> ai_key position_info"
    proof
      assume i: "i = ai_key position_info"
      have "w1 = w \<or> w i = empty_account R" and "position_read (ac_data (w1 i)) = Inr stored"
        using 1(5) unfolding opened_def i by blast+
      then show False
        using conviction_exclusive(2) [OF c] c ok
        by (auto simp: conviction_in_def empty_account_def runtime_ok_def)
    qed
    show "conviction_in p w' i c \<or> conviction_in p w' i (c\<lparr>ca_owed_to_victim := 0\<rparr>)"
      using i j opened_frame [OF 1(5) j] by (intro conviction_same [OF c]) (simp_all add: 1(12))
  next
    fix i
    assume less: "ac_lamports (w' i) < ac_lamports (w i)"
    have "i = ai_key owner"
    proof (rule ccontr)
      assume ne: "i \<noteq> ai_key owner"
      have "ac_lamports (w i) \<le> ac_lamports (w1 i)"
        using 1(5) ne unfolding opened_def by (elim conjE disjE exE) (auto simp: empty_account_def)
      moreover have "ac_lamports (w1 i) \<le> ac_lamports (w' i)"
        using 1(11) ne by (cases "i = ai_key operator_info") (auto simp: 1(12) word_le_nat_alt unat_add_bounded)
      ultimately show False
        using less by simp
    qed
    with 1(1,2) show "as \<noteq> [] \<and> ai_is_signer (hd as) \<and> i = ai_key (hd as)"
      by simp
  qed
qed

lemma unstake_honours:
  assumes "unstake R p as amount w = Inr w'"
  shows "honours p as w w'"
  using assms
proof (rule unstake_Inr, goal_cases)
  case (1 owner operator_info position_info rest acc stored pl position d e w1)
  note pay = pay_out_effect(1,2) [OF 1(13)]
  show ?case
  proof (rule honoursI)
    fix i c
    assume c: "conviction_in p w i c"
    have "i \<noteq> ai_key operator_info" "i \<noteq> ai_key position_info"
      using conviction_exclusive [OF c] 1(5,6) by auto
    then show "conviction_in p w' i c \<or> conviction_in p w' i (c\<lparr>ca_owed_to_victim := 0\<rparr>)"
      by (intro conviction_same [OF c]) (simp_all add: pay 1(12))
  next
    fix i
    assume "ac_owner (w i) \<noteq> p" "ac_lamports (w' i) < ac_lamports (w i)"
    then have False
      using not_less_pay_out [OF 1(13), of i] 1(3) by (auto simp: 1(12))
    then show "as \<noteq> [] \<and> ai_is_signer (hd as) \<and> i = ai_key (hd as)" ..
  qed
qed

lemma claim_honours:
  assumes "claim R p as w = Inr w'"
  shows "honours p as w w'"
  using assms
proof (rule claim_Inr, goal_cases)
  case (1 owner operator_info position_info rest acc stored position earned e w1)
  note pay = pay_out_effect(1,2) [OF 1(12)]
  show ?case
  proof (rule honoursI)
    fix i c
    assume c: "conviction_in p w i c"
    have "i \<noteq> ai_key position_info"
      using conviction_exclusive [OF c] 1(6) by auto
    then show "conviction_in p w' i c \<or> conviction_in p w' i (c\<lparr>ca_owed_to_victim := 0\<rparr>)"
      by (intro conviction_same [OF c]) (simp_all add: pay 1(11))
  next
    fix i
    assume "ac_owner (w i) \<noteq> p" "ac_lamports (w' i) < ac_lamports (w i)"
    then have False
      using not_less_pay_out [OF 1(12), of i] 1(3) by (auto simp: 1(11))
    then show "as \<noteq> [] \<and> ai_is_signer (hd as) \<and> i = ai_key (hd as)" ..
  qed
qed

lemma prove_equivocation_honours:
  assumes ok: "runtime_ok R p" and "keys_ok as" "prove_equivocation R p as w = Inr w'"
  shows "honours p as w w'"
  using assms(2,3)
proof (rule prove_equivocation_Inr, goal_cases)
  case (1 accuser operator_info conviction_info burn_to sysvar system rest acc evidence)
  obtain a b where ev: "equivocation_check a b = Inr evidence"
    using 1(8) by (rule proven_evidence_Inr)
  note op = 1
  from ok 1(4,7) ev 1(9) show ?case
  proof (rule convict_Inr, goal_cases)
    case (1 minimum_balance bump slot pl applied c d w1 w2)
    note pay = pay_out_effect(1,2) [OF 1(14)] pay_out_effect(1,2) [OF 1(15)]
    show ?case
    proof (rule honoursI)
      fix i x
      assume c: "conviction_in p w i x"
      have "i \<noteq> ai_key conviction_info"
        using c 1(7) ok by (auto simp: conviction_in_def empty_account_def runtime_ok_def)
      moreover have "i \<noteq> ai_key operator_info"
        using conviction_exclusive [OF c] op(6) by auto
      ultimately show "conviction_in p w' i x \<or> conviction_in p w' i (x\<lparr>ca_owed_to_victim := 0\<rparr>)"
        by (intro conviction_same [OF c]) (simp_all add: pay 1(13))
    next
      fix i
      assume own: "ac_owner (w i) \<noteq> p" and less: "ac_lamports (w' i) < ac_lamports (w i)"
      have "i = ai_key accuser"
      proof (rule ccontr)
        assume ne: "i \<noteq> ai_key accuser"
        have "i \<noteq> ai_key operator_info"
          using own op(5) by auto
        then have "ac_lamports (w1 i) \<le> ac_lamports (w' i)"
          using pay_out_effect(3) [OF 1(14)] pay_out_effect(3) [OF 1(15)] order_trans by blast
        moreover have "ac_lamports (w i) \<le> ac_lamports (w1 i)"
          using ne 1(7) by (simp add: 1(13) empty_account_def)
        ultimately show False
          using less by simp
      qed
      with op(1,2) show "as \<noteq> [] \<and> ai_is_signer (hd as) \<and> i = ai_key (hd as)"
        by simp
    qed
  qed
qed

lemma claim_victim_honours:
  assumes "claim_victim R p as wire w = Inr w'"
  shows "honours p as w w'"
  using assms
proof (rule claim_victim_Inr, goal_cases)
  case (1 claimant conviction_info rest conviction d w1)
  note pay = pay_out_effect(1,2) [OF 1(9)]
  show ?case
  proof (rule honoursI)
    fix i c
    assume c: "conviction_in p w i c"
    show "conviction_in p w' i c \<or> conviction_in p w' i (c\<lparr>ca_owed_to_victim := 0\<rparr>)"
    proof (cases "i = ai_key conviction_info")
      case True
      then have "c = conviction"
        using c 1(4) by (simp add: conviction_in_def)
      with True 1(3,7) show ?thesis
        by (simp add: conviction_in_def pay 1(8))
    next
      case False
      then show ?thesis
        by (intro conviction_same [OF c]) (simp_all add: pay 1(8))
    qed
  next
    fix i
    assume "ac_owner (w i) \<noteq> p" "ac_lamports (w' i) < ac_lamports (w i)"
    then have False
      using not_less_pay_out [OF 1(9), of i] 1(3) by (auto simp: 1(8))
    then show "as \<noteq> [] \<and> ai_is_signer (hd as) \<and> i = ai_key (hd as)" ..
  qed
qed

lemma begin_unbond_honours:
  assumes "begin_unbond R p as w = Inr w'"
  shows "honours p as w w'"
  using assms
proof (rule begin_unbond_Inr, goal_cases)
  case (1 authority operator_info rest acc)
  obtain d where w': "w' = w \<or> w' = set_data (ai_key operator_info) d w"
    using 1(7) by blast
  show ?case
  proof (rule honoursI)
    fix i c
    assume c: "conviction_in p w i c"
    have "i \<noteq> ai_key operator_info"
      using conviction_exclusive [OF c] 1(4) by auto
    then show "conviction_in p w' i c \<or> conviction_in p w' i (c\<lparr>ca_owed_to_victim := 0\<rparr>)"
      using w' by (intro conviction_same [OF c]) auto
  qed (use w' in auto)
qed

lemma withdraw_bond_honours:
  assumes "withdraw_bond R p as w = Inr w'"
  shows "honours p as w w'"
  using assms
proof (rule withdraw_bond_Inr, goal_cases)
  case (1 authority operator_info rest acc slot d w1)
  note pay = pay_out_effect(1,2) [OF 1(11)]
  show ?case
  proof (rule honoursI)
    fix i c
    assume c: "conviction_in p w i c"
    have "i \<noteq> ai_key operator_info"
      using conviction_exclusive [OF c] 1(4) by auto
    then show "conviction_in p w' i c \<or> conviction_in p w' i (c\<lparr>ca_owed_to_victim := 0\<rparr>)"
      by (intro conviction_same [OF c]) (simp_all add: pay 1(10))
  next
    fix i
    assume "ac_owner (w i) \<noteq> p" "ac_lamports (w' i) < ac_lamports (w i)"
    then have False
      using not_less_pay_out [OF 1(11), of i] 1(3) by (auto simp: 1(10))
    then show "as \<noteq> [] \<and> ai_is_signer (hd as) \<and> i = ai_key (hd as)" ..
  qed
qed

lemma process_honours:
  assumes ok: "runtime_ok R p" "keys_ok as" and run: "process R p as data w = Inr w'"
  shows "honours p as w w'"
proof -
  obtain i where i: "instruction_shape i" and run: "process_instruction R p as i w = Inr w'"
    using run by (rule process_Inr)
  show ?thesis
    using i run
    by (cases i) (auto simp: instruction_shape_def intro: register_honours [OF ok] stake_honours [OF ok]
        unstake_honours claim_honours prove_equivocation_honours [OF ok] claim_victim_honours
        begin_unbond_honours withdraw_bond_honours)
qed

lemma chain_run_conviction:
  assumes "(chain_step p rent)\<^sup>*\<^sup>* w w'" and "conviction_in p w k c"
  shows "conviction_in p w' k c \<or> conviction_in p w' k (c\<lparr>ca_owed_to_victim := 0\<rparr>)"
  using assms
proof (induction rule: rtranclp_induct)
  case (step w1 w2)
  have one: "conviction_in p w2 k c' \<or> conviction_in p w2 k (c'\<lparr>ca_owed_to_victim := 0\<rparr>)"
    if "conviction_in p w1 k c'" for c'
    using step.hyps(2)
  proof cases
    case (Program R accounts data)
    then have "honours p accounts w1 w2"
      by (intro process_honours)
    with that show ?thesis
      unfolding honours_def by blast
  next
    case Elsewhere
    with that show ?thesis
      by (simp add: conviction_in_def elsewhere_def)
  qed
  from step.IH [OF step.prems] show ?case
  proof
    assume "conviction_in p w1 k c"
    then show ?case by (rule one)
  next
    assume "conviction_in p w1 k (c\<lparr>ca_owed_to_victim := 0\<rparr>)"
    then show ?case
      using one [of "c\<lparr>ca_owed_to_victim := 0\<rparr>"] by simp
  qed
qed simp

section \<open>The conviction in numbers\<close>

lemma pay_out_unat:
  assumes "pay_out from to amount w = Inr w'" and "ai_key from \<noteq> ai_key to"
  shows "unat (ac_lamports (w' (ai_key from))) + unat amount = unat (ac_lamports (w (ai_key from)))"
    and "unat (ac_lamports (w' (ai_key to))) = unat (ac_lamports (w (ai_key to))) + unat amount"
    and "k \<noteq> ai_key from \<Longrightarrow> k \<noteq> ai_key to \<Longrightarrow> w' k = w k"
  using pay_out_Inr [OF assms(1)] assms(2)
  by (auto simp: unat_minus_le unat_add_bounded word_le_nat_alt)

lemma pay_out_nothing: "pay_out a b 0 w = Inr w' \<Longrightarrow> ac_lamports (w' k) = ac_lamports (w k)"
  using pay_out_Inr(1) [of a b 0 w w'] by (auto simp: move_lamports_def Let_def)

section \<open>Properties\<close>

text \<open>
  C12. Lamports leave only accounts that agreed to it: whatever instruction succeeds, an account
  that is not the program's own is debited only if it is the first account of the instruction and
  signed the transaction.
\<close>
theorem debit_needs_signature:
  assumes "runtime_ok R p" and "keys_ok accounts" and "process R p accounts data w = Inr w'"
    and "ac_owner (w k) \<noteq> p" and "ac_lamports (w' k) < ac_lamports (w k)"
  shows "accounts \<noteq> [] \<and> ai_is_signer (hd accounts) \<and> k = ai_key (hd accounts)"
  using process_honours [OF assms(1-3)] assms(4,5) unfolding honours_def by blast

text \<open>
  C16. A conviction moves exactly the shares of the split: two different statements about one
  position of one log were verified under the operator's key, the bond was there and is gone, its
  burned share is at the incinerator, the victim's share is in the new conviction account, which
  names the wronged transaction, and the pool's share stays in the operator account for the
  stakers.
\<close>
theorem conviction_effect:
  assumes "runtime_ok R p" and "keys_ok accounts"
    and "accounts = accuser # operator_info # conviction_info # burn_to # sysvar # system # rest"
    and "distinct (map ai_key [accuser, operator_info, conviction_info, burn_to])"
    and "prove_equivocation R p accounts w = Inr w'"
  shows "\<exists>acc evidence pool applied c.
    operator_in p w (ai_key operator_info) acc \<and> oa_bond acc \<noteq> 0 \<and>
    proven_evidence R acc sysvar = Inr evidence \<and> contradict (e_a evidence) (e_b evidence) \<and>
    distribute (operator_pool acc) (split_of (oa_bond acc)) = (pool, applied) \<and>
    unat (sp_burn applied) + unat (sp_victim applied) + unat (sp_pool applied) = unat (oa_bond acc) \<and>
    operator_in p w' (ai_key operator_info) (operator_set_pool (acc\<lparr>oa_bond := 0\<rparr>) pool) \<and>
    unat (ac_lamports (w' (ai_key operator_info))) + unat (sp_burn applied) + unat (sp_victim applied) =
      unat (ac_lamports (w (ai_key operator_info))) \<and>
    unat (ac_lamports (w' (ai_key burn_to))) = unat (ac_lamports (w (ai_key burn_to))) + unat (sp_burn applied) \<and>
    conviction_in p w' (ai_key conviction_info) c \<and> ca_operator c = ai_key operator_info \<and>
    ca_slashed c = oa_bond acc \<and> ca_owed_to_victim c = sp_victim applied \<and>
    ca_wronged_tx_hash c = wronged_tx_hash evidence \<and>
    unat (sp_victim applied) \<le> unat (ac_lamports (w' (ai_key conviction_info)))"
  using assms(2,5)
proof (rule prove_equivocation_Inr, goal_cases)
  case (1 accuser1 operator_info1 conviction_info1 burn_to1 sysvar1 system1 rest1 acc evidence)
  then have same: "accuser1 = accuser" "operator_info1 = operator_info" "conviction_info1 = conviction_info"
    "burn_to1 = burn_to" "sysvar1 = sysvar"
    using assms(3) by simp_all
  have op: "operator_in p w (ai_key operator_info) acc"
    using 1(5,6) same by (simp add: operator_in_def)
  note evidence = 1(8) [unfolded same]
  from evidence obtain a b where ev: "equivocation_check a b = Inr evidence"
    and ab: "contradict (e_a evidence) (e_b evidence)"
    by (rule proven_evidence_Inr) auto
  from assms(1) 1(4,7) ev 1(9) show ?case
    unfolding same
  proof (rule convict_Inr, goal_cases)
    case (1 minimum_balance bump slot pl applied c d w1 w2)
    let ?k = "ai_key operator_info" and ?c = "ai_key conviction_info" and ?b = "ai_key burn_to"
    have ne: "?k \<noteq> ?c" "?k \<noteq> ?b" "?c \<noteq> ?b" "?k \<noteq> ai_key accuser" "?b \<noteq> ai_key accuser" "?c \<noteq> ai_key accuser"
      using assms(4) by auto
    note pay = pay_out_effect(1,2) [OF 1(14)] pay_out_effect(1,2) [OF 1(15)]
    note burn = pay_out_unat [OF 1(14) ne(2)] and victim = pay_out_unat [OF 1(15) ne(1)]
    have "operator_in p w' ?k (operator_set_pool (acc\<lparr>oa_bond := 0\<rparr>) pl)"
      using op 1(12) ne by (simp add: operator_in_def pay 1(13))
    moreover have "conviction_in p w' ?c \<lparr>ca_operator = ?k, ca_wronged = wronged_signature evidence,
      ca_wronged_tx_hash = wronged_tx_hash evidence, ca_slashed = oa_bond acc,
      ca_owed_to_victim = sp_victim applied, ca_slot = slot, ca_bump = bump\<rparr>"
      using 1(11) ne by (simp add: conviction_in_def pay 1(13))
    moreover have "unat (ac_lamports (w' ?k)) + unat (sp_burn applied) + unat (sp_victim applied) =
        unat (ac_lamports (w ?k))"
      using burn(1) victim(1) ne by (simp add: 1(13))
    moreover have "unat (ac_lamports (w' ?b)) = unat (ac_lamports (w ?b)) + unat (sp_burn applied)"
      using burn(2) victim(3) [of ?b] ne by (simp add: 1(13))
    moreover have "unat (sp_victim applied) \<le> unat (ac_lamports (w' ?c))"
      using victim(2) by simp
    ultimately show ?case
      using op 1(3,4) evidence ab distribute_sum(1) [OF 1(4)] by fastforce
  qed
qed

text \<open>
  C17. The victim's share is paid once and to the right account: a claim succeeds only for the fee
  payer of wire bytes that hash to the transaction the conviction names, it pays exactly what is
  owed, and whatever happens afterwards a further claim on the same conviction moves nothing.
\<close>
theorem victim_paid_once:
  assumes "claim_victim R p accounts wire w = Inr w1" and "ai_key (accounts ! 0) \<noteq> ai_key (accounts ! 1)"
    and "(chain_step p rent)\<^sup>*\<^sup>* w1 w2"
    and "claim_victim R' p accounts' wire' w2 = Inr w3" and "ai_key (accounts' ! 1) = ai_key (accounts ! 1)"
  shows "(\<exists>c. conviction_in p w (ai_key (accounts ! 1)) c \<and> rt_hash R wire = ca_wronged_tx_hash c \<and>
      fee_payer wire = Inr (ai_key (accounts ! 0)) \<and>
      unat (ac_lamports (w1 (ai_key (accounts ! 0)))) =
        unat (ac_lamports (w (ai_key (accounts ! 0)))) + unat (ca_owed_to_victim c)) \<and>
    (\<forall>k. ac_lamports (w3 k) = ac_lamports (w2 k))"
  using assms(1)
proof (rule claim_victim_Inr, goal_cases)
  case (1 claimant conviction_info rest conviction d wd)
  let ?c = "ai_key conviction_info"
  have keys: "accounts ! 0 = claimant" "accounts ! 1 = conviction_info"
    by (simp_all add: 1(1))
  have old: "conviction_in p w ?c conviction"
    using 1(3,4) by (simp add: conviction_in_def)
  have "conviction_in p w1 ?c (conviction\<lparr>ca_owed_to_victim := 0\<rparr>)"
    using 1(3,7) pay_out_effect(1,2) [OF 1(9)] by (simp add: conviction_in_def 1(8))
  then have none: "conviction_in p w2 ?c (conviction\<lparr>ca_owed_to_victim := 0\<rparr>)"
    using chain_run_conviction [OF assms(3)] by fastforce
  have "unat (ac_lamports (w1 (ai_key claimant))) =
      unat (ac_lamports (w (ai_key claimant))) + unat (ca_owed_to_victim conviction)"
    using pay_out_unat(2) [OF 1(9)] assms(2) keys by (simp add: 1(8))
  moreover have "ac_lamports (w3 k) = ac_lamports (w2 k)" for k
    using assms(4)
  proof (rule claim_victim_Inr, goal_cases)
    case (1 claimant2 conviction_info2 rest2 conviction2 d2 we)
    have "conviction2 = conviction\<lparr>ca_owed_to_victim := 0\<rparr>"
      using none 1(1,4) assms(5) keys(2) by (simp add: conviction_in_def)
    with 1(9) have "pay_out conviction_info2 claimant2 0 we = Inr w3"
      by simp
    then have "ac_lamports (w3 k) = ac_lamports (we k)"
      by (rule pay_out_nothing)
    also have "\<dots> = ac_lamports (w2 k)"
      by (simp add: 1(8))
    finally show ?case .
  qed
  ultimately show ?case
    using old 1(5,6) unfolding keys by blast
qed

end
