(* ===== verification/Court.thy ===== *)
theory Court
  imports Processor
begin

text \<open>
  The client side of a conviction (\<open>src/crates/court\<close>): the addresses of an operator's accounts,
  the Ed25519 instruction that carries two receipts, and the transaction that convicts. The lemmas
  put the writer of the Ed25519 instruction back to back with the program's reader of it.
\<close>

section \<open>Addresses\<close>

record addresses =
  ad_program :: pubkey
  ad_operator :: pubkey

definition addresses_new :: "runtime \<Rightarrow> pubkey \<Rightarrow> pubkey \<Rightarrow> addresses" where
  "addresses_new R program authority =
     (let (operator, _) = rt_find_program_address R [OPERATOR_SEED, authority] program
      in \<lparr>ad_program = program, ad_operator = operator\<rparr>)"

definition position_address :: "runtime \<Rightarrow> addresses \<Rightarrow> pubkey \<Rightarrow> pubkey" where
  "position_address R ad owner =
     fst (rt_find_program_address R [POSITION_SEED, ad_operator ad, owner] (ad_program ad))"

definition conviction_address :: "runtime \<Rightarrow> addresses \<Rightarrow> bytes \<Rightarrow> bytes \<Rightarrow> pubkey" where
  "conviction_address R ad a b =
     (let (low, high) = if a \<le> b then (a, b) else (b, a)
      in fst (rt_find_program_address R
           [CONVICTION_SEED, ad_operator ad, rt_hash R low, rt_hash R high] (ad_program ad)))"

section \<open>Instructions\<close>

record account_meta =
  am_pubkey :: pubkey
  am_is_signer :: bool
  am_is_writable :: bool

record solana_instruction =
  si_program_id :: pubkey
  si_accounts :: "account_meta list"
  si_data :: bytes

fun verify_entries :: "pubkey \<Rightarrow> signed_receipt list \<Rightarrow> bytes \<Rightarrow> bytes \<Rightarrow> bytes \<times> bytes" where
  "verify_entries signer [] data payload = (data, payload)"
| "verify_entries signer (receipt # receipts) data payload =
     (let payload_start = HEADER_LEN + 2 * OFFSETS_LEN;
          signature_at = payload_start + length payload;
          payload = payload @ s_signature receipt;
          key_at = payload_start + length payload;
          payload = payload @ signer;
          message_at = payload_start + length payload;
          msg = message receipt;
          payload = payload @ msg;
          data = data @ concat (map u16_le
            [of_nat signature_at, THIS_INSTRUCTION, of_nat key_at, THIS_INSTRUCTION,
             of_nat message_at, of_nat (length msg), THIS_INSTRUCTION])
      in verify_entries signer receipts data payload)"

definition verify_two :: "runtime \<Rightarrow> pubkey \<Rightarrow> signed_receipt \<Rightarrow> signed_receipt \<Rightarrow> solana_instruction" where
  "verify_two R signer a b =
     (let (data, payload) = verify_entries signer [a, b] [2, 0] []
      in \<lparr>si_program_id = rt_ed25519_program R, si_accounts = [], si_data = data @ payload\<rparr>)"

definition meta_new :: "pubkey \<Rightarrow> bool \<Rightarrow> account_meta" where
  "meta_new k s = \<lparr>am_pubkey = k, am_is_signer = s, am_is_writable = True\<rparr>"

definition meta_readonly :: "pubkey \<Rightarrow> bool \<Rightarrow> account_meta" where
  "meta_readonly k s = \<lparr>am_pubkey = k, am_is_signer = s, am_is_writable = False\<rparr>"

definition court_prove_equivocation ::
    "runtime \<Rightarrow> addresses \<Rightarrow> pubkey \<Rightarrow> pubkey \<Rightarrow> signed_receipt \<Rightarrow> signed_receipt \<Rightarrow> solana_instruction list" where
  "court_prove_equivocation R ad accuser signer a b =
     (let conviction = conviction_address R ad (message a) (message b)
      in [verify_two R signer a b,
          \<lparr>si_program_id = ad_program ad,
           si_accounts =
             [meta_new accuser True, meta_new (ad_operator ad) False, meta_new conviction False,
              meta_new (rt_incinerator R) False, meta_readonly (rt_sysvar_instructions R) False,
              meta_readonly (rt_system_program R) False],
           si_data = instruction_write ProveEquivocation\<rparr>])"

section \<open>What the runtime does with a transaction\<close>

text \<open>
  The instructions sysvar shows the instructions of the running transaction, and account infos
  carry the keys and signatures of the instruction's metas.
\<close>

definition at_instruction :: "runtime \<Rightarrow> solana_instruction list \<Rightarrow> nat \<Rightarrow> bool" where
  "at_instruction R instructions i \<longleftrightarrow>
     rt_current_index R (rt_sysvar_instructions R) = Inr (of_nat i) \<and>
     (\<forall>j < length instructions. rt_instruction_at R j (rt_sysvar_instructions R) =
        Inr (si_program_id (instructions ! j), si_data (instructions ! j)))"

definition infos_of :: "solana_instruction \<Rightarrow> account_info list" where
  "infos_of ix = map (\<lambda>m. \<lparr>ai_key = am_pubkey m, ai_is_signer = am_is_signer m\<rparr>) (si_accounts ix)"

text \<open>
  The Ed25519 precompile: it reads the offsets of every entry and verifies the signature it finds
  over the key and message it finds. Stated for entries that point into this same instruction,
  which are the only ones the program accepts.
\<close>

definition precompile_entry :: "crypto \<Rightarrow> bytes \<Rightarrow> u16 \<Rightarrow> bytes \<Rightarrow> bool" where
  "precompile_entry C data index offsets =
     (let word = (\<lambda>n. u16_of_le (subslice (2 * n) (2 * n + 2) offsets));
          signature_at = unat (word 0); key_at = unat (word 2);
          message_at = unat (word 4); message_len = unat (word 5)
      in word 1 \<in> {65535, index} \<and> word 3 \<in> {65535, index} \<and> word 6 \<in> {65535, index} \<longrightarrow>
         ed_verify C (subslice key_at (key_at + 32) data)
           (subslice message_at (message_at + message_len) data)
           (subslice signature_at (signature_at + 64) data))"

definition precompile_accepts :: "crypto \<Rightarrow> bytes \<Rightarrow> u16 \<Rightarrow> bool" where
  "precompile_accepts C data index \<longleftrightarrow>
     (\<forall>entry < unat (data ! 0).
        precompile_entry C data index (subslice (2 + entry * 14) (2 + entry * 14 + 14) data))"

section \<open>Writing and reading the Ed25519 instruction\<close>

definition entry_bytes :: "nat \<Rightarrow> bytes" where
  "entry_bytes start = concat (map u16_le
     [of_nat start, THIS_INSTRUCTION, of_nat (start + 64), THIS_INSTRUCTION,
      of_nat (start + 96), of_nat 261, THIS_INSTRUCTION])"

lemma u16_le_bytes: "u16_le x = [u16_le x ! 0, u16_le x ! 1]"
  by (rule nth_equalityI) (auto simp: less_Suc_eq numeral_2_eq_2)

lemma u16_of_le_bytes: "u16_of_le [u16_le x ! 0, u16_le x ! 1] = x"
  using u16_of_le_u16_le [of x] u16_le_bytes [of x] by simp

lemma offset_field_concat:
  "n < length xs \<Longrightarrow> offset_field (concat (map u16_le xs)) n = xs ! n"
proof (induction xs arbitrary: n)
  case (Cons x xs)
  show ?case
  proof (cases n)
    case 0
    then show ?thesis
      using u16_of_le_bytes [of x] by (simp add: offset_field_def nth_append)
  next
    case (Suc m)
    then have "offset_field (concat (map u16_le (x # xs))) n = offset_field (concat (map u16_le xs)) m"
      by (simp add: offset_field_def nth_append)
    with Suc Cons show ?thesis
      by simp
  qed
qed simp

lemma length_entry_bytes [simp]: "length (entry_bytes start) = 14"
  by (simp add: entry_bytes_def)

lemma verify_two_data:
  assumes "signed_shape a" "signed_shape b" "length signer = 32"
  shows "si_data (verify_two R signer a b) =
    [2, 0] @ entry_bytes 30 @ entry_bytes 387 @
    (s_signature a @ signer @ message a) @ (s_signature b @ signer @ message b)"
  using assms
  by (simp add: verify_two_def entry_bytes_def HEADER_LEN_def OFFSETS_LEN_def signed_shape_def
      message_def length_receipt_to_bytes Let_def)

lemma entry_fields:
  "offset_field (entry_bytes start) 0 = of_nat start" "offset_field (entry_bytes start) 1 = 65535"
  "offset_field (entry_bytes start) 2 = of_nat (start + 64)" "offset_field (entry_bytes start) 3 = 65535"
  "offset_field (entry_bytes start) 4 = of_nat (start + 96)" "offset_field (entry_bytes start) 5 = 261"
  "offset_field (entry_bytes start) 6 = 65535"
  by (simp_all only: entry_bytes_def, (subst offset_field_concat; simp add: THIS_INSTRUCTION_def)+)

lemma unat_u16: "n < 10000 \<Longrightarrow> unat (of_nat n :: u16) = n"
  by (simp add: unat_of_nat take_bit_eq_mod)

lemma verified_entry_reads:
  assumes entry: "get_range (2 + i * 14) (2 + i * 14 + 14) data = Some (entry_bytes start)"
    and start: "start < 5000" and len: "start + 357 \<le> length data"
  shows "verified_entry data index i =
    Inr \<lparr>v_key = subslice (start + 64) (start + 96) data, v_message = subslice (start + 96) (start + 357) data\<rparr>"
proof -
  have u: "unat (of_nat start :: u16) = start" "unat (of_nat (start + 64) :: u16) = start + 64"
    "unat (of_nat (start + 96) :: u16) = start + 96"
    using start by (simp_all only: unat_u16)
  have r: "get_range start (start + 64) data = Some (subslice start (start + 64) data)"
    "get_range (start + 64) (96 + start) data = Some (subslice (start + 64) (start + 96) data)"
    "get_range (start + 96) (357 + start) data = Some (subslice (start + 96) (start + 357) data)"
    using len by (simp_all add: get_range_def add.commute)
  have e: "offset_field (entry_bytes start) (Suc 0) = 65535"
    using entry_fields(2) by simp
  show ?thesis
    unfolding verified_entry_def HEADER_LEN_def OFFSETS_LEN_def entry Let_def
    by (simp add: entry_fields e u r THIS_INSTRUCTION_def del: of_nat_add)
qed

lemma verify_two_length:
  assumes "signed_shape a" "signed_shape b" "length signer = 32"
  shows "length (si_data (verify_two R signer a b)) = 744"
  using assms by (simp add: verify_two_data signed_shape_def message_def length_receipt_to_bytes)

lemma verify_two_reads:
  assumes "signed_shape a" "signed_shape b" "length signer = 32"
  shows "verified_pairs (si_data (verify_two R signer a b)) index =
    Inr [\<lparr>v_key = signer, v_message = message a\<rparr>, \<lparr>v_key = signer, v_message = message b\<rparr>]"
proof -
  let ?d = "si_data (verify_two R signer a b)"
  have len: "length (s_signature a) = 64" "length (s_signature b) = 64"
    "length (message a) = 261" "length (message b) = 261"
    using assms by (simp_all add: signed_shape_def message_def length_receipt_to_bytes)
  note d = verify_two_data [OF assms, of R] and l = verify_two_length [OF assms, of R]
  have e: "get_range (2 + 0 * 14) (2 + 0 * 14 + 14) ?d = Some (entry_bytes 30)"
    "get_range (2 + 1 * 14) (2 + 1 * 14 + 14) ?d = Some (entry_bytes 387)"
    unfolding d by (simp_all add: get_range_def len assms layout)
  have p: "subslice 94 126 ?d = signer" "subslice 126 387 ?d = message a"
    "subslice 451 483 ?d = signer" "subslice 483 744 ?d = message b"
    unfolding d by (simp_all add: len assms layout)
  have "?d ! 0 = 2"
    unfolding d by simp
  then show ?thesis
    using verified_entry_reads [OF e(1), of index] verified_entry_reads [OF e(2), of index] l p
    by (simp add: verified_pairs_def HEADER_LEN_def upt_rec)
qed

section \<open>The precompile and the program read the same bytes\<close>

lemma offset_field_subslice:
  assumes "length offsets = 14" and "n < 7"
  shows "u16_of_le (subslice (2 * n) (2 * n + 2) offsets) = offset_field offsets n"
proof -
  have "subslice (2 * n) (2 * n + 2) offsets = [offsets ! (2 * n), offsets ! Suc (2 * n)]"
    using assms by (simp add: subslice_def numeral_2_eq_2 take_Suc_conv_app_nth)
  then show ?thesis
    by (simp add: offset_field_def mult.commute)
qed

lemma precompile_entry_fields:
  assumes "length offsets = 14"
  shows "precompile_entry C data index offsets \<longleftrightarrow>
    ((\<forall>n \<in> {1, 3, 6}. offset_field offsets n \<in> {65535, index}) \<longrightarrow>
     ed_verify C
      (subslice (unat (offset_field offsets 2)) (unat (offset_field offsets 2) + 32) data)
      (subslice (unat (offset_field offsets 4))
        (unat (offset_field offsets 4) + unat (offset_field offsets 5)) data)
      (subslice (unat (offset_field offsets 0)) (unat (offset_field offsets 0) + 64) data))"
proof -
  note f = offset_field_subslice [OF assms]
  show ?thesis
    unfolding precompile_entry_def Let_def
    by (simp only: f [of 0] f [of 1] f [of 2] f [of 3] f [of 4] f [of 5] f [of 6]) simp
qed

lemma verified_entry_Inr:
  assumes "verified_entry data index entry = Inr pair"
  obtains offsets where "get_range (2 + entry * 14) (2 + entry * 14 + 14) data = Some offsets"
    and "\<forall>n \<in> {1, 3, 6}. offset_field offsets n \<in> {65535, index}"
    and "v_key pair = subslice (unat (offset_field offsets 2)) (unat (offset_field offsets 2) + 32) data"
    and "v_message pair = subslice (unat (offset_field offsets 4))
      (unat (offset_field offsets 4) + unat (offset_field offsets 5)) data"
  using assms
  by (auto simp: verified_entry_def Let_def HEADER_LEN_def OFFSETS_LEN_def THIS_INSTRUCTION_def
      result_simps get_range_Some split: if_splits)

lemma verified_entries_Inr:
  "verified_entries data index es = Inr pairs \<Longrightarrow> pair \<in> set pairs \<Longrightarrow>
     \<exists>entry \<in> set es. verified_entry data index entry = Inr pair"
  by (induction es arbitrary: pairs) (auto simp: result_simps)

lemma verified_pairs_signed:
  assumes "verified_pairs data index = Inr pairs" and "precompile_accepts C data index"
    and "pair \<in> set pairs"
  shows "\<exists>signature. ed_verify C (v_key pair) (v_message pair) signature"
proof -
  have "verified_entries data index [0..<unat (data ! 0)] = Inr pairs"
    using assms(1) by (simp add: verified_pairs_def split: if_splits)
  then obtain entry where "entry < unat (data ! 0)" "verified_entry data index entry = Inr pair"
    using verified_entries_Inr [OF _ assms(3)] by (metis atLeastLessThan_iff set_upt)
  from this(2) show ?thesis
  proof (rule verified_entry_Inr)
    fix offsets
    assume o: "get_range (2 + entry * 14) (2 + entry * 14 + 14) data = Some offsets"
      and self: "\<forall>n \<in> {1, 3, 6}. offset_field offsets n \<in> {65535, index}"
      and pair: "v_key pair = subslice (unat (offset_field offsets 2)) (unat (offset_field offsets 2) + 32) data"
        "v_message pair = subslice (unat (offset_field offsets 4))
          (unat (offset_field offsets 4) + unat (offset_field offsets 5)) data"
    have off: "offsets = subslice (2 + entry * 14) (2 + entry * 14 + 14) data" and len: "length offsets = 14"
      using o by (auto simp: get_range_Some)
    have "precompile_entry C data index offsets"
      using assms(2) \<open>entry < unat (data ! 0)\<close> unfolding precompile_accepts_def off by blast
    with self show ?thesis
      unfolding precompile_entry_fields [OF len] pair by blast
  qed
qed

lemma verify_two_accepted:
  assumes "signed_shape a" "signed_shape b" "length signer = 32"
    and "verify C a signer = Inr ()" "verify C b signer = Inr ()"
  shows "precompile_accepts C (si_data (verify_two R signer a b)) index"
proof -
  let ?d = "si_data (verify_two R signer a b)"
  have len: "length (s_signature a) = 64" "length (s_signature b) = 64"
    "length (message a) = 261" "length (message b) = 261"
    using assms by (simp_all add: signed_shape_def message_def length_receipt_to_bytes)
  note d = verify_two_data [OF assms(1-3), of R]
  have e: "subslice 2 16 ?d = entry_bytes 30" "subslice 16 30 ?d = entry_bytes 387"
    unfolding d by (simp_all add: len assms layout)
  have p: "subslice 94 126 ?d = signer" "subslice 126 387 ?d = message a" "subslice 30 94 ?d = s_signature a"
    "subslice 451 483 ?d = signer" "subslice 483 744 ?d = message b" "subslice 387 451 ?d = s_signature b"
    unfolding d by (simp_all add: len assms layout)
  have signed: "ed_verify C signer (message a) (s_signature a)" "ed_verify C signer (message b) (s_signature b)"
    using assms(4,5) by (simp_all add: verify_Inr)
  have "precompile_entry C ?d index (entry_bytes 30)" "precompile_entry C ?d index (entry_bytes 387)"
    using p signed by (simp_all only: precompile_entry_fields length_entry_bytes entry_fields) simp_all
  moreover have "unat (?d ! 0) = 2"
    unfolding d by simp
  ultimately show ?thesis
    using e by (auto simp: precompile_accepts_def less_2_cases_iff simp flip: numeral_2_eq_2)
qed

end
