(* ===== verification/Justice.thy ===== *)
theory Justice
  imports Compensation Court
begin

text \<open>
  The client and the program together: two receipts an operator signed for one position of one log,
  put into a transaction by the court crate, convict that operator; and whatever convicts an
  operator was signed by it.
\<close>

section \<open>When a conviction goes through\<close>

text \<open>
  What the system program does for a caller that keeps its rules: a signer that holds enough
  lamports and no data can fund a new account at an address the program derives, as long as nothing
  is there yet.
\<close>

definition create_available :: "runtime \<Rightarrow> pubkey \<Rightarrow> bool" where
  "create_available R p \<longleftrightarrow>
     (\<forall>payer target system seeds bump l s w.
        ai_is_signer payer \<and> ai_key payer \<noteq> ai_key target \<and> ai_key system = rt_system_program R \<and>
        rt_find_program_address R seeds p = (ai_key target, bump) \<and>
        w (ai_key target) = empty_account R \<and> ac_owner (w (ai_key payer)) = rt_system_program R \<and>
        ac_data (w (ai_key payer)) = [] \<and> l \<le> ac_lamports (w (ai_key payer)) \<and> unat s \<le> 10240 \<longrightarrow>
        \<not> is_err (rt_invoke R (Create_Account (ai_key payer) (ai_key target) l s p)
            [payer, target, system] [seeds @ [[bump]]] w))"

lemma create_availableD:
  assumes "create_available R p" and "ai_is_signer payer" "ai_key payer \<noteq> ai_key target"
    and "ai_key system = rt_system_program R" and "rt_find_program_address R seeds p = (ai_key target, bump)"
    and "w (ai_key target) = empty_account R" and "ac_owner (w (ai_key payer)) = rt_system_program R"
    and "ac_data (w (ai_key payer)) = []" and "l \<le> ac_lamports (w (ai_key payer))" and "unat s \<le> 10240"
  shows "\<exists>w'. rt_invoke R (Create_Account (ai_key payer) (ai_key target) l s p)
    [payer, target, system] [seeds @ [[bump]]] w = Inr w'"
  using assms unfolding create_available_def by (metis not_is_err_iff)

lemma pay_out_ok:
  assumes "ai_key a \<noteq> ai_key b" and "unat amount \<le> unat (ac_lamports (w (ai_key a)))"
    and "unat (ac_lamports (w (ai_key b))) + unat amount < 2 ^ 64"
  shows "pay_out a b amount w = Inr (move_lamports (ai_key a) (ai_key b) amount w)"
  using assms
  by (simp add: pay_out_def checked_sub_def checked_add_def move_lamports_def Let_def word_le_nat_alt)

lemma convict_ok:
  assumes ok: "runtime_ok R p" "create_available R p" and cov: "covered p rent w (ai_key k) acc"
    and rt: "rt_rent R = Inr rent" "rt_clock R = Inr slot" "ai_key system = rt_system_program R"
    and op: "operator_in p w (ai_key k) acc" "oa_bond acc \<noteq> 0" "length (ai_key k) = 32"
    and ev: "equivocation_check a b = Inr evidence"
    and pda: "rt_find_program_address R [CONVICTION_SEED, ai_key k,
      rt_hash R (fst (equivocation_ordered evidence)), rt_hash R (snd (equivocation_ordered evidence))] p =
      (ai_key c, bump)"
    and fresh: "w (ai_key c) = empty_account R"
    and payer: "ai_is_signer accuser" "ac_owner (w (ai_key accuser)) = rt_system_program R"
      "ac_data (w (ai_key accuser)) = []" "rent 154 \<le> ac_lamports (w (ai_key accuser))"
    and ne: "distinct (map ai_key [accuser, k, c, burn_to])"
    and room: "unat (ac_lamports (w (ai_key burn_to))) + unat (ac_lamports (w (ai_key k))) < 2 ^ 64"
      "unat (rent 154) + unat (ac_lamports (w (ai_key k))) < 2 ^ 64"
  shows "\<exists>w'. convict R p accuser k c burn_to system acc evidence w = Inr w'"
proof -
  let ?k = "ai_key k" and ?c = "ai_key c" and ?b = "ai_key burn_to"
  let ?low = "rt_hash R (fst (equivocation_ordered evidence))"
    and ?high = "rt_hash R (snd (equivocation_ordered evidence))"
  obtain pl applied where dist: "distribute (operator_pool acc) (split_of (oa_bond acc)) = (pl, applied)"
    by fastforce
  have "\<exists>w1. rt_invoke R (Create_Account (ai_key accuser) ?c (rent 154) 154 p)
      [accuser, c, system] [[CONVICTION_SEED, ?k, ?low, ?high] @ [[bump]]] w = Inr w1"
    using payer ne fresh rt(3) pda by (intro create_availableD [OF ok(2)]) auto
  then obtain w1 where create: "rt_invoke R (Create_Account (ai_key accuser) ?c (rent 154) 154 p)
      [accuser, c, system] [[CONVICTION_SEED, ?k, ?low, ?high, [bump]]] w = Inr w1"
    by auto
  have w1: "w1 = (set_lamports (ai_key accuser) (ac_lamports (w (ai_key accuser)) - rent 154) w)
      (?c := \<lparr>ac_lamports = rent 154, ac_owner = p, ac_data = replicate 154 0\<rparr>)"
    using create_Inr(5) [OF ok(1) create] by simp
  let ?new = "\<lparr>ca_operator = ?k, ca_wronged = wronged_signature evidence,
      ca_wronged_tx_hash = wronged_tx_hash evidence, ca_slashed = oa_bond acc,
      ca_owed_to_victim = sp_victim applied, ca_slot = slot, ca_bump = bump\<rparr>"
  have "conviction_shape ?new"
    using ev op(3)
    by (auto simp: equivocation_check_iff contradict_def well_formed_message_def equivocation_ordered_def
        conviction_shape_def wronged_signature_def wronged_tx_hash_def)
  then obtain e where e: "store_conviction ?c ?new w1 = Inr (set_data ?c e w1)"
    using conviction_write_bytes [of ?new "ac_data (w1 ?c)"] by (simp add: store_conviction_def w1)
  let ?acc = "operator_set_pool (acc\<lparr>oa_bond := 0\<rparr>) pl"
  have "operator_read (ac_data (set_data ?c e w1 ?k)) = Inr acc" "operator_shape ?acc"
    using op(1) ne operator_read_shape by (auto simp: operator_in_def w1)
  then obtain d where d: "store_operator ?k ?acc (set_data ?c e w1) = Inr (set_data ?k d (set_data ?c e w1))"
    by (rule store_operator_ok)
  let ?w = "set_data ?k d (set_data ?c e w1)"
  have lam: "ac_lamports (?w ?k) = ac_lamports (w ?k)" "ac_lamports (?w ?b) = ac_lamports (w ?b)"
    "ac_lamports (?w ?c) = rent 154"
    using ne by (auto simp: w1)
  have sum: "unat (sp_burn applied) + unat (sp_victim applied) \<le> unat (ac_lamports (w ?k))"
    using distribute_sum(1) [OF dist] covered_sum(3) [OF cov] by linarith
  have burn: "pay_out k burn_to (sp_burn applied) ?w = Inr (move_lamports ?k ?b (sp_burn applied) ?w)"
    using ne lam sum room by (intro pay_out_ok) auto
  have "pay_out k c (sp_victim applied) (move_lamports ?k ?b (sp_burn applied) ?w) =
      Inr (move_lamports ?k ?c (sp_victim applied) (move_lamports ?k ?b (sp_burn applied) ?w))"
    using ne lam sum room by (intro pay_out_ok) (auto simp: unat_minus_le word_le_nat_alt)
  moreover have "at_pda R c [CONVICTION_SEED, ?k, ?low, ?high] p = Inr bump"
    using pda by (simp add: at_pda_def)
  moreover have "ac_owner (w ?c) = rt_system_program R"
    using fresh by (simp add: empty_account_def)
  moreover have len: "CONVICTION_LEN = 154" "of_nat CONVICTION_LEN = (154 :: u64)"
    by (simp_all add: CONVICTION_LEN_def)
  ultimately have "convict R p accuser k c burn_to system acc evidence w =
      Inr (move_lamports ?k ?c (sp_victim applied) (move_lamports ?k ?b (sp_burn applied) ?w))"
    using op(2)
    by (simp only: convict_def Let_def split_beta dist fst_conv snd_conv rt create e d burn
        and_then_simps map_err_simps if_False simp_thms len)
  then show ?thesis
    by blast
qed

lemma court_evidence:
  assumes tx: "at_instruction R (court_prove_equivocation R ad accuser skey a b) 1"
    and shape: "signed_shape a" "signed_shape b" "length skey = 32"
    and same: "r_log_id (s_receipt a) = r_log_id (s_receipt b)" "r_seq (s_receipt a) = r_seq (s_receipt b)"
      "s_receipt a \<noteq> s_receipt b"
    and key: "oa_signing_key acc = skey"
  shows "\<exists>evidence. proven_evidence R acc \<lparr>ai_key = rt_sysvar_instructions R, ai_is_signer = False\<rparr> = Inr evidence \<and>
    equivocation_check (message a) (message b) = Inr evidence"
proof -
  have "contradict (message a) (message b)"
    using contradict_receipts same shape unfolding message_def signed_shape_def by blast
  then obtain evidence where ev: "equivocation_check (message a) (message b) = Inr evidence"
    by (simp add: equivocation_check_iff)
  have at: "rt_current_index R (rt_sysvar_instructions R) = Inr 1"
    "rt_instruction_at R 0 (rt_sysvar_instructions R) =
      Inr (rt_ed25519_program R, si_data (verify_two R skey a b))"
    using tx by (auto simp: at_instruction_def court_prove_equivocation_def verify_two_def Let_def split_beta)
  have len: "length (message a) = 261" "length (message b) = 261"
    using shape by (simp_all add: message_def signed_shape_def length_receipt_to_bytes)
  show ?thesis
    using ev at key len
    by (simp add: proven_evidence_def checked_sub_def verify_two_reads [OF shape] RECEIPT_LEN_def)
qed

lemma court_prove_ok:
  assumes ok: "runtime_ok R p" "create_available R p" and cov: "covered p rent w (ad_operator ad) acc"
    and rt: "rt_rent R = Inr rent" "rt_clock R = Inr slot"
    and tx: "at_instruction R (court_prove_equivocation R ad accuser skey a b) 1"
    and prog: "ad_program ad = p" "length (ad_operator ad) = 32"
    and shape: "signed_shape a" "signed_shape b"
    and same: "r_log_id (s_receipt a) = r_log_id (s_receipt b)" "r_seq (s_receipt a) = r_seq (s_receipt b)"
      "s_receipt a \<noteq> s_receipt b"
    and op: "operator_in p w (ad_operator ad) acc" "oa_signing_key acc = skey" "oa_bond acc \<noteq> 0"
    and c: "c = conviction_address R ad (message a) (message b)" "w c = empty_account R"
    and payer: "ac_owner (w accuser) = rt_system_program R" "ac_data (w accuser) = []"
      "rent 154 \<le> ac_lamports (w accuser)"
    and ne: "distinct [accuser, ad_operator ad, c, rt_incinerator R]"
    and room: "unat (ac_lamports (w (rt_incinerator R))) + unat (ac_lamports (w (ad_operator ad))) < 2 ^ 64"
      "unat (rent 154) + unat (ac_lamports (w (ad_operator ad))) < 2 ^ 64"
  shows "\<exists>w'. prove_equivocation R p (infos_of (court_prove_equivocation R ad accuser skey a b ! 1)) w = Inr w'"
proof -
  have read: "operator_read (ac_data (w (ad_operator ad))) = Inr acc" "ac_owner (w (ad_operator ad)) = p"
    using op(1) by (simp_all add: operator_in_def)
  have skey: "length skey = 32"
    using operator_read_shape [OF read(1)] op(2) by (simp add: operator_shape_def)
  let ?i = "\<lambda>k. \<lparr>ai_key = k, ai_is_signer = False\<rparr>"
  obtain evidence where proven: "proven_evidence R acc (?i (rt_sysvar_instructions R)) = Inr evidence"
    and ev: "equivocation_check (message a) (message b) = Inr evidence"
    using court_evidence [OF tx shape skey same op(2)] by blast
  have fst_c: "c = fst (rt_find_program_address R [CONVICTION_SEED, ad_operator ad,
      rt_hash R (fst (equivocation_ordered evidence)), rt_hash R (snd (equivocation_ordered evidence))] p)"
    using ev by (simp add: c(1) conviction_address_def equivocation_check_iff equivocation_ordered_def prog Let_def)
  obtain bump where pda: "rt_find_program_address R [CONVICTION_SEED, ad_operator ad,
      rt_hash R (fst (equivocation_ordered evidence)), rt_hash R (snd (equivocation_ordered evidence))] p = (c, bump)"
    unfolding fst_c by (metis prod.collapse)
  have "\<exists>w'. convict R p \<lparr>ai_key = accuser, ai_is_signer = True\<rparr> (?i (ad_operator ad)) (?i c)
      (?i (rt_incinerator R)) (?i (rt_system_program R)) acc evidence w = Inr w'"
    using cov prog op c(2) payer ne room pda
    by (intro convict_ok [OF ok _ rt _ _ _ _ ev]) auto
  then have "\<exists>w'. prove_equivocation R p [\<lparr>ai_key = accuser, ai_is_signer = True\<rparr>, ?i (ad_operator ad), ?i c,
      ?i (rt_incinerator R), ?i (rt_sysvar_instructions R), ?i (rt_system_program R)] w = Inr w'"
    using proven read by (simp add: prove_equivocation_def owned_by_def load_operator_def)
  moreover have "infos_of (court_prove_equivocation R ad accuser skey a b ! 1) =
      [\<lparr>ai_key = accuser, ai_is_signer = True\<rparr>, ?i (ad_operator ad), ?i c,
       ?i (rt_incinerator R), ?i (rt_sysvar_instructions R), ?i (rt_system_program R)]"
    by (simp add: c(1) court_prove_equivocation_def infos_of_def meta_new_def meta_readonly_def Let_def)
  ultimately show ?thesis
    by (simp only:)
qed

section \<open>Properties\<close>

text \<open>
  C2. Two receipts convict: given two different receipts that verify under the key an operator
  registered and name one position of one log, the precompile accepts the first instruction of the
  transaction the court builds and the program accepts the second, in every reachable state in
  which the operator has a bond, the address of this conviction holds nothing, not even lamports, and
  the accuser is a wallet that can pay the rent; provided the operator's bond and rent did not
  overflow when it registered.
\<close>
theorem court_convicts:
  assumes "runtime_ok R p" and "create_available R p" and "chain_reachable p rent log w"
    and "rt_rent R = Inr rent" and "rt_clock R = Inr slot"
    and "ad = addresses_new R p authority" and "length (ad_operator ad) = 32"
    and "transaction = court_prove_equivocation R ad accuser skey a b"
    and "at_instruction R transaction 1"
    and "signed_shape a" and "signed_shape b"
    and "verify C a skey = Inr ()" and "verify C b skey = Inr ()"
    and "r_log_id (s_receipt a) = r_log_id (s_receipt b)" and "r_seq (s_receipt a) = r_seq (s_receipt b)"
    and "s_receipt a \<noteq> s_receipt b"
    and "operator_in p w (ad_operator ad) acc" and "ad_operator ad \<notin> overbonded rent log"
    and "oa_signing_key acc = skey" and "oa_bond acc \<noteq> 0"
    and "c = conviction_address R ad (message a) (message b)" and "w c = empty_account R"
    and "ac_owner (w accuser) = rt_system_program R" and "ac_data (w accuser) = []"
    and "rent 154 \<le> ac_lamports (w accuser)"
    and "distinct [accuser, ad_operator ad, c, rt_incinerator R]"
    and "unat (ac_lamports (w (rt_incinerator R))) + unat (ac_lamports (w (ad_operator ad))) < 2 ^ 64"
    and "unat (rent 154) + unat (ac_lamports (w (ad_operator ad))) < 2 ^ 64"
  shows "precompile_accepts C (si_data (transaction ! 0)) 0 \<and>
    (\<exists>w'. process R p (infos_of (transaction ! 1)) (si_data (transaction ! 1)) w = Inr w')"
proof -
  have skey: "length skey = 32"
    using operator_read_shape assms(17,19) by (auto simp: operator_in_def operator_shape_def)
  have "ad_program ad = p"
    by (simp add: assms(6) addresses_new_def split_beta)
  then have "\<exists>w'. prove_equivocation R p (infos_of (transaction ! 1)) w = Inr w'"
    using court_prove_ok [OF assms(1,2) chain_reachable_covered [OF assms(3,17,18)] assms(4,5) assms(9) [unfolded assms(8)] _
      assms(7,10,11,14-17,19-28)] unfolding assms(8) by blast
  moreover have "si_data (transaction ! 1) = instruction_write ProveEquivocation"
    by (simp add: assms(8) court_prove_equivocation_def Let_def)
  ultimately have "\<exists>w'. process R p (infos_of (transaction ! 1)) (si_data (transaction ! 1)) w = Inr w'"
    by (simp only: process_write instruction_shape_def slash_instruction.case process_instruction.simps simp_thms)
  moreover have "precompile_accepts C (si_data (transaction ! 0)) 0"
    using verify_two_accepted [OF assms(10,11) skey assms(12,13)]
    by (simp add: assms(8) court_prove_equivocation_def Let_def)
  ultimately show ?thesis
    by blast
qed

text \<open>
  C1. Only what an operator signed convicts it: when a conviction goes through and the precompile
  accepted the instruction before it, two different messages for one position of one log verify
  under the key the operator registered. An operator whose key never signed two such messages
  cannot lose its bond this way.
\<close>
theorem conviction_is_deserved:
  assumes "runtime_ok R p" and "keys_ok accounts" and "prove_equivocation R p accounts w = Inr w'"
    and "\<And>here data. rt_current_index R (ai_key (accounts ! 4)) = Inr here \<Longrightarrow>
      rt_instruction_at R (unat (here - 1)) (ai_key (accounts ! 4)) = Inr (rt_ed25519_program R, data) \<Longrightarrow>
      precompile_accepts C data (here - 1)"
  shows "\<exists>acc a b sa sb. operator_in p w (ai_key (accounts ! 1)) acc \<and> contradict a b \<and>
    ed_verify C (oa_signing_key acc) a sa \<and> ed_verify C (oa_signing_key acc) b sb"
  using assms(2,3)
proof (rule prove_equivocation_Inr, goal_cases)
  case (1 accuser operator_info conviction_info burn_to sysvar system rest acc evidence)
  have op: "operator_in p w (ai_key (accounts ! 1)) acc"
    using 1(1,5,6) by (simp add: operator_in_def)
  have sysvar: "accounts ! 4 = sysvar"
    using 1(1) by simp
  from 1(8) show ?case
  proof (rule proven_evidence_Inr, goal_cases)
    case (1 here data a b)
    note accepted = assms(4) [unfolded sysvar, OF 1(1,3)]
    obtain sa sb where "ed_verify C (oa_signing_key acc) a sa" "ed_verify C (oa_signing_key acc) b sb"
      using verified_pairs_signed [OF 1(4) accepted, of "\<lparr>v_key = oa_signing_key acc, v_message = a\<rparr>"]
        verified_pairs_signed [OF 1(4) accepted, of "\<lparr>v_key = oa_signing_key acc, v_message = b\<rparr>"] by auto
    with op 1(5) show ?case
      by blast
  qed
qed

end
