(* ===== verification/Demo_Trial.thy ===== *)
theory Demo_Trial
  imports Justice
begin

text \<open>
  A trial on the small chain: the operator of \<open>demo_staked\<close> signs two receipts for position 7 of
  one log, and the transaction the court builds from them runs. The witnesses of the properties
  about convictions evaluate here.
\<close>

definition demo_signed :: "u8 \<Rightarrow> signed_receipt" where
  "demo_signed tag = \<lparr>s_receipt = demo_receipt 7 tag,
     s_signature = ed_sign demo_crypto (key_of 5) (receipt_to_bytes (demo_receipt 7 tag))\<rparr>"

definition demo_addresses :: addresses where
  "demo_addresses = \<lparr>ad_program = key_of 10, ad_operator = demo_operator\<rparr>"

definition demo_transaction :: "u8 \<Rightarrow> u8 \<Rightarrow> solana_instruction list" where
  "demo_transaction x y = court_prove_equivocation (demo_runtime 20 []) demo_addresses (key_of 2) (key_of 5)
     (demo_signed x) (demo_signed y)"

definition demo_court :: "u8 \<Rightarrow> u8 \<Rightarrow> runtime" where
  "demo_court x y = (demo_runtime 20 [])\<lparr>rt_instruction_at := (\<lambda>j _.
     if j < 2 then Inr (si_program_id (demo_transaction x y ! j), si_data (demo_transaction x y ! j))
     else Inl (Runtime_Error 3))\<rparr>"

lemma demo_court_fields [simp]:
  "rt_system_program (demo_court x y) = key_of 0" "rt_rent (demo_court x y) = Inr demo_rent"
  "rt_incinerator (demo_court x y) = key_of 7" "rt_clock (demo_court x y) = Inr 20"
  "rt_sysvar_instructions (demo_court x y) = key_of 9" "rt_current_index (demo_court x y) k = Inr 1"
  "rt_ed25519_program (demo_court x y) = key_of 8"
  "rt_hash (demo_court x y) = sha256 demo_crypto"
  "rt_find_program_address (demo_court x y) = rt_find_program_address (demo_runtime 20 [])"
  "rt_invoke (demo_court x y) i infos seeds w = system_program (key_of 0) i w"
  by (simp_all add: demo_court_def demo_runtime_def)

lemma demo_court_ok: "runtime_ok (demo_court x y) (key_of 10)"
  by (auto simp: runtime_ok_def empty_account_def split: if_splits)

lemma demo_court_create: "create_available (demo_court x y) (key_of 10)"
  by (auto simp: create_available_def empty_account_def)

lemma demo_court_transaction:
  "court_prove_equivocation (demo_court x y) demo_addresses (key_of 2) (key_of 5) (demo_signed x) (demo_signed y) =
   demo_transaction x y"
  by (simp add: demo_transaction_def court_prove_equivocation_def verify_two_def conviction_address_def
      demo_court_def demo_runtime_def split_beta Let_def)

lemma demo_court_runs: "at_instruction (demo_court x y) (demo_transaction x y) 1"
proof -
  have "length (demo_transaction x y) = 2"
    by (simp add: demo_transaction_def court_prove_equivocation_def Let_def)
  then show ?thesis
    by (simp add: at_instruction_def) (simp add: demo_court_def)
qed

lemma demo_addresses_new: "addresses_new (demo_court x y) (key_of 10) (key_of 1) = demo_addresses"
  by (simp add: addresses_new_def demo_addresses_def demo_runtime_def demo_operator_def OPERATOR_SEED_def
      key_of_def)

lemma demo_addresses_fields [simp]: "ad_program demo_addresses = key_of 10" "ad_operator demo_addresses = demo_operator"
  by (simp_all add: demo_addresses_def)

lemma demo_signed_ok:
  "signed_shape (demo_signed x)" "x \<noteq> 0 \<Longrightarrow> verify demo_crypto (demo_signed x) (key_of 5) = Inr ()"
proof -
  show "signed_shape (demo_signed x)"
    by (simp add: signed_shape_def demo_signed_def demo_receipt_shape crypto_okD [OF demo_crypto_ok])
  have "verifying_key demo_crypto (key_of 5) = key_of 5"
    by (simp add: demo_crypto_def key_of_def)
  then show "verify demo_crypto (demo_signed x) (key_of 5) = Inr ()" if "x \<noteq> 0"
    using crypto_okD(5) [OF demo_crypto_ok, of "key_of 5"] that
    by (simp add: verify_Inr demo_signed_def demo_receipt_validate message_def)
qed

lemma demo_signed_same:
  "r_log_id (s_receipt (demo_signed x)) = r_log_id (s_receipt (demo_signed y))"
  "r_seq (s_receipt (demo_signed x)) = r_seq (s_receipt (demo_signed y))"
  "s_receipt (demo_signed x) = s_receipt (demo_signed y) \<longleftrightarrow> x = y"
  by (auto simp: demo_signed_def demo_receipt_def)

definition demo_conviction :: "u8 \<Rightarrow> u8 \<Rightarrow> pubkey" where
  "demo_conviction x y =
     conviction_address (demo_runtime 20 []) demo_addresses (message (demo_signed x)) (message (demo_signed y))"

lemma demo_conviction_tag: "hd (demo_conviction x y) = 99" "length (demo_conviction x y) = 32"
  by (simp_all add: demo_conviction_def conviction_address_def demo_runtime_def CONVICTION_SEED_def Let_def split_beta)

lemma demo_conviction_neq [simp]:
  "b \<noteq> 99 \<Longrightarrow> key_of b \<noteq> demo_conviction x y" "b \<noteq> 99 \<Longrightarrow> demo_conviction x y \<noteq> key_of b"
  "demo_operator \<noteq> demo_conviction x y" "demo_conviction x y \<noteq> demo_operator"
  "demo_position \<noteq> demo_conviction x y" "demo_conviction x y \<noteq> demo_position"
  using demo_conviction_tag(1) [of x y]
  by (auto simp: key_of_def demo_operator_def demo_position_def dest!: arg_cong [of _ _ hd])

definition demo_infos :: "u8 \<Rightarrow> u8 \<Rightarrow> account_info list" where
  "demo_infos x y = [signer (key_of 2), nonsigner demo_operator, nonsigner (demo_conviction x y),
     nonsigner (key_of 7), nonsigner (key_of 9), nonsigner (key_of 0)]"

lemma demo_infos: "infos_of (demo_transaction x y ! 1) = demo_infos x y"
  by (simp add: infos_of_def demo_transaction_def court_prove_equivocation_def demo_infos_def meta_new_def
      meta_readonly_def signer_def nonsigner_def demo_conviction_def Let_def)
    (simp add: demo_runtime_def demo_addresses_def)

lemma demo_infos_keys: "keys_ok (demo_infos x y)"
  by (simp add: keys_ok_def demo_infos_def demo_conviction_tag)

lemma demo_staked_wallets [simp]:
  "demo_staked (demo_conviction x y) = wallet 0" "demo_staked (key_of 2) = wallet 1000000"
  "demo_staked (key_of 7) = wallet 0" "ac_lamports (demo_staked demo_operator) = 2460"
  by (simp_all add: demo_staked_def world_of_def wallet_def)

lemma demo_in_cover: "k \<notin> overbonded demo_rent demo_log"
  by (simp add: demo_not_overbonded)

lemma demo_trial:
  assumes "x \<noteq> y"
  shows "\<exists>w'. prove_equivocation (demo_court x y) (key_of 10) (demo_infos x y) demo_staked = Inr w'"
proof -
  have ne: "distinct [key_of 2, ad_operator demo_addresses, demo_conviction x y, rt_incinerator (demo_court x y)]"
    by simp
  have c: "demo_conviction x y =
      conviction_address (demo_court x y) demo_addresses (message (demo_signed x)) (message (demo_signed y))"
    by (simp add: demo_conviction_def conviction_address_def) (simp add: demo_runtime_def)
  have op: "operator_in (key_of 10) demo_staked (ad_operator demo_addresses) demo_staked_operator"
    by (simp add: demo_staked_operator_in)
  have "\<exists>w'. prove_equivocation (demo_court x y) (key_of 10)
      (infos_of (court_prove_equivocation (demo_court x y) demo_addresses (key_of 2) (key_of 5)
        (demo_signed x) (demo_signed y) ! 1)) demo_staked = Inr w'"
  proof (rule court_prove_ok [OF demo_court_ok demo_court_create chain_reachable_covered [OF demo_staked_reachable op demo_in_cover]
        _ _ demo_court_runs [folded demo_court_transaction] _ _ demo_signed_ok(1,1) demo_signed_same(1,2) _ op _ _ c _ _ _ _ ne])
  qed (use assms in \<open>simp_all add: demo_signed_same
      demo_staked_operator_def empty_account_def wallet_def demo_rent_def\<close>)
  then show ?thesis
    unfolding demo_court_transaction demo_infos .
qed

lemma demo_trial_step:
  assumes "prove_equivocation (demo_court x y) (key_of 10) (demo_infos x y) demo_staked = Inr w'"
  shows "chain_step (key_of 10) demo_rent demo_staked w'"
proof (rule chain_step.Program [OF demo_court_ok _ demo_infos_keys])
  show "process (demo_court x y) (key_of 10) (demo_infos x y) (instruction_write ProveEquivocation) demo_staked = Inr w'"
    using assms by (simp only: process_write instruction_shape_def slash_instruction.case process_instruction.simps)
qed simp

section \<open>Unbonding on the small chain\<close>

definition demo_unbonding_log :: "(account_info list \<times> bytes) list" where
  "demo_unbonding_log = demo_log @ [([signer (key_of 1), nonsigner demo_operator], instruction_write BeginUnbond)]"

lemma demo_unbonding_not_overbonded: "overbonded demo_rent demo_unbonding_log = {}"
proof -
  have "instruction_read (instruction_write BeginUnbond) = Inr BeginUnbond"
    by (rule instruction_read_write) (simp add: instruction_shape_def)
  then show ?thesis
    using demo_not_overbonded by (simp add: demo_unbonding_log_def overbonded_def)
qed

lemma demo_unbonding:
  obtains w1 where "begin_unbond (demo_runtime 6 []) (key_of 10) [signer (key_of 1), nonsigner demo_operator] demo_staked = Inr w1"
    and "operator_in (key_of 10) w1 demo_operator (demo_staked_operator\<lparr>oa_unbond_at := 216006\<rparr>)"
    and "unat (ac_lamports (w1 (key_of 1))) + unat (ac_lamports (w1 demo_operator)) < 2 ^ 64"
    and "chain_reachable (key_of 10) demo_rent demo_unbonding_log w1"
    and "timed_step (key_of 10) (5, demo_staked) (6, w1)"
proof -
  let ?acc = "demo_staked_operator\<lparr>oa_unbond_at := 216006\<rparr>"
  obtain d where d: "store_operator demo_operator ?acc demo_staked = Inr (set_data demo_operator d demo_staked)"
    "operator_read d = Inr ?acc"
    by (rule store_operator_ok [where w = demo_staked and k = demo_operator and acc = ?acc,
          OF demo_staked_reads(2)]) (simp_all add: operator_shape_def demo_staked_operator_def)
  let ?w = "set_data demo_operator d demo_staked"
  have run: "begin_unbond (demo_runtime 6 []) (key_of 10) [signer (key_of 1), nonsigner demo_operator] demo_staked = Inr ?w"
    using d(1)
    by (simp add: begin_unbond_def as_authority_def owned_by_def load_operator_def demo_staked_reads)
      (simp add: demo_staked_operator_def demo_runtime_def UNBOND_SLOTS_def)
  have process: "process (demo_runtime 6 []) (key_of 10) [signer (key_of 1), nonsigner demo_operator]
      (instruction_write BeginUnbond) demo_staked = Inr ?w"
    using run by (simp only: process_write instruction_shape_def slash_instruction.case process_instruction.simps)
  have keys: "keys_ok [signer (key_of 1), nonsigner demo_operator]"
    by (simp add: keys_ok_def)
  have "chain_reachable (key_of 10) demo_rent demo_unbonding_log ?w"
    unfolding demo_unbonding_log_def
    by (rule chain_reachable.Ran [OF demo_staked_reachable demo_runtime_ok _ keys process]) simp
  moreover have "timed_step (key_of 10) (5, demo_staked) (6, ?w)"
    by (rule timed_step.Timed_Program [OF demo_runtime_ok keys _ _ process]) (simp_all add: demo_runtime_def)
  moreover have "operator_in (key_of 10) ?w demo_operator ?acc"
    by (simp add: operator_in_def d demo_staked_reads)
  moreover have "unat (ac_lamports (?w (key_of 1))) + unat (ac_lamports (?w demo_operator)) < 2 ^ 64"
    by (simp add: demo_staked_def world_of_def wallet_def)
  ultimately show thesis
    using that [of ?w] run by blast
qed

section \<open>Witnesses\<close>

theorem slashed_at_most_once_witness:
  "\<exists>w1. prove_equivocation (demo_court 1 2) (key_of 10) (demo_infos 1 2) demo_staked = Inr w1 \<and>
     is_err (prove_equivocation (demo_court 3 2) (key_of 10) (demo_infos 3 2) w1)"
proof -
  obtain w1 where w1: "prove_equivocation (demo_court 1 2) (key_of 10) (demo_infos 1 2) demo_staked = Inr w1"
    using demo_trial [of 1 2] by auto
  then show ?thesis
    using slashed_at_most_once [OF demo_court_ok demo_infos_keys w1 rtranclp.rtrancl_refl demo_court_ok demo_infos_keys]
    by (simp add: demo_infos_def)
qed

theorem operator_terms_fixed_witness:
  "\<exists>w1 acc. prove_equivocation (demo_court 1 2) (key_of 10) (demo_infos 1 2) demo_staked = Inr w1 \<and>
     operator_in (key_of 10) w1 demo_operator acc \<and> oa_signing_key acc = key_of 5"
proof -
  obtain w1 where w1: "prove_equivocation (demo_court 1 2) (key_of 10) (demo_infos 1 2) demo_staked = Inr w1"
    using demo_trial [of 1 2] by auto
  have "oa_signing_key demo_staked_operator = key_of 5"
    by (simp add: demo_staked_operator_def)
  then show ?thesis
    using w1 operator_terms_fixed [OF r_into_rtranclp demo_staked_operator_in] demo_trial_step [OF w1] by metis
qed

theorem bond_timelock_witness:
  "\<exists>w1 w2. (timed_step (key_of 10))\<^sup>*\<^sup>* (5, demo_staked) (6, w1) \<and>
     withdraw_bond (demo_runtime 300000 []) (key_of 10) [signer (key_of 1), nonsigner demo_operator] w1 = Inr w2 \<and>
     unat (5 :: u64) + 216000 \<le> unat (300000 :: u64)"
proof (rule demo_unbonding)
  fix w1
  let ?acc = "demo_staked_operator\<lparr>oa_unbond_at := 216006\<rparr>"
  assume op: "operator_in (key_of 10) w1 demo_operator ?acc"
    and room: "unat (ac_lamports (w1 (key_of 1))) + unat (ac_lamports (w1 demo_operator)) < 2 ^ 64"
    and reach: "chain_reachable (key_of 10) demo_rent demo_unbonding_log w1"
    and timed: "timed_step (key_of 10) (5, demo_staked) (6, w1)"
  have auth: "oa_authority ?acc = key_of 1" "oa_unbond_at ?acc = 216006" "oa_unbond_at demo_staked_operator = 0"
    by (simp_all add: demo_staked_operator_def)
  have clock: "rt_clock (demo_runtime 300000 []) = Inr 300000"
    by (simp add: demo_runtime_def)
  have "\<exists>w2. withdraw_bond (demo_runtime 300000 []) (key_of 10) [signer (key_of 1), nonsigner demo_operator] w1 = Inr w2"
    using withdraw_bond_ok [OF chain_reachable_covered [OF reach op] demo_runtime_fields(2) clock op, of False] auth room
      demo_unbonding_not_overbonded by (auto simp: signer_def nonsigner_def)
  then obtain w2 where
    w2: "withdraw_bond (demo_runtime 300000 []) (key_of 10) [signer (key_of 1), nonsigner demo_operator] w1 = Inr w2" ..
  have run: "(timed_step (key_of 10))\<^sup>*\<^sup>* (5, demo_staked) (6, w1)"
    using timed by blast
  have "unat (5 :: u64) + 216000 \<le> unat (300000 :: u64)"
    by (rule bond_timelock [OF run demo_staked_operator_in auth(3) w2 _ _ clock]) simp_all
  with run w2 show ?thesis
    by blast
qed

theorem unbonded_never_lapses_witness:
  "\<exists>w1 w2. chain_reachable (key_of 10) demo_rent demo_unbonding_log w1 \<and>
     withdraw_bond (demo_runtime 300000 []) (key_of 10)
       [\<lparr>ai_key = key_of 1, ai_is_signer = True\<rparr>, \<lparr>ai_key = demo_operator, ai_is_signer = False\<rparr>] w1 = Inr w2 \<and>
     ac_lamports (w2 (key_of 1)) = ac_lamports (w1 (key_of 1)) + 1000"
proof (rule demo_unbonding)
  fix w1
  let ?acc = "demo_staked_operator\<lparr>oa_unbond_at := 216006\<rparr>"
  assume op: "operator_in (key_of 10) w1 demo_operator ?acc"
    and room: "unat (ac_lamports (w1 (key_of 1))) + unat (ac_lamports (w1 demo_operator)) < 2 ^ 64"
    and reach: "chain_reachable (key_of 10) demo_rent demo_unbonding_log w1"
  have acc: "oa_authority ?acc = key_of 1" "oa_unbond_at ?acc = 216006" "oa_bond ?acc = 1000"
    by (simp_all add: demo_staked_operator_def)
  have clock: "rt_clock (demo_runtime 300000 []) = Inr 300000"
    by (simp add: demo_runtime_def)
  show ?thesis
    using unbonded_never_lapses [OF reach demo_runtime_fields(2) clock op] demo_unbonding_not_overbonded acc room reach by auto
qed

theorem debit_needs_signature_witness:
  "ac_lamports (demo_staked (key_of 3)) < ac_lamports (demo_registered (key_of 3)) \<and>
   ai_is_signer (signer (key_of 3)) \<and> key_of 3 = ai_key (signer (key_of 3))"
proof -
  have less: "ac_lamports (demo_staked (key_of 3)) < ac_lamports (demo_registered (key_of 3))"
    and ne: "ac_owner (demo_registered (key_of 3)) \<noteq> key_of 10"
    by (simp_all add: demo_staked_def demo_registered_def world_of_def wallet_def)
  show ?thesis
    using debit_needs_signature [OF demo_runtime_ok _ demo_staked_run ne less] less by (simp add: keys_ok_def)
qed

theorem conviction_effect_witness:
  "\<exists>w1 acc c. prove_equivocation (demo_court 1 2) (key_of 10) (demo_infos 1 2) demo_staked = Inr w1 \<and>
     operator_in (key_of 10) w1 demo_operator acc \<and> oa_bond acc = 0 \<and>
     conviction_in (key_of 10) w1 (demo_conviction 1 2) c \<and> ca_slashed c = 1000"
proof -
  obtain w1 where w1: "prove_equivocation (demo_court 1 2) (key_of 10) (demo_infos 1 2) demo_staked = Inr w1"
    using demo_trial [of 1 2] by auto
  have ne: "distinct (map ai_key [signer (key_of 2), nonsigner demo_operator, nonsigner (demo_conviction 1 2),
      nonsigner (key_of 7)])"
    by simp
  have "oa_bond acc = 1000" if "operator_in (key_of 10) demo_staked demo_operator acc" for acc
    using in_unique(1) [OF demo_staked_operator_in that] by (simp add: demo_staked_operator_def)
  moreover obtain acc pl c where "operator_in (key_of 10) demo_staked demo_operator acc"
    "operator_in (key_of 10) w1 demo_operator (operator_set_pool (acc\<lparr>oa_bond := 0\<rparr>) pl)"
    "conviction_in (key_of 10) w1 (demo_conviction 1 2) c" "ca_slashed c = oa_bond acc"
    using conviction_effect [OF demo_court_ok demo_infos_keys demo_infos_def ne w1, unfolded info_simps] by blast
  moreover have "oa_bond (operator_set_pool (acc\<lparr>oa_bond := 0\<rparr>) pl) = 0"
    by (simp add: operator_set_pool_def)
  ultimately show ?thesis
    using w1 by metis
qed

theorem court_convicts_witness:
  "\<exists>w1. process (demo_court 1 2) (key_of 10) (infos_of (demo_transaction 1 2 ! 1))
     (si_data (demo_transaction 1 2 ! 1)) demo_staked = Inr w1"
proof -
  have ne: "distinct [key_of 2, ad_operator demo_addresses, demo_conviction 1 2, rt_incinerator (demo_court 1 2)]"
    by simp
  have c: "demo_conviction 1 2 =
      conviction_address (demo_court 1 2) demo_addresses (message (demo_signed 1)) (message (demo_signed 2))"
    by (simp add: demo_conviction_def conviction_address_def) (simp add: demo_runtime_def)
  have op: "operator_in (key_of 10) demo_staked (ad_operator demo_addresses) demo_staked_operator"
    by (simp add: demo_staked_operator_in)
  have "precompile_accepts demo_crypto (si_data (demo_transaction 1 2 ! 0)) 0 \<and>
      (\<exists>w1. process (demo_court 1 2) (key_of 10) (infos_of (demo_transaction 1 2 ! 1))
        (si_data (demo_transaction 1 2 ! 1)) demo_staked = Inr w1)"
    by (rule court_convicts [OF demo_court_ok demo_court_create demo_staked_reachable _ _
          demo_addresses_new [symmetric] _ demo_court_transaction [symmetric] demo_court_runs
          demo_signed_ok(1,1) demo_signed_ok(2,2) demo_signed_same(1,2) _ op demo_in_cover _ _ c _ _ _ _ ne])
      (simp_all add: demo_signed_same demo_staked_operator_def empty_account_def wallet_def demo_rent_def)
  then show ?thesis
    by blast
qed

theorem conviction_is_deserved_witness:
  "\<exists>a b sa sb. contradict a b \<and> ed_verify demo_crypto (key_of 5) a sa \<and> ed_verify demo_crypto (key_of 5) b sb"
proof -
  obtain w1 where w1: "prove_equivocation (demo_court 1 2) (key_of 10) (demo_infos 1 2) demo_staked = Inr w1"
    using demo_trial [of 1 2] by auto
  have zero: "si_data (demo_transaction 1 2 ! 0) =
      si_data (verify_two (demo_runtime 20 []) (key_of 5) (demo_signed 1) (demo_signed 2))"
    by (simp add: demo_transaction_def court_prove_equivocation_def Let_def)
  have "precompile_accepts demo_crypto (si_data (demo_transaction 1 2 ! 0)) 0"
    unfolding zero by (rule verify_two_accepted [OF demo_signed_ok(1,1) _ demo_signed_ok(2,2)]) simp_all
  then have accepted: "precompile_accepts demo_crypto data (here - 1)"
    if here: "rt_current_index (demo_court 1 2) (ai_key (demo_infos 1 2 ! 4)) = Inr here"
      and at: "rt_instruction_at (demo_court 1 2) (unat (here - 1)) (ai_key (demo_infos 1 2 ! 4)) =
        Inr (rt_ed25519_program (demo_court 1 2), data)" for here data
  proof -
    have "here = 1"
      using here by simp
    with at have "data = si_data (demo_transaction 1 2 ! 0)"
      by (simp add: demo_court_def)
    then show ?thesis
      using \<open>here = 1\<close> \<open>precompile_accepts demo_crypto (si_data (demo_transaction 1 2 ! 0)) 0\<close> by simp
  qed
  have at: "ai_key (demo_infos 1 2 ! 1) = demo_operator"
    by (simp add: demo_infos_def)
  obtain acc a b sa sb where op: "operator_in (key_of 10) demo_staked demo_operator acc" and ab: "contradict a b"
    "ed_verify demo_crypto (oa_signing_key acc) a sa" "ed_verify demo_crypto (oa_signing_key acc) b sb"
    using conviction_is_deserved [OF demo_court_ok demo_infos_keys w1 accepted, unfolded at] by blast
  have "oa_signing_key acc = key_of 5"
    using in_unique(1) [OF demo_staked_operator_in op] by (simp add: demo_staked_operator_def)
  with ab show ?thesis
    by metis
qed

lemma claim_victim_ok:
  assumes c: "conviction_in p w k c" and wire: "rt_hash R wire = ca_wronged_tx_hash c" "fee_payer wire = Inr j"
    and pay: "j \<noteq> k" "unat (ca_owed_to_victim c) \<le> unat (ac_lamports (w k))"
      "unat (ac_lamports (w j)) + unat (ca_owed_to_victim c) < 2 ^ 64"
  shows "\<exists>w'. claim_victim R p [signer j, nonsigner k] wire w = Inr w' \<and>
    conviction_in p w' k (c\<lparr>ca_owed_to_victim := 0\<rparr>) \<and>
    ac_lamports (w' j) = ac_lamports (w j) + ca_owed_to_victim c"
proof -
  let ?c = "c\<lparr>ca_owed_to_victim := 0\<rparr>"
  have read: "conviction_read (ac_data (w k)) = Inr c" and owner: "ac_owner (w k) = p"
    using c by (simp_all add: conviction_in_def)
  have "conviction_shape ?c"
    using conviction_read_shape [OF read] by simp
  then obtain d where d: "conviction_write ?c (ac_data (w k)) = Inr d" "conviction_read d = Inr ?c"
    by (rule conviction_layout.store_total [OF _ read])
  then have store: "store_conviction k ?c w = Inr (set_data k d w)"
    by (simp add: store_conviction_def)
  have "pay_out (nonsigner k) (signer j) (ca_owed_to_victim c) (set_data k d w) =
      Inr (move_lamports k j (ca_owed_to_victim c) (set_data k d w))"
    using pay pay_out_ok [of "nonsigner k" "signer j" "ca_owed_to_victim c" "set_data k d w"] by simp
  then have "claim_victim R p [signer j, nonsigner k] wire w =
      Inr (move_lamports k j (ca_owed_to_victim c) (set_data k d w))"
    using read owner wire store by (simp add: claim_victim_def owned_by_def load_conviction_def)
  then show ?thesis
    using d(2) owner pay(1) by (simp add: conviction_in_def)
qed

definition demo_wire :: bytes where
  "demo_wire = shortvec 1 @ replicate 64 7 @ [1, 0, 1] @ shortvec 2 @ key_of 3 @ replicate 32 0xb2"

definition demo_judgment :: conviction_account where
  "demo_judgment = \<lparr>ca_operator = demo_operator, ca_wronged = replicate 64 1, ca_wronged_tx_hash = replicate 32 0xb2,
     ca_slashed = 1000, ca_owed_to_victim = 300, ca_slot = 20, ca_bump = 255\<rparr>"

definition demo_judged :: world where
  "demo_judged = world_of [(key_of 3, wallet 1000),
     (demo_operator, \<lparr>ac_lamports = 1840, ac_owner = key_of 10, ac_data = conviction_bytes demo_judgment\<rparr>)]"

theorem victim_paid_once_witness:
  "\<exists>w1 w2. claim_victim (demo_runtime 30 []) (key_of 10) [signer (key_of 3), nonsigner demo_operator] demo_wire demo_judged = Inr w1 \<and>
     claim_victim (demo_runtime 31 []) (key_of 10) [signer (key_of 3), nonsigner demo_operator] demo_wire w1 = Inr w2 \<and>
     unat (ac_lamports (w1 (key_of 3))) = 1300 \<and> ac_lamports (w2 (key_of 3)) = ac_lamports (w1 (key_of 3))"
proof -
  let ?as = "[signer (key_of 3), nonsigner demo_operator]" and ?paid = "demo_judgment\<lparr>ca_owed_to_victim := 0\<rparr>"
  have "conviction_shape demo_judgment"
    by (simp add: conviction_shape_def demo_judgment_def)
  then have c: "conviction_in (key_of 10) demo_judged demo_operator demo_judgment"
    using conviction_layout.load_encode [of demo_judgment "[]"]
    by (simp add: conviction_in_def demo_judged_def world_of_def)
  have hash: "rt_hash (demo_runtime t []) demo_wire = replicate 32 0xb2" for t
    by (simp add: demo_runtime_def demo_crypto_def demo_wire_def)
  have payer: "fee_payer demo_wire = Inr (key_of 3)"
    by code_simp
  obtain w1 where w1: "claim_victim (demo_runtime 30 []) (key_of 10) ?as demo_wire demo_judged = Inr w1"
    and c1: "conviction_in (key_of 10) w1 demo_operator ?paid" and l1: "ac_lamports (w1 (key_of 3)) = 1300"
    using claim_victim_ok [OF c _ payer, of "demo_runtime 30 []"] hash
    by (auto simp: demo_judgment_def demo_judged_def world_of_def wallet_def)
  obtain w2 where w2: "claim_victim (demo_runtime 31 []) (key_of 10) ?as demo_wire w1 = Inr w2"
    using claim_victim_ok [OF c1 _ payer, of "demo_runtime 31 []"] hash l1
    by (auto simp: demo_judgment_def)
  have "(\<forall>k. ac_lamports (w2 k) = ac_lamports (w1 k))"
    using victim_paid_once [OF w1 _ rtranclp.rtrancl_refl w2] by simp
  then show ?thesis
    using w1 w2 l1 by auto
qed

end
