(* ===== verification/Registration.thy ===== *)
theory Registration
  imports Demo_Trial
begin

text \<open>
  Three ways in which registering and convicting do less than their comments say: an address is
  registered once and for all, a conviction address that already holds lamports blocks its
  conviction, and a bond near the top of the range wraps around when rent is added to it.
\<close>

lemma distribute_burns_half:
  assumes "distribute pl (split_of x) = (pl', s)"
  shows "unat x \<le> 2 * unat (sp_burn s)"
proof -
  have "unat (sp_victim s) = unat (sp_victim (split_of x))" "unat (sp_pool s) \<le> unat (sp_pool (split_of x))"
    using assms by (auto simp: distribute_def without_pool_def split: if_splits)
  moreover have "unat (sp_victim (split_of x)) + unat (sp_pool (split_of x)) \<le> unat x div 2"
    unfolding split_of_exact by linarith
  ultimately show ?thesis
    using distribute_sum(1) [OF assms] by linarith
qed

lemma convict_burn_covered:
  assumes "runtime_ok R p" "keys_ok accounts" "prove_equivocation R p accounts w = Inr w'"
    and "operator_in p w (ai_key (accounts ! 1)) acc"
  shows "unat (oa_bond acc) \<le> 2 * unat (ac_lamports (w (ai_key (accounts ! 1))))"
  using assms(2,3)
proof (rule prove_equivocation_Inr, goal_cases)
  case (1 accuser operator_info conviction_info burn_to sysvar system rest acc1 evidence)
  have k: "accounts ! 1 = operator_info" "acc1 = acc"
    using 1(1,6) assms(4) by (simp_all add: operator_in_def)
  from 1(8) obtain a b where ev: "equivocation_check a b = Inr evidence"
    by (rule proven_evidence_Inr)
  have owner: "ac_owner (w (ai_key operator_info)) = p"
    by (rule 1(5))
  from assms(1) 1(4,7) ev 1(9) show ?case
  proof (rule convict_Inr, goal_cases)
    case (1 minimum_balance bump slot pl applied c d w1 w2)
    have sys: "p \<noteq> rt_system_program R"
      using assms(1) by (simp add: runtime_ok_def)
    then have "ac_lamports (w1 (ai_key operator_info)) = ac_lamports (w (ai_key operator_info))"
      using 1(2,9) owner by (auto simp: 1(13))
    moreover have "unat (sp_burn applied) \<le> unat (ac_lamports (w1 (ai_key operator_info)))"
      using pay_out_Inr(2) [OF 1(14)] by (simp add: word_le_nat_alt)
    ultimately show ?case
      using distribute_burns_half [OF 1(4)] unfolding k by simp
  qed
qed

section \<open>Properties\<close>

text \<open>
  An authority registers once: after a successful registration, whatever the chain does next,
  every further registration of the same authority fails, with whatever key and bond. (The account
  documentation says that an operator uses a new key by registering again.)
\<close>
theorem registers_once:
  assumes "runtime_ok R p" and "keys_ok accounts" and "length signing_key = 32"
    and "register R p accounts signing_key bond w = Inr w1" and "(chain_step p rent)\<^sup>*\<^sup>* w1 w2"
    and "runtime_ok R' p" and "rt_find_program_address R' = rt_find_program_address R"
    and "keys_ok accounts'" and "length signing_key' = 32"
    and "accounts' \<noteq> []" and "ai_key (hd accounts') = ai_key (hd accounts)"
  shows "is_err (register R' p accounts' signing_key' bond' w2)"
proof (rule ccontr)
  assume "\<not> is_err (register R' p accounts' signing_key' bond' w2)"
  then obtain w3 where again: "register R' p accounts' signing_key' bond' w2 = Inr w3"
    by (auto simp: not_is_err_iff)
  from assms(1-4) show False
  proof (rule register_Inr, goal_cases)
    case (1 authority operator_info system rest minimum_balance bump d)
    have "\<exists>acc. operator_in p w1 (ai_key operator_info) acc"
      using 1(11) by (auto simp: operator_in_def 1(10))
    then obtain acc2 where "operator_in p w2 (ai_key operator_info) acc2"
      using chain_run_evolves [OF assms(5)] by metis
    then have owner: "ac_owner (w2 (ai_key operator_info)) = p"
      by (simp add: operator_in_def)
    have first: "ai_key authority = ai_key (hd accounts)" and pda: "rt_find_program_address R
        [OPERATOR_SEED, ai_key authority] p = (ai_key operator_info, bump)"
      using 1(1,4) by simp_all
    from assms(6,8,9) again show False
    proof (rule register_Inr, goal_cases)
      case (1 authority' operator_info' system' rest' minimum_balance' bump' d')
      have "ai_key operator_info' = ai_key operator_info"
        using 1(1,4) pda first assms(7,11) by simp
      then have "ac_owner (w2 (ai_key operator_info)) = rt_system_program R'"
        using 1(6) by (simp add: empty_account_def)
      with owner assms(6) show False
        by (simp add: runtime_ok_def)
    qed
  qed
qed

text \<open>
  C38. Lamports at the address of a conviction block it: creating the conviction account fails if
  anyone sent even one lamport there before, so the contradiction cannot be punished.
\<close>
theorem prefunded_conviction_blocked:
  assumes "runtime_ok R p" and "keys_ok accounts" and "2 < length accounts"
    and "ac_lamports (w (ai_key (accounts ! 2))) \<noteq> 0"
  shows "is_err (prove_equivocation R p accounts w)"
proof (rule ccontr)
  assume "\<not> is_err (prove_equivocation R p accounts w)"
  then obtain w' where "prove_equivocation R p accounts w = Inr w'"
    by (auto simp: not_is_err_iff)
  with assms(2) show False
  proof (rule prove_equivocation_Inr, goal_cases)
    case (1 accuser operator_info conviction_info burn_to sysvar system rest acc evidence)
    from 1(8) obtain a b where ev: "equivocation_check a b = Inr evidence"
      by (rule proven_evidence_Inr)
    have "accounts ! 2 = conviction_info"
      using 1(1) by simp
    moreover from assms(1) 1(4,7) ev 1(9) have "w (ai_key conviction_info) = empty_account R"
      by (rule convict_Inr)
    ultimately show False
      using assms(4) by (simp add: empty_account_def)
  qed
qed

text \<open>
  C39. A registration whose rent and bond together exceed 64 bits succeeds with the sum wrapped
  around (\<open>rent + bond\<close> is unchecked in a release build): the account records the whole bond, holds
  less than the rent, and no contradiction convicts it.
\<close>
theorem register_bond_wraps:
  assumes "runtime_ok R p" and "keys_ok accounts" and "length signing_key = 32"
    and "rt_rent R = Inr rent" and "unat (rent 106) < 2 ^ 62" and "2 ^ 64 \<le> unat (rent 106) + unat bond"
    and "register R p accounts signing_key bond w = Inr w'"
    and "runtime_ok R' p" and "keys_ok accounts'" and "1 < length accounts'"
    and "ai_key (accounts' ! 1) = ai_key (accounts ! 1)"
  shows "(\<exists>acc. operator_in p w' (ai_key (accounts ! 1)) acc \<and> oa_bond acc = bond) \<and>
    unat (ac_lamports (w' (ai_key (accounts ! 1)))) < unat (rent 106) \<and>
    is_err (prove_equivocation R' p accounts' w')"
  using assms(1-3,7)
proof (rule register_Inr, goal_cases)
  case (1 authority operator_info system rest minimum_balance bump d)
  have k: "accounts ! 1 = operator_info" and rent: "minimum_balance = rent"
    using 1(1,5) assms(4) by simp_all
  obtain acc where op: "operator_in p w' (ai_key operator_info) acc" "oa_bond acc = bond"
    using 1(11) by (auto simp: operator_in_def 1(10))
  have "(unat (rent 106) + unat bond) mod 2 ^ 64 = unat (rent 106) + unat bond - 2 ^ 64"
    using assms(6) unat_u64_less [of "rent 106"] unat_u64_less [of bond] by (subst le_mod_geq) simp_all
  then have "unat (rent 106 + bond) + 2 ^ 64 = unat (rent 106) + unat bond"
    using assms(6) by (simp add: unat_word_ariths)
  moreover have lam: "ac_lamports (w' (ai_key operator_info)) = rent 106 + bond"
    by (simp add: 1(10) rent)
  ultimately have low: "unat (ac_lamports (w' (ai_key operator_info))) < unat (rent 106)"
    using unat_u64_less [of bond] by simp
  have "2 * unat (ac_lamports (w' (ai_key operator_info))) < unat bond"
    using low assms(5,6) by simp
  then have "prove_equivocation R' p accounts' w' \<noteq> Inr w''" for w''
    using convict_burn_covered [OF assms(8,9), of w' w'' acc] op assms(11) k by auto
  then have "is_err (prove_equivocation R' p accounts' w')"
    by (metis not_is_err_iff)
  with op low show ?case
    unfolding k by blast
qed

section \<open>Witnesses\<close>

lemma demo_registered_by:
  "register (demo_runtime 5 []) (key_of 10) [signer (key_of 1), nonsigner demo_operator, nonsigner (key_of 0)]
     (key_of 5) 1000 demo_world = Inr demo_registered"
  using demo_registered_run
  by (simp only: process_write instruction_shape_def slash_instruction.case demo_keys process_instruction.simps)

theorem registers_once_witness:
  "is_err (register (demo_runtime 9 []) (key_of 10) [signer (key_of 1), nonsigner demo_operator, nonsigner (key_of 0)]
     (key_of 6) 500 demo_registered)"
  by (rule registers_once [OF demo_runtime_ok _ _ demo_registered_by rtranclp.rtrancl_refl demo_runtime_ok])
    (simp_all add: keys_ok_def demo_runtime_def)

theorem prefunded_conviction_blocked_witness:
  "is_err (prove_equivocation (demo_court 1 2) (key_of 10) (demo_infos 1 2)
     (demo_staked(demo_conviction 1 2 := wallet 1)))"
  by (rule prefunded_conviction_blocked [OF demo_court_ok demo_infos_keys]) (simp_all add: demo_infos_def wallet_def)

theorem register_bond_wraps_witness:
  "\<exists>w acc. register (demo_runtime 5 []) (key_of 10)
       [signer (key_of 1), nonsigner demo_operator, nonsigner (key_of 0)] (key_of 5) 18446744073709551615 demo_world = Inr w \<and>
     operator_in (key_of 10) w demo_operator acc \<and> oa_bond acc = 18446744073709551615 \<and>
     unat (ac_lamports (w demo_operator)) < 1060 \<and>
     is_err (prove_equivocation (demo_court 1 2) (key_of 10) (demo_infos 1 2) w)"
proof -
  let ?as = "[signer (key_of 1), nonsigner demo_operator, nonsigner (key_of 0)]"
  have pda: "at_pda (demo_runtime 5 []) (nonsigner demo_operator) [OPERATOR_SEED, key_of 1] (key_of 10) = Inr 255"
    by code_simp
  let ?acc = "\<lparr>oa_authority = key_of 1, oa_signing_key = key_of 5, oa_bond = 18446744073709551615, oa_pool_staked = 0,
      oa_reward_index = 0, oa_unbond_at = 0, oa_bump = 255\<rparr>"
  have "operator_shape ?acc"
    by (simp add: operator_shape_def)
  then have "operator_write ?acc (replicate 106 0) = Inr (operator_bytes ?acc)"
    by (simp add: operator_write_bytes)
  moreover have "demo_world (key_of 1) = wallet 1000000" "demo_world demo_operator = wallet 0"
    by (simp_all add: demo_world_def world_of_def wallet_def)
  ultimately have "\<exists>w. register (demo_runtime 5 []) (key_of 10) ?as (key_of 5) 18446744073709551615 demo_world = Inr w"
    using pda by (simp add: register_def demo_rent_def wallet_def store_operator_def Let_def)
  then obtain w where w: "register (demo_runtime 5 []) (key_of 10) ?as (key_of 5) 18446744073709551615 demo_world = Inr w" ..
  have rent: "unat (demo_rent 106) = 1060"
    by (simp add: demo_rent_def)
  have wrap: "2 ^ 64 \<le> unat (demo_rent 106) + unat (18446744073709551615 :: u64)"
    unfolding rent by simp
  have "keys_ok ?as" "length (key_of 5) = 32" "unat (demo_rent 106) < 2 ^ 62"
    by (simp_all add: keys_ok_def rent)
  note wraps = register_bond_wraps [OF demo_runtime_ok this(1,2) demo_runtime_fields(2) this(3) wrap w
      demo_court_ok demo_infos_keys [of 1 2]]
  have "1 < length (demo_infos 1 2)" "ai_key (demo_infos 1 2 ! 1) = ai_key (?as ! 1)" "ai_key (?as ! 1) = demo_operator"
    by (simp_all add: demo_infos_def)
  from wraps [OF this(1,2)] this(3) show ?thesis
    using w unfolding rent by metis
qed

end
