(* ===== verification/Watchtower.thy ===== *)
theory Watchtower
  imports Receipt
begin

text \<open>
  The data of the watchtower (\<open>src/crates/watchtower/src\<close>): blocks as a node reports them and the
  execution order recovered from their hash, the indexes over receipts, withdrawals, executions and
  block hashes, faults and how anyone re-derives one, and the three-valued outcome of a check.
  A \<open>HashMap\<close> is a partial map, a \<open>Vec\<close> a list; Blake3, SHA-256 and Ed25519 are the parameter
  \<open>crypto\<close>.
\<close>

section \<open>Blocks and their order\<close>

record observed_transaction =
  ot_signature :: bytes
  ot_tx_hash :: bytes
  ot_fee_payer :: bytes
  ot_writable :: "bytes list"
  ot_readonly :: "bytes list"
  ot_wire_bytes :: bytes

definition is_issued_by :: "observed_transaction \<Rightarrow> bytes \<Rightarrow> bool" where
  "is_issued_by txn identity \<longleftrightarrow> ot_fee_payer txn = identity"

record observed_block =
  ob_slot :: u64
  ob_previous_blockhash :: bytes
  ob_blockhash :: bytes
  ob_transactions :: "observed_transaction list"

definition fold_hash :: "crypto \<Rightarrow> bytes \<Rightarrow> bytes list \<Rightarrow> bytes" where
  "fold_hash C previous signatures = blake3 C (foldl (\<lambda>acc signature. acc @ signature) previous signatures)"

datatype order = AsReported | Reversed | Unverifiable

definition order_derive :: "crypto \<Rightarrow> observed_block \<Rightarrow> order" where
  "order_derive C block =
     (let forward = map ot_signature (ob_transactions block) in
      if fold_hash C (ob_previous_blockhash block) forward = ob_blockhash block then AsReported
      else if fold_hash C (ob_previous_blockhash block) (rev forward) = ob_blockhash block then Reversed
      else Unverifiable)"

definition executed_order :: "crypto \<Rightarrow> observed_block \<Rightarrow> observed_transaction list option" where
  "executed_order C block =
     (let forward = ob_transactions block in
      case order_derive C block of
        AsReported \<Rightarrow> Some forward
      | Reversed \<Rightarrow> Some (rev forward)
      | Unverifiable \<Rightarrow> None)"

definition touches :: "observed_transaction \<Rightarrow> bytes list \<Rightarrow> bool" where
  "touches txn written = list_ex (\<lambda>key. List.member (ot_writable txn) key \<or> List.member (ot_readonly txn) key) written"

definition conflicts :: "observed_transaction \<Rightarrow> observed_transaction \<Rightarrow> bool" where
  "conflicts a b \<longleftrightarrow> touches a (ot_writable b) \<or> touches b (ot_writable a)"

section \<open>Reading numbers from the environment\<close>

text \<open>\<open>str::trim\<close> on ASCII text and \<open>str::parse::<u64>\<close>: an optional plus sign, then one or more digits.\<close>

definition is_space :: "char \<Rightarrow> bool" where
  "is_space c \<longleftrightarrow> (of_char c :: nat) \<in> {9, 10, 11, 12, 13, 32}"

definition trim :: "string \<Rightarrow> string" where
  "trim s = rev (dropWhile is_space (rev (dropWhile is_space s)))"

definition digit_of :: "char \<Rightarrow> nat option" where
  "digit_of c = (let n = of_char c in if 48 \<le> n \<and> n \<le> 57 then Some (n - 48) else None)"

fun parse_digits :: "string \<Rightarrow> u64 \<Rightarrow> u64 option" where
  "parse_digits [] acc = Some acc"
| "parse_digits (c # cs) acc =
     (case digit_of c of
        None \<Rightarrow> None
      | Some d \<Rightarrow>
          if unat acc * 10 + d < 2 ^ 64 then parse_digits cs (acc * 10 + of_nat d) else None)"

definition parse_u64 :: "string \<Rightarrow> u64 option" where
  "parse_u64 s =
     (case s of
        [] \<Rightarrow> None
      | c # cs \<Rightarrow>
          if c = CHR ''+'' then (if cs = [] then None else parse_digits cs 0)
          else parse_digits (c # cs) 0)"

section \<open>The node being watched\<close>

record operator =
  op_key :: bytes
  op_log_id :: bytes

datatype rejected = Rejected_ForeignLog | Rejected_Unverifiable

definition accepts :: "crypto \<Rightarrow> operator \<Rightarrow> signed_receipt \<Rightarrow> rejected + unit" where
  "accepts C operator entry =
     (if r_log_id (s_receipt entry) \<noteq> op_log_id operator then Inl Rejected_ForeignLog
      else if is_err (verify C entry (op_key operator)) then Inl Rejected_Unverifiable
      else Inr ())"

datatype undetermined =
    SequenceGap u64 u64
  | MissingOrigin u64
  | UnverifiableReceipt u64
  | ForeignLog u64
  | UnverifiableBlock u64
  | MissingReceipt u64
  | WithdrawnReceipt u64
  | UnknownBlockhash u64
  | NotYetExecuted u64
  | OperatorIssuedPair u64

fun rejected_undetermined :: "rejected \<Rightarrow> u64 \<Rightarrow> undetermined" where
  "rejected_undetermined Rejected_ForeignLog seq = ForeignLog seq"
| "rejected_undetermined Rejected_Unverifiable seq = UnverifiableReceipt seq"

section \<open>Indexes\<close>

record execution =
  ex_slot :: u64
  ex_index :: u32

record execution_index =
  ei_by_signature :: "bytes \<rightharpoonup> execution"
  ei_by_hash :: "bytes \<rightharpoonup> execution"

definition execution_index_new :: execution_index where
  "execution_index_new = \<lparr>ei_by_signature = Map.empty, ei_by_hash = Map.empty\<rparr>"

definition execution_record :: "bytes \<Rightarrow> bytes \<Rightarrow> execution \<Rightarrow> execution_index \<Rightarrow> execution_index" where
  "execution_record signature tx_hash execution ei =
     \<lparr>ei_by_signature = (ei_by_signature ei)(signature \<mapsto> execution),
      ei_by_hash = (ei_by_hash ei)(tx_hash \<mapsto> execution)\<rparr>"

definition execution_find :: "execution_index \<Rightarrow> signed_receipt \<Rightarrow> execution option" where
  "execution_find ei entry =
     (case r_mode (s_receipt entry) of
        Commit \<Rightarrow> ei_by_hash ei (r_tx_hash (s_receipt entry))
      | Plain \<Rightarrow> ei_by_signature ei (r_tx_sig (s_receipt entry))
      | Retract \<Rightarrow> ei_by_signature ei (r_tx_sig (s_receipt entry))
      | Reveal \<Rightarrow> None)"

type_synonym withdrawals = "bytes \<rightharpoonup> signed_receipt"

fun withdrawals_insert :: "crypto \<Rightarrow> operator \<Rightarrow> signed_receipt list \<Rightarrow> withdrawals \<Rightarrow> withdrawals" where
  "withdrawals_insert C operator [] withdrawn = withdrawn"
| "withdrawals_insert C operator (entry # receipts) withdrawn =
     (if r_mode (s_receipt entry) \<noteq> Retract \<or> is_err (accepts C operator entry)
      then withdrawals_insert C operator receipts withdrawn
      else withdrawals_insert C operator receipts (withdrawn(r_tx_hash (s_receipt entry) \<mapsto> entry)))"

definition withdrawals_build :: "crypto \<Rightarrow> signed_receipt list \<Rightarrow> operator \<Rightarrow> withdrawals" where
  "withdrawals_build C receipts operator = withdrawals_insert C operator receipts Map.empty"

definition withdrawals_of :: "crypto \<Rightarrow> withdrawals \<Rightarrow> signed_receipt \<Rightarrow> signed_receipt option" where
  "withdrawals_of C withdrawn receipt = withdrawn (receipt_hash C receipt)"

record receipt_index =
  ri_by_signature :: "bytes \<rightharpoonup> signed_receipt"
  ri_by_hash :: "bytes \<rightharpoonup> signed_receipt"
  ri_withdrawn :: withdrawals

fun receipt_index_insert :: "crypto \<Rightarrow> operator \<Rightarrow> signed_receipt list \<Rightarrow> receipt_index \<Rightarrow> receipt_index" where
  "receipt_index_insert C operator [] index = index"
| "receipt_index_insert C operator (entry # receipts) index =
     (if is_err (accepts C operator entry) then receipt_index_insert C operator receipts index
      else receipt_index_insert C operator receipts
        (case r_mode (s_receipt entry) of
           Commit \<Rightarrow> index\<lparr>ri_by_hash := (ri_by_hash index)(r_tx_hash (s_receipt entry) \<mapsto> entry)\<rparr>
         | Plain \<Rightarrow> index\<lparr>ri_by_signature := (ri_by_signature index)(r_tx_sig (s_receipt entry) \<mapsto> entry)\<rparr>
         | Retract \<Rightarrow> index
         | Reveal \<Rightarrow> index))"

definition receipt_index_build :: "crypto \<Rightarrow> signed_receipt list \<Rightarrow> operator \<Rightarrow> receipt_index" where
  "receipt_index_build C receipts operator =
     receipt_index_insert C operator receipts
       \<lparr>ri_by_signature = Map.empty, ri_by_hash = Map.empty, ri_withdrawn = withdrawals_build C receipts operator\<rparr>"

definition receipt_find :: "receipt_index \<Rightarrow> observed_transaction \<Rightarrow> signed_receipt option" where
  "receipt_find index txn =
     (case ri_by_signature index (ot_signature txn) of
        Some receipt \<Rightarrow> Some receipt
      | None \<Rightarrow> ri_by_hash index (ot_tx_hash txn))"

definition receipt_withdrawal :: "crypto \<Rightarrow> receipt_index \<Rightarrow> signed_receipt \<Rightarrow> signed_receipt option" where
  "receipt_withdrawal C index receipt = withdrawals_of C (ri_withdrawn index) receipt"

record blockhash_slots =
  bs_slots :: "bytes \<rightharpoonup> u64"
  bs_order :: "bytes list"
  bs_capacity :: nat

definition DEFAULT_CAPACITY :: nat where "DEFAULT_CAPACITY = 2048"

definition blockhash_slots_new :: "nat \<Rightarrow> blockhash_slots" where
  "blockhash_slots_new capacity = \<lparr>bs_slots = Map.empty, bs_order = [], bs_capacity = max capacity 1\<rparr>"

fun blockhash_evict :: "nat \<Rightarrow> bytes list \<Rightarrow> (bytes \<rightharpoonup> u64) \<Rightarrow> bytes list \<times> (bytes \<rightharpoonup> u64)" where
  "blockhash_evict capacity [] slots = ([], slots)"
| "blockhash_evict capacity (evicted # order) slots =
     (if capacity < length (evicted # order) then blockhash_evict capacity order (slots(evicted := None))
      else (evicted # order, slots))"

definition blockhash_record :: "bytes \<Rightarrow> u64 \<Rightarrow> blockhash_slots \<Rightarrow> blockhash_slots" where
  "blockhash_record blockhash slot bs =
     (let slots = (bs_slots bs)(blockhash \<mapsto> slot) in
      if bs_slots bs blockhash \<noteq> None then bs\<lparr>bs_slots := slots\<rparr>
      else
        let (order, slots) = blockhash_evict (bs_capacity bs) (bs_order bs @ [blockhash]) slots
        in bs\<lparr>bs_slots := slots, bs_order := order\<rparr>)"

definition slot_of :: "blockhash_slots \<Rightarrow> bytes \<Rightarrow> u64 option" where
  "slot_of bs blockhash = bs_slots bs blockhash"

section \<open>Faults\<close>

record reordered_transaction =
  rt_receipt :: signed_receipt
  rt_wire_bytes :: bytes
  rt_index :: u32

datatype fault =
    Equivocation u64 signed_receipt signed_receipt
  | BrokenChain u64 signed_receipt signed_receipt
  | BadOrigin signed_receipt
  | Unticketed u64 u32 bytes bytes
  | Withheld signed_receipt execution u64
  | WithdrawnButExecuted signed_receipt signed_receipt execution bytes bytes "bytes list"
  | Absent signed_receipt u64 u64
  | NotRevealed signed_receipt u64 u64
  | ImpossibleIngress signed_receipt u64 u64
  | Reorder u64 bytes bytes "bytes list" reordered_transaction reordered_transaction

datatype fault_error =
    NotSigned u64
  | MixedLogs
  | NotContradictory
  | NotAdjacent u64 u64
  | ChainIntact
  | OriginIntact
  | NotAWithdrawal
  | WithdrawalNamesAnotherReceipt
  | WithdrawalPrecedesReceipt
  | ReceiptDoesNotBindTransaction
  | OrderNotReproduced
  | NotAtClaimedIndex
  | OrderRespected
  | DeliveredInTime
  | IngressPossible

fun fault_seq :: "fault \<Rightarrow> u64" where
  "fault_seq (Equivocation seq a b) = seq"
| "fault_seq (BrokenChain seq receipt predecessor) = seq"
| "fault_seq (BadOrigin receipt) = r_seq (s_receipt receipt)"
| "fault_seq (Unticketed slot index signature wire) = - 1"
| "fault_seq (Withheld receipt execution held) = r_seq (s_receipt receipt)"
| "fault_seq (Absent receipt head waited) = r_seq (s_receipt receipt)"
| "fault_seq (NotRevealed receipt head waited) = r_seq (s_receipt receipt)"
| "fault_seq (WithdrawnButExecuted receipt withdrawal execution previous blockhash executed) =
     r_seq (s_receipt receipt)"
| "fault_seq (ImpossibleIngress receipt blockhash_slot max_age) = r_seq (s_receipt receipt)"
| "fault_seq (Reorder slot previous blockhash executed jumped delayed) = r_seq (s_receipt (rt_receipt jumped))"

definition fault_signed :: "crypto \<Rightarrow> signed_receipt \<Rightarrow> bytes \<Rightarrow> fault_error + unit" where
  "fault_signed C receipt key = map_err (\<lambda>_. NotSigned (r_seq (s_receipt receipt))) (verify C receipt key)"

definition same_log :: "signed_receipt \<Rightarrow> signed_receipt \<Rightarrow> fault_error + unit" where
  "same_log a b = (if r_log_id (s_receipt a) \<noteq> r_log_id (s_receipt b) then Inl MixedLogs else Inr ())"

definition sits_at :: "bytes list \<Rightarrow> u32 \<Rightarrow> bytes \<Rightarrow> fault_error + unit" where
  "sits_at executed index tx_sig =
     (case get_at (unat index) executed of
        Some signature \<Rightarrow> if signature = tx_sig then Inr () else Inl NotAtClaimedIndex
      | None \<Rightarrow> Inl NotAtClaimedIndex)"

definition at_index :: "bytes list \<Rightarrow> reordered_transaction \<Rightarrow> fault_error + unit" where
  "at_index executed txn = sits_at executed (rt_index txn) (r_tx_sig (s_receipt (rt_receipt txn)))"

definition reordered_verify :: "crypto \<Rightarrow> reordered_transaction \<Rightarrow> bytes \<Rightarrow> fault_error + unit" where
  "reordered_verify C txn key =
     and_then (map_err (\<lambda>_. NotSigned (r_seq (s_receipt (rt_receipt txn)))) (verify C (rt_receipt txn) key)) (\<lambda>_.
     if tx_hash_of C (rt_wire_bytes txn) \<noteq> r_tx_hash (s_receipt (rt_receipt txn))
     then Inl ReceiptDoesNotBindTransaction
     else Inr ())"

definition impossible_ingress :: "u64 \<Rightarrow> u64 \<Rightarrow> u64 \<Rightarrow> bool" where
  "impossible_ingress ingress blockhash_slot max_age \<longleftrightarrow>
     ingress < blockhash_slot \<or> saturating_sub ingress blockhash_slot > max_age"

fun fault_verify :: "crypto \<Rightarrow> fault \<Rightarrow> bytes \<Rightarrow> fault_error + unit" where
  "fault_verify C (Equivocation seq a b) key =
     and_then (fault_signed C a key) (\<lambda>_.
     and_then (fault_signed C b key) (\<lambda>_.
     and_then (same_log a b) (\<lambda>_.
     if r_seq (s_receipt a) \<noteq> seq \<or> r_seq (s_receipt b) \<noteq> seq
     then Inl (NotAdjacent (r_seq (s_receipt a)) (r_seq (s_receipt b)))
     else if a = b then Inl NotContradictory
     else Inr ())))"
| "fault_verify C (BrokenChain seq receipt predecessor) key =
     and_then (fault_signed C receipt key) (\<lambda>_.
     and_then (fault_signed C predecessor key) (\<lambda>_.
     and_then (same_log receipt predecessor) (\<lambda>_.
     if r_seq (s_receipt receipt) \<noteq> seq \<or> r_seq (s_receipt predecessor) + 1 \<noteq> seq
     then Inl (NotAdjacent (r_seq (s_receipt predecessor)) (r_seq (s_receipt receipt)))
     else if r_prev_receipt_hash (s_receipt receipt) = receipt_hash C predecessor then Inl ChainIntact
     else Inr ())))"
| "fault_verify C (BadOrigin receipt) key =
     and_then (fault_signed C receipt key) (\<lambda>_.
     if r_seq (s_receipt receipt) = 0 \<and> r_prev_receipt_hash (s_receipt receipt) = GENESIS_PREV_HASH
     then Inl OriginIntact
     else Inr ())"
| "fault_verify C (Withheld receipt execution held) key =
     and_then (fault_signed C receipt key) (\<lambda>_.
     if ex_slot execution < r_ingress_slot (s_receipt receipt)
        \<or> ex_slot execution - r_ingress_slot (s_receipt receipt) \<noteq> held
     then Inl DeliveredInTime
     else Inr ())"
| "fault_verify C (WithdrawnButExecuted receipt withdrawal execution previous blockhash executed) key =
     and_then (fault_signed C receipt key) (\<lambda>_.
     and_then (fault_signed C withdrawal key) (\<lambda>_.
     and_then (same_log receipt withdrawal) (\<lambda>_.
     if r_mode (s_receipt withdrawal) \<noteq> Retract then Inl NotAWithdrawal
     else if r_tx_hash (s_receipt withdrawal) \<noteq> receipt_hash C receipt then Inl WithdrawalNamesAnotherReceipt
     else if r_seq (s_receipt withdrawal) \<le> r_seq (s_receipt receipt) then Inl WithdrawalPrecedesReceipt
     else if fold_hash C previous executed \<noteq> blockhash then Inl OrderNotReproduced
     else sits_at executed (ex_index execution) (r_tx_sig (s_receipt receipt)))))"
| "fault_verify C (Absent receipt head waited) key = fault_signed C receipt key"
| "fault_verify C (NotRevealed receipt head waited) key = fault_signed C receipt key"
| "fault_verify C (ImpossibleIngress receipt blockhash_slot max_age) key =
     and_then (fault_signed C receipt key) (\<lambda>_.
     if \<not> impossible_ingress (r_ingress_slot (s_receipt receipt)) blockhash_slot max_age then Inl IngressPossible
     else Inr ())"
| "fault_verify C (Unticketed slot index signature wire) key = Inr ()"
| "fault_verify C (Reorder slot previous blockhash executed jumped delayed) key =
     and_then (reordered_verify C jumped key) (\<lambda>_.
     and_then (reordered_verify C delayed key) (\<lambda>_.
     and_then (same_log (rt_receipt jumped) (rt_receipt delayed)) (\<lambda>_.
     if fold_hash C previous executed \<noteq> blockhash then Inl OrderNotReproduced
     else
       and_then (at_index executed jumped) (\<lambda>_.
       and_then (at_index executed delayed) (\<lambda>_.
       if rt_index jumped \<ge> rt_index delayed then Inl OrderRespected
       else if r_seq (s_receipt (rt_receipt jumped)) \<le> r_seq (s_receipt (rt_receipt delayed))
       then Inl OrderRespected
       else Inr ())))))"

section \<open>Outcomes\<close>

datatype verdict = Fault fault | Clean | CannotDetermine undetermined

record scan =
  sc_faults :: "fault list"
  sc_undetermined :: "undetermined list"
  sc_examined :: nat

definition scan_new :: scan where
  "scan_new = \<lparr>sc_faults = [], sc_undetermined = [], sc_examined = 0\<rparr>"

fun scan_record :: "verdict \<Rightarrow> scan \<Rightarrow> scan" where
  "scan_record (Fault fault) s =
     s\<lparr>sc_examined := sc_examined s + 1, sc_faults := sc_faults s @ [fault]\<rparr>"
| "scan_record (CannotDetermine reason) s =
     s\<lparr>sc_examined := sc_examined s + 1, sc_undetermined := sc_undetermined s @ [reason]\<rparr>"
| "scan_record Clean s = s\<lparr>sc_examined := sc_examined s + 1\<rparr>"

definition scan_is_clean :: "scan \<Rightarrow> bool" where
  "scan_is_clean s \<longleftrightarrow> sc_faults s = [] \<and> sc_undetermined s = []"

lemma fold_hash_concat: "fold_hash C previous signatures = blake3 C (previous @ concat signatures)"
proof -
  have "foldl (\<lambda>acc signature. acc @ signature) p signatures = p @ concat signatures" for p
    by (induction signatures arbitrary: p) auto
  then show ?thesis
    by (simp add: fold_hash_def)
qed

end
