(* ===== verification/Scans.thy ===== *)
theory Scans
  imports Watchtower
begin

text \<open>
  The three scans of the watchtower: over the receipt log alone (\<open>equivocation.rs\<close>), over one block
  (\<open>reorder.rs\<close>) and over deliveries (\<open>withholding.rs\<close>). Each is the sequence of its checks recorded
  into one \<open>scan\<close>, in the order the code makes them.
\<close>

section \<open>The receipt log\<close>

definition check_belongs_here :: "crypto \<Rightarrow> signed_receipt \<Rightarrow> operator \<Rightarrow> verdict" where
  "check_belongs_here C entry operator =
     (case accepts C operator entry of
        Inr _ \<Rightarrow> Clean
      | Inl reason \<Rightarrow> CannotDetermine (rejected_undetermined reason (r_seq (s_receipt entry))))"

definition check_one_statement_per_sequence :: "u64 \<Rightarrow> signed_receipt list \<Rightarrow> verdict" where
  "check_one_statement_per_sequence seq grp =
     (let first = grp ! 0 in
      case find (\<lambda>entry. entry \<noteq> first) grp of
        Some other \<Rightarrow> Fault (Equivocation seq first other)
      | None \<Rightarrow> Clean)"

definition check_origin :: "signed_receipt \<Rightarrow> verdict" where
  "check_origin first =
     (if r_seq (s_receipt first) \<noteq> 0 then CannotDetermine (MissingOrigin (r_seq (s_receipt first)))
      else if r_prev_receipt_hash (s_receipt first) \<noteq> GENESIS_PREV_HASH then Fault (BadOrigin first)
      else Clean)"

definition check_link :: "crypto \<Rightarrow> signed_receipt \<Rightarrow> signed_receipt \<Rightarrow> verdict" where
  "check_link C predecessor receipt =
     (if r_seq (s_receipt predecessor) + 1 \<noteq> r_seq (s_receipt receipt)
      then CannotDetermine (SequenceGap (r_seq (s_receipt predecessor)) (r_seq (s_receipt receipt)))
      else if r_prev_receipt_hash (s_receipt receipt) \<noteq> receipt_hash C predecessor
      then Fault (BrokenChain (r_seq (s_receipt receipt)) receipt predecessor)
      else Clean)"

fun attribute :: "crypto \<Rightarrow> operator \<Rightarrow> signed_receipt list \<Rightarrow> signed_receipt list \<Rightarrow> scan
    \<Rightarrow> signed_receipt list \<times> scan" where
  "attribute C operator [] attributable s = (attributable, s)"
| "attribute C operator (entry # ordered) attributable s =
     (let verdict = check_belongs_here C entry operator;
          attributable = (if verdict = Clean then attributable @ [entry] else attributable)
      in attribute C operator ordered attributable (scan_record verdict s))"

text \<open>
  The loop over runs of equal sequence numbers: the slice from \<open>position\<close> on is the argument, the
  group is its longest prefix with the first entry's sequence number.
\<close>

function group_by_seq :: "signed_receipt list \<Rightarrow> signed_receipt list \<Rightarrow> scan \<Rightarrow> signed_receipt list \<times> scan" where
  "group_by_seq [] heads s = (heads, s)"
| "group_by_seq (entry # rest) heads s =
     (let seq = r_seq (s_receipt entry);
          grp = takeWhile (\<lambda>e. r_seq (s_receipt e) = seq) (entry # rest);
          s = scan_record (check_one_statement_per_sequence seq grp) s
      in group_by_seq (dropWhile (\<lambda>e. r_seq (s_receipt e) = seq) (entry # rest)) (heads @ [grp ! 0]) s)"
  by pat_completeness auto
termination
  by (relation "measure (\<lambda>(xs, _, _). length xs)") (auto simp: le_imp_less_Suc length_dropWhile_le)

fun check_links :: "crypto \<Rightarrow> signed_receipt list \<Rightarrow> scan \<Rightarrow> scan" where
  "check_links C (a # b # rest) s = check_links C (b # rest) (scan_record (check_link C a b) s)"
| "check_links C _ s = s"

definition scan_receipts :: "crypto \<Rightarrow> signed_receipt list \<Rightarrow> operator \<Rightarrow> scan" where
  "scan_receipts C receipts operator =
     (let ordered = sort_key (\<lambda>entry. r_seq (s_receipt entry)) receipts;
          (attributable, s) = attribute C operator ordered [] scan_new;
          (heads, s) = group_by_seq attributable [] s;
          s = (case heads of [] \<Rightarrow> s | first # _ \<Rightarrow> scan_record (check_origin first) s)
      in check_links C heads s)"

section \<open>One block\<close>

definition check_ticket_is_live ::
    "crypto \<Rightarrow> observed_block \<Rightarrow> u32 \<Rightarrow> observed_transaction \<Rightarrow> observed_transaction list \<Rightarrow> receipt_index \<Rightarrow> verdict" where
  "check_ticket_is_live C block index txn executed receipts =
     (case receipt_find receipts txn of
        None \<Rightarrow> Fault (Unticketed (ob_slot block) index (ot_signature txn) (ot_wire_bytes txn))
      | Some receipt \<Rightarrow>
          (case receipt_withdrawal C receipts receipt of
             None \<Rightarrow> Clean
           | Some withdrawal \<Rightarrow>
               Fault (WithdrawnButExecuted receipt withdrawal \<lparr>ex_slot = ob_slot block, ex_index = index\<rparr>
                 (ob_previous_blockhash block) (ob_blockhash block) (map ot_signature executed))))"

text \<open>
  \<open>executed_order\<close> is derived again for the fault and expected to succeed; the caller has derived it
  from the same block, and the \<open>None\<close> branch (a panic) is the last one.
\<close>

definition check_pair ::
    "crypto \<Rightarrow> observed_block \<Rightarrow> u32 \<times> observed_transaction \<Rightarrow> u32 \<times> observed_transaction \<Rightarrow> receipt_index
     \<Rightarrow> operator \<Rightarrow> bytes \<Rightarrow> verdict option" where
  "check_pair C block fst_at snd_at receipts operator identity =
     (let (first_index, first) = fst_at; (second_index, second) = snd_at in
      if \<not> conflicts first second then Some Clean
      else
        case (receipt_find receipts first, receipt_find receipts second) of
          (Some first_receipt, Some second_receipt) \<Rightarrow>
            if is_err (accepts C operator first_receipt) \<or> is_err (accepts C operator second_receipt)
            then Some (CannotDetermine (MissingReceipt (ob_slot block)))
            else if receipt_withdrawal C receipts first_receipt \<noteq> None
              \<or> receipt_withdrawal C receipts second_receipt \<noteq> None
            then Some (CannotDetermine (WithdrawnReceipt (ob_slot block)))
            else if r_seq (s_receipt first_receipt) < r_seq (s_receipt second_receipt) then Some Clean
            else if is_issued_by first identity \<or> is_issued_by second identity
            then Some (CannotDetermine (OperatorIssuedPair (ob_slot block)))
            else
              (case executed_order C block of
                 Some executed \<Rightarrow>
                   Some (Fault (Reorder (ob_slot block) (ob_previous_blockhash block) (ob_blockhash block)
                     (map ot_signature executed)
                     \<lparr>rt_receipt = first_receipt, rt_wire_bytes = ot_wire_bytes first, rt_index = first_index\<rparr>
                     \<lparr>rt_receipt = second_receipt, rt_wire_bytes = ot_wire_bytes second, rt_index = second_index\<rparr>))
               | None \<Rightarrow> None)
        | _ \<Rightarrow> Some (CannotDetermine (MissingReceipt (ob_slot block))))"

fun scan_tickets ::
    "crypto \<Rightarrow> observed_block \<Rightarrow> observed_transaction list \<Rightarrow> receipt_index
     \<Rightarrow> (nat \<times> observed_transaction) list \<Rightarrow> scan \<Rightarrow> scan" where
  "scan_tickets C block executed receipts [] s = s"
| "scan_tickets C block executed receipts ((index, txn) # rest) s =
     scan_tickets C block executed receipts rest
       (scan_record (check_ticket_is_live C block (of_nat index) txn executed receipts) s)"

fun scan_later ::
    "crypto \<Rightarrow> observed_block \<Rightarrow> receipt_index \<Rightarrow> operator \<Rightarrow> bytes \<Rightarrow> nat \<times> observed_transaction
     \<Rightarrow> (nat \<times> observed_transaction) list \<Rightarrow> scan \<Rightarrow> scan option" where
  "scan_later C block receipts operator identity at_first [] s = Some s"
| "scan_later C block receipts operator identity at_first ((later, second) # rest) s =
     (case check_pair C block (of_nat (fst at_first), snd at_first) (of_nat later, second) receipts operator identity of
        Some verdict \<Rightarrow> scan_later C block receipts operator identity at_first rest (scan_record verdict s)
      | None \<Rightarrow> None)"

fun scan_pairs ::
    "crypto \<Rightarrow> observed_block \<Rightarrow> receipt_index \<Rightarrow> operator \<Rightarrow> bytes
     \<Rightarrow> (nat \<times> observed_transaction) list \<Rightarrow> scan \<Rightarrow> scan option" where
  "scan_pairs C block receipts operator identity [] s = Some s"
| "scan_pairs C block receipts operator identity (at_first # rest) s =
     (case scan_later C block receipts operator identity at_first rest s of
        Some s \<Rightarrow> scan_pairs C block receipts operator identity rest s
      | None \<Rightarrow> None)"

definition scan_block ::
    "crypto \<Rightarrow> observed_block \<Rightarrow> receipt_index \<Rightarrow> operator \<Rightarrow> bytes \<Rightarrow> scan option" where
  "scan_block C block receipts operator identity =
     (case executed_order C block of
        None \<Rightarrow> Some (scan_record (CannotDetermine (UnverifiableBlock (ob_slot block))) scan_new)
      | Some executed \<Rightarrow>
          (let numbered = enumerate 0 executed;
               s = scan_tickets C block executed receipts numbered scan_new
           in scan_pairs C block receipts operator identity numbered s))"

section \<open>Deliveries\<close>

record patience =
  pt_held_slots :: u64
  pt_absent_slots :: u64
  pt_reveal_slots :: u64
  pt_max_blockhash_age :: u64

definition patience_default :: patience where
  "patience_default = \<lparr>pt_held_slots = 32, pt_absent_slots = 64, pt_reveal_slots = 150, pt_max_blockhash_age = 1200\<rparr>"

definition patience_from_env :: "string option \<Rightarrow> patience" where
  "patience_from_env var =
     (let fallback = patience_default in
      fallback\<lparr>pt_reveal_slots :=
        (case Option.bind var (\<lambda>value. parse_u64 (trim value)) of
           Some n \<Rightarrow> n
         | None \<Rightarrow> pt_reveal_slots fallback)\<rparr>)"

definition check_ingress_is_possible :: "signed_receipt \<Rightarrow> blockhash_slots \<Rightarrow> patience \<Rightarrow> verdict" where
  "check_ingress_is_possible receipt blockhashes patience =
     (if r_mode (s_receipt receipt) = Commit then Clean
      else
        case slot_of blockhashes (r_recent_blockhash (s_receipt receipt)) of
          None \<Rightarrow> CannotDetermine (UnknownBlockhash (r_seq (s_receipt receipt)))
        | Some blockhash_slot \<Rightarrow>
            if impossible_ingress (r_ingress_slot (s_receipt receipt)) blockhash_slot (pt_max_blockhash_age patience)
            then Fault (ImpossibleIngress receipt blockhash_slot (pt_max_blockhash_age patience))
            else Clean)"

definition check_delivery :: "signed_receipt \<Rightarrow> execution_index \<Rightarrow> u64 \<Rightarrow> patience \<Rightarrow> verdict" where
  "check_delivery receipt executed head patience =
     (let ingress = r_ingress_slot (s_receipt receipt) in
      case execution_find executed receipt of
        None \<Rightarrow>
          (let waited = saturating_sub head ingress in
           if r_mode (s_receipt receipt) = Commit then
             if waited > pt_reveal_slots patience then Fault (NotRevealed receipt head waited)
             else CannotDetermine (NotYetExecuted (r_seq (s_receipt receipt)))
           else if waited > pt_absent_slots patience then Fault (Absent receipt head waited)
           else CannotDetermine (NotYetExecuted (r_seq (s_receipt receipt))))
      | Some execution \<Rightarrow>
          (let held = saturating_sub (ex_slot execution) ingress in
           if ex_slot execution \<ge> ingress \<and> held > pt_held_slots patience
           then Fault (Withheld receipt execution held)
           else Clean))"

fun scan_deliveries ::
    "crypto \<Rightarrow> withdrawals \<Rightarrow> execution_index \<Rightarrow> blockhash_slots \<Rightarrow> u64 \<Rightarrow> patience \<Rightarrow> operator
     \<Rightarrow> signed_receipt list \<Rightarrow> scan \<Rightarrow> scan" where
  "scan_deliveries C withdrawn executed blockhashes head patience operator [] s = s"
| "scan_deliveries C withdrawn executed blockhashes head patience operator (receipt # receipts) s =
     scan_deliveries C withdrawn executed blockhashes head patience operator receipts
       (if is_err (accepts C operator receipt) then s
        else if r_mode (s_receipt receipt) = Retract then s
        else
          (let s = scan_record (check_ingress_is_possible receipt blockhashes patience) s in
           if withdrawals_of C withdrawn receipt \<noteq> None then s
           else scan_record (check_delivery receipt executed head patience) s))"

definition scan_withholding ::
    "crypto \<Rightarrow> signed_receipt list \<Rightarrow> execution_index \<Rightarrow> blockhash_slots \<Rightarrow> u64 \<Rightarrow> patience \<Rightarrow> operator \<Rightarrow> scan" where
  "scan_withholding C receipts executed blockhashes head patience operator =
     scan_deliveries C (withdrawals_build C receipts operator) executed blockhashes head patience operator
       receipts scan_new"

end
