(* ===== verification/Accusations.thy ===== *)
theory Accusations
  imports Scans
begin

text \<open>
  What the scan of the receipt log and the scan of deliveries can say: every fault of the log
  re-derives from the evidence it carries, a fault of delivery is raised exactly when the entries and the
  blocks seen show it, an equivocation is found exactly when there is one, and
  an honest log raises none, in whatever order and with whatever strangers' entries it arrives.
\<close>

section \<open>Recording verdicts\<close>

definition faults_of :: "verdict \<Rightarrow> fault list" where
  "faults_of v = (case v of Fault f \<Rightarrow> [f] | _ \<Rightarrow> [])"

lemma scan_record_faults [simp]: "sc_faults (scan_record v s) = sc_faults s @ faults_of v"
  by (cases v) (simp_all add: faults_of_def)

lemma faults_of_simps [simp]: "faults_of (Fault f) = [f]" "faults_of Clean = []" "faults_of (CannotDetermine u) = []"
  by (simp_all add: faults_of_def)

lemma scan_new_faults [simp]: "sc_faults scan_new = []"
  by (simp add: scan_new_def)

abbreviation seq_at :: "signed_receipt \<Rightarrow> u64" where
  "seq_at e \<equiv> r_seq (s_receipt e)"

abbreviation accepted :: "crypto \<Rightarrow> operator \<Rightarrow> signed_receipt \<Rightarrow> bool" where
  "accepted C operator e \<equiv> \<not> is_err (accepts C operator e)"

lemma accepted_iff:
  "accepted C operator e \<longleftrightarrow>
     r_log_id (s_receipt e) = op_log_id operator \<and> verify C e (op_key operator) = Inr ()"
  by (auto simp: accepts_def is_err_def split: sum.splits)

lemma accepted_signed: "accepted C operator e \<Longrightarrow> fault_signed C e (op_key operator) = Inr ()"
  by (simp add: accepted_iff fault_signed_def)

lemma accepted_same_log: "accepted C operator a \<Longrightarrow> accepted C operator b \<Longrightarrow> same_log a b = Inr ()"
  by (simp add: accepted_iff same_log_def)

section \<open>The scan of the log\<close>

lemma attribute_eq:
  "attribute C operator xs acc s = (xs', s') \<Longrightarrow>
     xs' = acc @ filter (accepted C operator) xs \<and> sc_faults s' = sc_faults s"
proof (induction xs arbitrary: acc s)
  case (Cons x xs)
  have clean: "check_belongs_here C x operator = Clean \<longleftrightarrow> accepted C operator x"
    "faults_of (check_belongs_here C x operator) = []"
    by (auto simp: check_belongs_here_def is_err_def split: sum.splits)
  show ?case
    using Cons.IH [of "if accepted C operator x then acc @ [x] else acc"
        "scan_record (check_belongs_here C x operator) s"] Cons.prems
    by (auto simp: Let_def clean split: if_splits)
qed simp

lemma group_step:
  "group_by_seq (e # rest) hs s = group_by_seq (dropWhile (\<lambda>x. seq_at x = seq_at e) rest) (hs @ [e])
     (scan_record (check_one_statement_per_sequence (seq_at e) (e # takeWhile (\<lambda>x. seq_at x = seq_at e) rest)) s)"
  by (simp add: Let_def)

lemma seq_groups_induct [case_names Nil Group]:
  assumes "P []" and "\<And>e rest. P (dropWhile (\<lambda>x. seq_at x = seq_at e) rest) \<Longrightarrow> P (e # rest)"
  shows "P xs"
proof (induction "length xs" arbitrary: xs rule: less_induct)
  case less
  show ?case
  proof (cases xs)
    case (Cons e rest)
    have "length (dropWhile (\<lambda>x. seq_at x = seq_at e) rest) < length xs"
      using length_dropWhile_le [of "\<lambda>x. seq_at x = seq_at e" rest] by (simp add: Cons)
    with less assms(2) show ?thesis
      by (simp add: Cons)
  qed (simp add: assms(1))
qed

lemma group_by_seq_heads:
  "group_by_seq xs hs s = (hs', s') \<Longrightarrow> \<exists>gs. hs' = hs @ gs \<and> set gs \<subseteq> set xs"
proof (induction xs arbitrary: hs s rule: seq_groups_induct)
  case (Group e rest)
  obtain gs where "hs' = (hs @ [e]) @ gs" "set gs \<subseteq> set (dropWhile (\<lambda>x. seq_at x = seq_at e) rest)"
    using Group.IH [OF Group.prems [unfolded group_step]] by blast
  then show ?case
    by (intro exI [of _ "e # gs"]) (auto dest: set_dropWhileD)
qed simp

lemma find_in_set: "find P xs = Some x \<Longrightarrow> x \<in> set xs \<and> P x"
  by (induction xs) (auto split: if_splits)

lemma one_statement_fault:
  assumes "f \<in> set (faults_of (check_one_statement_per_sequence n grp))"
  obtains b where "f = Equivocation n (grp ! 0) b" "b \<in> set grp" "b \<noteq> grp ! 0"
proof (cases "find (\<lambda>entry. entry \<noteq> grp ! 0) grp")
  case None
  with assms show thesis
    by (simp add: check_one_statement_per_sequence_def)
next
  case (Some b)
  with assms find_in_set [OF Some] that [of b] show thesis
    by (simp add: check_one_statement_per_sequence_def)
qed

lemma group_by_seq_faults:
  "group_by_seq xs hs s = (hs', s') \<Longrightarrow> f \<in> set (sc_faults s') \<Longrightarrow> f \<notin> set (sc_faults s) \<Longrightarrow>
     \<exists>a b. f = Equivocation (seq_at a) a b \<and> a \<in> set xs \<and> b \<in> set xs \<and> seq_at b = seq_at a \<and> a \<noteq> b"
proof (induction xs arbitrary: hs s rule: seq_groups_induct)
  case (Group e rest)
  let ?same = "\<lambda>x. seq_at x = seq_at e"
  let ?v = "check_one_statement_per_sequence (seq_at e) (e # takeWhile ?same rest)"
  show ?case
  proof (cases "f \<in> set (faults_of ?v)")
    case True
    then obtain b where b: "f = Equivocation (seq_at e) e b" "b \<in> set (e # takeWhile ?same rest)" "b \<noteq> e"
      using one_statement_fault [OF True] by auto
    then have "b \<in> set (e # rest)" "seq_at b = seq_at e"
      using set_takeWhileD by fastforce+
    with b show ?thesis
      by (intro exI [of _ e] exI [of _ b]) auto
  next
    case False
    then have "f \<notin> set (sc_faults (scan_record ?v s))"
      using Group.prems(3) by simp
    then obtain a b where "f = Equivocation (seq_at a) a b" "a \<in> set (dropWhile ?same rest)"
      "b \<in> set (dropWhile ?same rest)" "seq_at b = seq_at a" "a \<noteq> b"
      using Group.IH [OF Group.prems(1) [unfolded group_step] Group.prems(2)] by blast
    then show ?thesis
      by (intro exI [of _ a] exI [of _ b]) (auto dest: set_dropWhileD)
  qed
qed simp

lemma group_by_seq_keeps:
  "group_by_seq xs hs s = (hs', s') \<Longrightarrow> set (sc_faults s) \<subseteq> set (sc_faults s')"
proof (induction xs arbitrary: hs s rule: seq_groups_induct)
  case (Group e rest)
  from Group.IH [OF Group.prems [unfolded group_step]] show ?case
    by simp
qed simp

lemma sorted_dropWhile_neq:
  assumes "sorted (map f (e # rest))" and "x \<in> set (dropWhile (\<lambda>y. f y = f e) rest)"
  shows "f x \<noteq> f e"
proof (cases "dropWhile (\<lambda>y. f y = f e) rest")
  case (Cons h t)
  have "sorted (map f (dropWhile (\<lambda>y. f y = f e) rest))"
    using assms(1) sorted_wrt_dropWhile [of "\<lambda>x y. f x \<le> f y"] by (simp add: sorted_map)
  then have "f h \<le> f x"
    using assms(2) by (auto simp: Cons)
  moreover have "h \<in> set rest"
    using set_dropWhileD [of h "\<lambda>y. f y = f e" rest] by (simp add: Cons)
  moreover have "f h \<noteq> f e"
    using hd_dropWhile [of "\<lambda>y. f y = f e" rest] by (simp add: Cons)
  ultimately show ?thesis
    using assms(1) by auto
next
  case Nil
  then show ?thesis
    using assms(2) by (simp only: Nil) simp
qed

lemma group_by_seq_finds:
  "group_by_seq xs hs s = (hs', s') \<Longrightarrow> sorted (map seq_at xs) \<Longrightarrow>
     a \<in> set xs \<Longrightarrow> b \<in> set xs \<Longrightarrow> seq_at a = n \<Longrightarrow> seq_at b = n \<Longrightarrow> a \<noteq> b \<Longrightarrow>
     \<exists>a b. Equivocation n a b \<in> set (sc_faults s')"
proof (induction xs arbitrary: hs s rule: seq_groups_induct)
  case (Group e rest)
  let ?same = "\<lambda>x. seq_at x = seq_at e"
  let ?g = "e # takeWhile ?same rest"
  let ?v = "check_one_statement_per_sequence (seq_at e) ?g"
  note run = Group.prems(1) [unfolded group_step]
  have "set rest = set (takeWhile ?same rest) \<union> set (dropWhile ?same rest)"
    by (metis set_append takeWhile_dropWhile_id)
  then have split: "x \<in> set ?g \<or> x \<in> set (dropWhile ?same rest)" if "x \<in> set (e # rest)" for x
    using that by auto
  have later: "seq_at x \<noteq> seq_at e" if "x \<in> set (dropWhile ?same rest)" for x
    by (rule sorted_dropWhile_neq [OF Group.prems(2) that])
  show ?case
  proof (cases "n = seq_at e")
    case True
    then have "a \<in> set ?g" "b \<in> set ?g"
      using split [OF Group.prems(3)] split [OF Group.prems(4)] later [of a] later [of b] Group.prems(5,6) by auto
    then have "\<exists>x \<in> set ?g. x \<noteq> e"
      using Group.prems(7) by (cases "a = e") auto
    then obtain other where "find (\<lambda>x. x \<noteq> e) ?g = Some other"
      by (cases "find (\<lambda>x. x \<noteq> e) ?g") (auto simp: find_None_iff)
    then have "Equivocation n e other \<in> set (sc_faults (scan_record ?v s))"
      using True by (simp add: check_one_statement_per_sequence_def)
    then show ?thesis
      using group_by_seq_keeps [OF run] by blast
  next
    case False
    then have "a \<in> set (dropWhile ?same rest)" "b \<in> set (dropWhile ?same rest)"
      using split [of a] split [of b] Group.prems(3-6) by (auto dest: set_takeWhileD)
    moreover have "sorted (map seq_at (dropWhile ?same rest))"
      using Group.prems(2) sorted_wrt_dropWhile [of "\<lambda>x y. seq_at x \<le> seq_at y"] by (simp add: sorted_map)
    ultimately show ?thesis
      by (intro Group.IH [OF run]) (use Group.prems(5-7) in simp_all)
  qed
qed simp

lemma check_links_faults:
  "f \<in> set (sc_faults (check_links C xs s)) \<Longrightarrow> f \<notin> set (sc_faults s) \<Longrightarrow>
     \<exists>i. Suc i < length xs \<and> f = BrokenChain (seq_at (xs ! Suc i)) (xs ! Suc i) (xs ! i) \<and>
       seq_at (xs ! i) + 1 = seq_at (xs ! Suc i) \<and>
       r_prev_receipt_hash (s_receipt (xs ! Suc i)) \<noteq> receipt_hash C (xs ! i)"
proof (induction C xs s rule: check_links.induct)
  case (1 C a b rest s)
  show ?case
  proof (cases "f \<in> set (faults_of (check_link C a b))")
    case True
    then show ?thesis
      by (intro exI [of _ 0]) (auto simp: check_link_def split: if_splits)
  next
    case False
    then obtain i where "Suc i < length (b # rest)"
      "f = BrokenChain (seq_at ((b # rest) ! Suc i)) ((b # rest) ! Suc i) ((b # rest) ! i)"
      "seq_at ((b # rest) ! i) + 1 = seq_at ((b # rest) ! Suc i)"
      "r_prev_receipt_hash (s_receipt ((b # rest) ! Suc i)) \<noteq> receipt_hash C ((b # rest) ! i)"
      using 1 by auto
    then show ?thesis
      by (intro exI [of _ "Suc i"]) simp
  qed
qed auto

lemma check_links_keeps: "set (sc_faults s) \<subseteq> set (sc_faults (check_links C xs s))"
proof (induction C xs s rule: check_links.induct)
  case (1 C a b rest s)
  then show ?case
    by auto
qed simp_all

definition attributable :: "crypto \<Rightarrow> signed_receipt list \<Rightarrow> operator \<Rightarrow> signed_receipt list" where
  "attributable C receipts operator = filter (accepted C operator) (sort_key seq_at receipts)"

lemma attributable_set: "set (attributable C receipts operator) = {e \<in> set receipts. accepted C operator e}"
  by (auto simp: attributable_def)

lemma attributable_sorted: "sorted (map seq_at (attributable C receipts operator))"
  unfolding attributable_def by (rule sorted_filter) simp

lemma scan_receipts_parts:
  obtains hs s0 s where "group_by_seq (attributable C receipts operator) [] s0 = (hs, s)" "sc_faults s0 = []"
    and "scan_receipts C receipts operator =
      check_links C hs (case hs of [] \<Rightarrow> s | first # _ \<Rightarrow> scan_record (check_origin first) s)"
proof -
  obtain xs s0 where xs: "attribute C operator (sort_key seq_at receipts) [] scan_new = (xs, s0)"
    by fastforce
  have "xs = attributable C receipts operator" "sc_faults s0 = []"
    using attribute_eq [OF xs] by (simp_all add: attributable_def)
  moreover obtain hs s where "group_by_seq xs [] s0 = (hs, s)"
    by fastforce
  ultimately show thesis
    using that [of s0 hs s] xs by (simp add: scan_receipts_def Let_def)
qed

lemma scan_receipts_fault:
  assumes "f \<in> set (sc_faults (scan_receipts C receipts operator))"
  obtains a b where "f = Equivocation (seq_at a) a b" "accepted C operator a" "accepted C operator b"
      "a \<in> set receipts" "b \<in> set receipts" "seq_at b = seq_at a" "a \<noteq> b"
  | a where "f = BadOrigin a" "accepted C operator a" "a \<in> set receipts" "seq_at a = 0"
      "r_prev_receipt_hash (s_receipt a) \<noteq> GENESIS_PREV_HASH"
  | a b where "f = BrokenChain (seq_at b) b a" "accepted C operator a" "accepted C operator b"
      "a \<in> set receipts" "b \<in> set receipts" "seq_at a + 1 = seq_at b"
      "r_prev_receipt_hash (s_receipt b) \<noteq> receipt_hash C a"
proof -
  obtain hs s0 s where run: "group_by_seq (attributable C receipts operator) [] s0 = (hs, s)" "sc_faults s0 = []"
    and scan: "scan_receipts C receipts operator =
      check_links C hs (case hs of [] \<Rightarrow> s | first # _ \<Rightarrow> scan_record (check_origin first) s)"
    by (rule scan_receipts_parts)
  let ?s1 = "case hs of [] \<Rightarrow> s | first # _ \<Rightarrow> scan_record (check_origin first) s"
  have hs: "e \<in> set hs \<Longrightarrow> e \<in> set receipts \<and> accepted C operator e" for e
    using group_by_seq_heads [OF run(1)] attributable_set by fastforce
  consider "f \<in> set (sc_faults s)" | "f \<notin> set (sc_faults s)" "f \<in> set (sc_faults ?s1)" | "f \<notin> set (sc_faults ?s1)"
    by blast
  then show thesis
  proof cases
    case 1
    then show ?thesis
      using group_by_seq_faults [OF run(1)] run(2) attributable_set that(1) by fastforce
  next
    case 2
    then obtain first rest where "hs = first # rest" "f \<in> set (faults_of (check_origin first))"
      by (cases hs) auto
    then show ?thesis
      using hs [of first] that(2) [of first] by (auto simp: check_origin_def split: if_splits)
  next
    case 3
    then obtain i where "Suc i < length hs" "f = BrokenChain (seq_at (hs ! Suc i)) (hs ! Suc i) (hs ! i)"
      "seq_at (hs ! i) + 1 = seq_at (hs ! Suc i)"
      "r_prev_receipt_hash (s_receipt (hs ! Suc i)) \<noteq> receipt_hash C (hs ! i)"
      using check_links_faults assms unfolding scan by blast
    then show ?thesis
      using that(3) hs [of "hs ! i"] hs [of "hs ! Suc i"] by simp
  qed
qed

lemma withdrawals_insert_None:
  "withdrawals_insert C operator receipts m k = None \<longleftrightarrow>
    m k = None \<and> \<not> (\<exists>w \<in> set receipts. accepted C operator w \<and> r_mode (s_receipt w) = Retract \<and> r_tx_hash (s_receipt w) = k)"
  by (induction receipts arbitrary: m) auto

lemma withdrawals_of_None:
  "withdrawals_of C (withdrawals_build C receipts operator) e = None \<longleftrightarrow>
    \<not> (\<exists>w \<in> set receipts. accepted C operator w \<and> r_mode (s_receipt w) = Retract \<and> r_tx_hash (s_receipt w) = receipt_hash C e)"
  by (simp add: withdrawals_of_def withdrawals_build_def withdrawals_insert_None)

lemma scan_deliveries_faults:
  "f \<in> set (sc_faults (scan_deliveries C withdrawn executed blockhashes head patience operator receipts s)) \<longleftrightarrow>
   f \<in> set (sc_faults s) \<or>
   (\<exists>e \<in> set receipts. accepted C operator e \<and> r_mode (s_receipt e) \<noteq> Retract \<and>
     (f \<in> set (faults_of (check_ingress_is_possible e blockhashes patience)) \<or>
      withdrawals_of C withdrawn e = None \<and> f \<in> set (faults_of (check_delivery e executed head patience))))"
proof (induction receipts arbitrary: s)
  case (Cons e receipts)
  show ?case
    unfolding scan_deliveries.simps Cons.IH by (auto simp: Let_def split: if_splits)
qed simp

text \<open>What a fault of the log says of the entries, and what a fault of delivery says of them and of the blocks seen.\<close>

fun log_fault :: "crypto \<Rightarrow> operator \<Rightarrow> signed_receipt list \<Rightarrow> fault \<Rightarrow> bool" where
  "log_fault C operator receipts (Equivocation n a b) \<longleftrightarrow>
     a \<in> set receipts \<and> b \<in> set receipts \<and> accepted C operator a \<and> accepted C operator b \<and>
     seq_at a = n \<and> seq_at b = n \<and> a \<noteq> b"
| "log_fault C operator receipts (BrokenChain n e before) \<longleftrightarrow>
     e \<in> set receipts \<and> before \<in> set receipts \<and> accepted C operator e \<and> accepted C operator before \<and>
     seq_at e = n \<and> seq_at before + 1 = n \<and> r_prev_receipt_hash (s_receipt e) \<noteq> receipt_hash C before"
| "log_fault C operator receipts (BadOrigin e) \<longleftrightarrow>
     e \<in> set receipts \<and> accepted C operator e \<and> seq_at e = 0 \<and> r_prev_receipt_hash (s_receipt e) \<noteq> GENESIS_PREV_HASH"
| "log_fault C operator receipts _ \<longleftrightarrow> False"

definition promised :: "crypto \<Rightarrow> operator \<Rightarrow> signed_receipt list \<Rightarrow> signed_receipt \<Rightarrow> bool" where
  "promised C operator receipts e \<longleftrightarrow>
     e \<in> set receipts \<and> accepted C operator e \<and> r_mode (s_receipt e) \<noteq> Retract"

definition taken_back :: "crypto \<Rightarrow> operator \<Rightarrow> signed_receipt list \<Rightarrow> signed_receipt \<Rightarrow> bool" where
  "taken_back C operator receipts e \<longleftrightarrow>
     (\<exists>w \<in> set receipts. accepted C operator w \<and> r_mode (s_receipt w) = Retract \<and> r_tx_hash (s_receipt w) = receipt_hash C e)"

fun delivery_fault ::
    "crypto \<Rightarrow> operator \<Rightarrow> signed_receipt list \<Rightarrow> execution_index \<Rightarrow> blockhash_slots \<Rightarrow> u64 \<Rightarrow> patience \<Rightarrow> fault \<Rightarrow> bool" where
  "delivery_fault C operator receipts executed blockhashes head patience (Withheld e execution held) \<longleftrightarrow>
     promised C operator receipts e \<and> \<not> taken_back C operator receipts e \<and>
     execution_find executed e = Some execution \<and>
     unat (ex_slot execution) = unat (r_ingress_slot (s_receipt e)) + unat held \<and> held > pt_held_slots patience"
| "delivery_fault C operator receipts executed blockhashes head patience (Absent e at waited) \<longleftrightarrow>
     promised C operator receipts e \<and> \<not> taken_back C operator receipts e \<and>
     execution_find executed e = None \<and> r_mode (s_receipt e) \<noteq> Commit \<and> at = head \<and>
     unat waited = unat head - unat (r_ingress_slot (s_receipt e)) \<and> waited > pt_absent_slots patience"
| "delivery_fault C operator receipts executed blockhashes head patience (NotRevealed e at waited) \<longleftrightarrow>
     promised C operator receipts e \<and> \<not> taken_back C operator receipts e \<and>
     execution_find executed e = None \<and> r_mode (s_receipt e) = Commit \<and> at = head \<and>
     unat waited = unat head - unat (r_ingress_slot (s_receipt e)) \<and> waited > pt_reveal_slots patience"
| "delivery_fault C operator receipts executed blockhashes head patience (ImpossibleIngress e born age) \<longleftrightarrow>
     promised C operator receipts e \<and> r_mode (s_receipt e) \<noteq> Commit \<and>
     slot_of blockhashes (r_recent_blockhash (s_receipt e)) = Some born \<and> age = pt_max_blockhash_age patience \<and>
     (r_ingress_slot (s_receipt e) < born \<or> unat age + unat born < unat (r_ingress_slot (s_receipt e)))"
| "delivery_fault C operator receipts executed blockhashes head patience _ \<longleftrightarrow> False"

lemma saturating_sub_eq: "x = saturating_sub a b \<longleftrightarrow> unat x = unat a - unat b" for a b :: "'a::len word"
  by (auto simp: saturating_sub_def word_le_nat_alt unat_sub unsigned_eq_0_iff intro: word_unat_eq_iff [THEN iffD2])

lemma fault_of_ingress:
  "f \<in> set (faults_of (check_ingress_is_possible e blockhashes patience)) \<longleftrightarrow>
   r_mode (s_receipt e) \<noteq> Commit \<and>
   (\<exists>born. slot_of blockhashes (r_recent_blockhash (s_receipt e)) = Some born \<and>
     f = ImpossibleIngress e born (pt_max_blockhash_age patience) \<and>
     (r_ingress_slot (s_receipt e) < born \<or>
      unat (pt_max_blockhash_age patience) + unat born < unat (r_ingress_slot (s_receipt e))))"
  by (auto simp: check_ingress_is_possible_def impossible_ingress_def saturating_sub_def word_less_nat_alt word_le_nat_alt
      unat_sub split: option.splits)

lemma fault_of_delivery:
  "f \<in> set (faults_of (check_delivery e executed head patience)) \<longleftrightarrow>
   (\<exists>waited. execution_find executed e = None \<and> unat waited = unat head - unat (r_ingress_slot (s_receipt e)) \<and>
     (f = NotRevealed e head waited \<and> r_mode (s_receipt e) = Commit \<and> waited > pt_reveal_slots patience \<or>
      f = Absent e head waited \<and> r_mode (s_receipt e) \<noteq> Commit \<and> waited > pt_absent_slots patience)) \<or>
   (\<exists>execution held. execution_find executed e = Some execution \<and> f = Withheld e execution held \<and>
     unat (ex_slot execution) = unat (r_ingress_slot (s_receipt e)) + unat held \<and> held > pt_held_slots patience)"
proof (cases "execution_find executed e")
  case None
  then show ?thesis
    unfolding saturating_sub_eq [symmetric] by (auto simp: check_delivery_def Let_def)
next
  case (Some execution)
  have "unat (ex_slot execution) = unat (r_ingress_slot (s_receipt e)) + unat held \<longleftrightarrow>
    r_ingress_slot (s_receipt e) \<le> ex_slot execution \<and> held = saturating_sub (ex_slot execution) (r_ingress_slot (s_receipt e))" for held
    unfolding saturating_sub_eq by (auto simp: word_le_nat_alt)
  then show ?thesis
    unfolding check_delivery_def Let_def Some by auto
qed

section \<open>Properties\<close>

text \<open>
  C19. What the watchtower says of the log it can prove, and what it says of deliveries is what it saw:
  whatever entries it is given, each fault of its scan of the log (a contradiction, a broken chain, a
  wrong origin) re-derives from the evidence it carries under the operator's key alone and holds of the
  entries; and its scan of deliveries raises a fault exactly if it holds, of a promise of the operator
  among the entries, that it arrived at a time its block hash excludes, or that it was not taken back
  and ran later, or has not run for longer, than patience allows. The absence of a transaction does not
  re-derive from the fault: it is a statement about the blocks seen.
\<close>
theorem accusations_reproducible:
  "(f \<in> set (sc_faults (scan_receipts C receipts operator)) \<longrightarrow>
     fault_verify C f (op_key operator) = Inr () \<and> log_fault C operator receipts f) \<and>
   (f \<in> set (sc_faults (scan_withholding C receipts executed blockhashes head patience operator)) \<longleftrightarrow>
     delivery_fault C operator receipts executed blockhashes head patience f)"
proof (intro conjI impI)
  assume f: "f \<in> set (sc_faults (scan_receipts C receipts operator))"
  then show "fault_verify C f (op_key operator) = Inr ()"
    by (rule scan_receipts_fault) (auto simp: accepted_signed accepted_same_log)
  from f show "log_fault C operator receipts f"
    by (rule scan_receipts_fault) auto
next
  show "f \<in> set (sc_faults (scan_withholding C receipts executed blockhashes head patience operator)) \<longleftrightarrow>
     delivery_fault C operator receipts executed blockhashes head patience f"
    unfolding scan_withholding_def scan_deliveries_faults fault_of_ingress fault_of_delivery withdrawals_of_None
    by (cases f) (auto simp: promised_def taken_back_def)
qed

text \<open>
  C18. Contradictions are found exactly: the scan of the log reports an equivocation at a position
  if and only if the entries hold two different statements about it that the operator signed for
  this log. The order in which entries arrive, repetitions and entries of others change nothing.
\<close>
theorem equivocation_found_iff:
  "(\<exists>a b. Equivocation n a b \<in> set (sc_faults (scan_receipts C receipts operator))) \<longleftrightarrow>
   (\<exists>a b. a \<in> set receipts \<and> b \<in> set receipts \<and> accepts C operator a = Inr () \<and> accepts C operator b = Inr () \<and>
      r_seq (s_receipt a) = n \<and> r_seq (s_receipt b) = n \<and> a \<noteq> b)"
  (is "?found \<longleftrightarrow> ?there")
proof
  have ok: "accepts C operator e = Inr () \<longleftrightarrow> accepted C operator e" for e
    by (auto simp: accepts_def split: if_splits)
  show ?there if ?found
    using that by (auto elim!: scan_receipts_fault simp: ok)
  show ?found if there: ?there
  proof -
    obtain hs s0 s where run: "group_by_seq (attributable C receipts operator) [] s0 = (hs, s)"
      and scan: "scan_receipts C receipts operator =
        check_links C hs (case hs of [] \<Rightarrow> s | first # _ \<Rightarrow> scan_record (check_origin first) s)"
      by (rule scan_receipts_parts)
    obtain a b where "a \<in> set (attributable C receipts operator)" "b \<in> set (attributable C receipts operator)"
      "seq_at a = n" "seq_at b = n" "a \<noteq> b"
      using there by (auto simp: ok attributable_set)
    then obtain a b where "Equivocation n a b \<in> set (sc_faults s)"
      using group_by_seq_finds [OF run attributable_sorted] by blast
    then have "Equivocation n a b \<in> set (sc_faults (case hs of [] \<Rightarrow> s | first # _ \<Rightarrow> scan_record (check_origin first) s))"
      by (cases hs) simp_all
    then show ?thesis
      using check_links_keeps unfolding scan by blast
  qed
qed

lemma honest_log_clean:
  assumes "\<And>i. i < length log \<Longrightarrow> r_seq (s_receipt (log ! i)) = of_nat i"
    and "\<And>i. Suc i < length log \<Longrightarrow> r_prev_receipt_hash (s_receipt (log ! Suc i)) = receipt_hash C (log ! i)"
    and "log \<noteq> [] \<Longrightarrow> r_prev_receipt_hash (s_receipt (log ! 0)) = GENESIS_PREV_HASH"
    and "length log < 2 ^ 64"
    and "\<And>e. e \<in> set receipts \<Longrightarrow> accepts C operator e = Inr () \<Longrightarrow> e \<in> set log"
  shows "sc_faults (scan_receipts C receipts operator) = []"
proof -
  have inj: "i = j" if "i < length log" "j < length log" "seq_at (log ! i) = seq_at (log ! j)" for i j
  proof -
    have "unat (of_nat i :: u64) = i" "unat (of_nat j :: u64) = j"
      using that assms(4) by (simp_all add: unat_of_nat_u64)
    then show ?thesis
      using that assms(1) by metis
  qed
  have inlog: "\<exists>i < length log. e = log ! i" if "e \<in> set receipts" "accepted C operator e" for e
    using that assms(5) [of e] by (auto simp: accepts_def in_set_conv_nth split: if_splits)
  have none: False if "f \<in> set (sc_faults (scan_receipts C receipts operator))" for f
    using that
  proof (rule scan_receipts_fault)
    fix a b
    assume "a \<in> set receipts" "b \<in> set receipts" "accepted C operator a" "accepted C operator b"
      "seq_at b = seq_at a" "a \<noteq> b"
    then show False
      using inlog inj by metis
  next
    fix a
    assume a: "a \<in> set receipts" "accepted C operator a" "seq_at a = 0"
      "r_prev_receipt_hash (s_receipt a) \<noteq> GENESIS_PREV_HASH"
    obtain i where i: "i < length log" "a = log ! i"
      using inlog a(1,2) by blast
    moreover have "0 < length log"
      using i(1) by linarith
    moreover from this have "seq_at (log ! 0) = 0"
      using assms(1) [of 0] by simp
    ultimately have "i = 0"
      using inj [of i 0] a(3) by simp
    then show False
      using i a(4) assms(3) by auto
  next
    fix a b
    assume ab: "a \<in> set receipts" "b \<in> set receipts" "accepted C operator a" "accepted C operator b"
      "seq_at a + 1 = seq_at b" "r_prev_receipt_hash (s_receipt b) \<noteq> receipt_hash C a"
    obtain i j where ij: "i < length log" "a = log ! i" "j < length log" "b = log ! j"
      using inlog ab(1-4) by metis
    have "(of_nat (Suc i) :: u64) = of_nat j"
      using ab(5) ij assms(1) [of i] assms(1) [of j] by (simp add: add.commute)
    moreover have "unat (of_nat (Suc i) :: u64) = Suc i" "unat (of_nat j :: u64) = j"
      by (rule unat_of_nat_u64, use ij assms(4) in linarith)+
    ultimately have "j = Suc i"
      by metis
    then show False
      using ij ab(6) assms(2) [of i] by simp
  qed
  show ?thesis
  proof (cases "sc_faults (scan_receipts C receipts operator)")
    case (Cons f fs)
    then show ?thesis
      using none [of f] by simp
  qed
qed

text \<open>
  An honest log is never accused: if the operator's entries are a chain of one statement per
  position, linked by hashes from the first on, then the scan raises no fault, whatever part of the
  log is shown, in whatever order, however often, and mixed with whatever entries the operator did
  not sign for this log.
\<close>
theorem honest_log_not_accused:
  assumes "\<And>i. i < length log \<Longrightarrow> r_seq (s_receipt (log ! i)) = of_nat i"
    and "\<And>i. Suc i < length log \<Longrightarrow> r_prev_receipt_hash (s_receipt (log ! Suc i)) = receipt_hash C (log ! i)"
    and "log \<noteq> [] \<Longrightarrow> r_prev_receipt_hash (s_receipt (log ! 0)) = GENESIS_PREV_HASH"
    and "length log < 2 ^ 64"
    and "\<And>e. e \<in> set receipts \<Longrightarrow> accepts C operator e = Inr () \<Longrightarrow> e \<in> set log"
  shows "sc_faults (scan_receipts C receipts operator) = []"
  using assms by (rule honest_log_clean)

end
