(* ===== verification/Block_Accusations.thy ===== *)
theory Block_Accusations
  imports Accusations
begin

text \<open>
  What the scan of a block can say: the order it judges is the one that reproduces the block hash,
  it always returns, and its ordering and withdrawal faults re-derive for plain receipts. For
  receipts given blind (\<open>COMMIT\<close>) they never do.
\<close>

section \<open>The execution order\<close>

lemma executed_order_reproduces:
  assumes "executed_order C block = Some txns"
  shows "fold_hash C (ob_previous_blockhash block) (map ot_signature txns) = ob_blockhash block"
    and "txns = ob_transactions block \<or> txns = rev (ob_transactions block)"
  using assms
  by (auto simp: executed_order_def order_derive_def Let_def rev_map split: if_splits)

lemma concat_inj_length:
  assumes "\<forall>x \<in> set xs. length x = n" "\<forall>y \<in> set ys. length y = n" "0 < n" "concat xs = concat ys"
  shows "xs = ys"
  using assms(1,2,4)
proof (induction xs arbitrary: ys)
  case Nil
  show ?case
  proof (cases ys)
    case (Cons y ys')
    then have "length y = 0" "length y = n"
      using Nil by simp_all
    with assms(3) show ?thesis
      by simp
  qed simp
next
  case (Cons x xs)
  show ?case
  proof (cases ys)
    case Nil
    then have "length x = 0" "length x = n"
      using Cons.prems by simp_all
    with assms(3) show ?thesis
      by simp
  next
    case (Cons y ys')
    have "length x = length y" "x @ concat xs = y @ concat ys'"
      using Cons.prems Cons by simp_all
    then have "x = y" "concat xs = concat ys'"
      by simp_all
    with Cons.IH [of ys'] Cons.prems Cons show ?thesis
      by simp
  qed
qed

section \<open>What the indexes hold\<close>

lemma withdrawals_insert_Some:
  "withdrawals_insert C operator receipts m k = Some r \<Longrightarrow> m k = Some r \<or>
     r \<in> set receipts \<and> accepted C operator r \<and> r_mode (s_receipt r) = Retract \<and> r_tx_hash (s_receipt r) = k"
proof (induction receipts arbitrary: m)
  case (Cons e receipts)
  show ?case
  proof (cases "r_mode (s_receipt e) = Retract \<and> accepted C operator e")
    case True
    then have "withdrawals_insert C operator receipts (m(r_tx_hash (s_receipt e) \<mapsto> e)) k = Some r"
      using Cons.prems by simp
    from Cons.IH [OF this] True show ?thesis
      by (cases "k = r_tx_hash (s_receipt e)") auto
  next
    case False
    then show ?thesis
      using Cons.IH [of m] Cons.prems by auto
  qed
qed simp

lemma withdrawal_Some:
  assumes "withdrawals_of C (withdrawals_build C receipts operator) e = Some r"
  shows "r \<in> set receipts" "accepted C operator r" "r_mode (s_receipt r) = Retract"
    "r_tx_hash (s_receipt r) = receipt_hash C e"
  using withdrawals_insert_Some [OF assms [unfolded withdrawals_of_def withdrawals_build_def]] by simp_all

lemma receipt_index_insert_Some:
  fixes r
  defines "P \<equiv> \<lambda>m receipts C operator. r \<in> set receipts \<and> accepted C operator r \<and> r_mode (s_receipt r) = m"
  shows "(ri_by_signature (receipt_index_insert C operator receipts ix) k = Some r \<longrightarrow>
      ri_by_signature ix k = Some r \<or> P Plain receipts C operator \<and> r_tx_sig (s_receipt r) = k) \<and>
    (ri_by_hash (receipt_index_insert C operator receipts ix) k = Some r \<longrightarrow>
      ri_by_hash ix k = Some r \<or> P Commit receipts C operator \<and> r_tx_hash (s_receipt r) = k) \<and>
    ri_withdrawn (receipt_index_insert C operator receipts ix) = ri_withdrawn ix"
proof (induction receipts arbitrary: ix)
  case (Cons e receipts)
  show ?case
  proof (cases "accepted C operator e")
    case True
    then show ?thesis
      using Cons.IH [of "case r_mode (s_receipt e) of
           Commit \<Rightarrow> ix\<lparr>ri_by_hash := (ri_by_hash ix)(r_tx_hash (s_receipt e) \<mapsto> e)\<rparr>
         | Plain \<Rightarrow> ix\<lparr>ri_by_signature := (ri_by_signature ix)(r_tx_sig (s_receipt e) \<mapsto> e)\<rparr>
         | Retract \<Rightarrow> ix
         | Reveal \<Rightarrow> ix"]
      by (cases "r_mode (s_receipt e)") (auto simp: P_def split: if_splits)
  next
    case False
    then show ?thesis
      using Cons.IH [of ix] by (auto simp: P_def)
  qed
qed (simp add: P_def)

lemma receipt_find_Some:
  assumes "receipt_find (receipt_index_build C receipts operator) txn = Some r"
  shows "r \<in> set receipts" "accepted C operator r"
    "r_mode (s_receipt r) = Plain \<and> r_tx_sig (s_receipt r) = ot_signature txn \<or>
     r_mode (s_receipt r) = Commit \<and> r_tx_hash (s_receipt r) = ot_tx_hash txn"
  using assms
    receipt_index_insert_Some [of C operator receipts
      "\<lparr>ri_by_signature = Map.empty, ri_by_hash = Map.empty, ri_withdrawn = withdrawals_build C receipts operator\<rparr>"
      "ot_signature txn" r]
    receipt_index_insert_Some [of C operator receipts
      "\<lparr>ri_by_signature = Map.empty, ri_by_hash = Map.empty, ri_withdrawn = withdrawals_build C receipts operator\<rparr>"
      "ot_tx_hash txn" r]
  unfolding receipt_find_def receipt_index_build_def by (auto split: option.splits)

lemma receipt_withdrawal_build:
  "receipt_withdrawal C (receipt_index_build C receipts operator) e =
     withdrawals_of C (withdrawals_build C receipts operator) e"
  by (simp add: receipt_withdrawal_def receipt_index_build_def receipt_index_insert_Some)

section \<open>The scan of a block\<close>

lemma scan_tickets_fault:
  "f \<in> set (sc_faults (scan_tickets C block executed receipts numbered s)) \<Longrightarrow> f \<notin> set (sc_faults s) \<Longrightarrow>
     \<exists>(i, txn) \<in> set numbered. f \<in> set (faults_of (check_ticket_is_live C block (of_nat i) txn executed receipts))"
proof (induction numbered arbitrary: s)
  case (Cons at rest)
  obtain i txn where at: "at = (i, txn)"
    by fastforce
  show ?case
  proof (cases "f \<in> set (faults_of (check_ticket_is_live C block (of_nat i) txn executed receipts))")
    case False
    then show ?thesis
      using Cons.IH [of "scan_record (check_ticket_is_live C block (of_nat i) txn executed receipts) s"] Cons.prems
      by (auto simp: at)
  qed (auto simp: at)
qed simp

lemma check_pair_total:
  "executed_order C block = Some executed \<Longrightarrow> check_pair C block x y receipts operator identity \<noteq> None"
  by (auto simp: check_pair_def Let_def split: prod.splits option.splits)

lemma scan_later_run:
  assumes "executed_order C block = Some executed"
  shows "\<exists>s'. scan_later C block receipts operator identity at_first rest s = Some s' \<and>
    (\<forall>f \<in> set (sc_faults s'). f \<in> set (sc_faults s) \<or>
      (\<exists>at \<in> set rest. check_pair C block (of_nat (fst at_first), snd at_first) (of_nat (fst at), snd at)
         receipts operator identity = Some (Fault f)))"
proof (induction rest arbitrary: s)
  case (Cons at rest)
  obtain later second where at: "at = (later, second)"
    by fastforce
  obtain v where v: "check_pair C block (of_nat (fst at_first), snd at_first) (of_nat later, second)
      receipts operator identity = Some v"
    using check_pair_total [OF assms] by blast
  have "f \<in> set (faults_of v) \<Longrightarrow> v = Fault f" for f
    by (cases v) simp_all
  with Cons [of "scan_record v s"] v show ?case
    by (fastforce simp: at)
qed simp

lemma scan_pairs_run:
  assumes "executed_order C block = Some executed"
  shows "\<exists>s'. scan_pairs C block receipts operator identity numbered s = Some s' \<and>
    (\<forall>f \<in> set (sc_faults s'). f \<in> set (sc_faults s) \<or>
      (\<exists>i j. i < j \<and> j < length numbered \<and>
        check_pair C block (of_nat (fst (numbered ! i)), snd (numbered ! i))
          (of_nat (fst (numbered ! j)), snd (numbered ! j)) receipts operator identity = Some (Fault f)))"
proof (induction numbered arbitrary: s)
  case (Cons at rest)
  obtain s1 where s1: "scan_later C block receipts operator identity at rest s = Some s1"
    and f1: "\<forall>f \<in> set (sc_faults s1). f \<in> set (sc_faults s) \<or>
      (\<exists>b \<in> set rest. check_pair C block (of_nat (fst at), snd at) (of_nat (fst b), snd b)
         receipts operator identity = Some (Fault f))"
    using scan_later_run [OF assms] by blast
  obtain s2 where s2: "scan_pairs C block receipts operator identity rest s1 = Some s2"
    and f2: "\<forall>f \<in> set (sc_faults s2). f \<in> set (sc_faults s1) \<or>
      (\<exists>i j. i < j \<and> j < length rest \<and>
        check_pair C block (of_nat (fst (rest ! i)), snd (rest ! i))
          (of_nat (fst (rest ! j)), snd (rest ! j)) receipts operator identity = Some (Fault f))"
    using Cons.IH by blast
  have "f \<in> set (sc_faults s) \<or> (\<exists>i j. i < j \<and> j < length (at # rest) \<and>
        check_pair C block (of_nat (fst ((at # rest) ! i)), snd ((at # rest) ! i))
          (of_nat (fst ((at # rest) ! j)), snd ((at # rest) ! j)) receipts operator identity = Some (Fault f))"
    if f: "f \<in> set (sc_faults s2)" for f
  proof (cases "f \<in> set (sc_faults s1)")
    case True
    then consider "f \<in> set (sc_faults s)" | j where "j < length rest"
      "check_pair C block (of_nat (fst at), snd at) (of_nat (fst (rest ! j)), snd (rest ! j))
         receipts operator identity = Some (Fault f)"
      using f1 by (metis in_set_conv_nth)
    then show ?thesis
    proof cases
      case 2
      then show ?thesis
        by (intro disjI2 exI [of _ 0] exI [of _ "Suc j"]) simp
    qed simp
  next
    case False
    then obtain i j where "i < j" "j < length rest" "check_pair C block (of_nat (fst (rest ! i)), snd (rest ! i))
          (of_nat (fst (rest ! j)), snd (rest ! j)) receipts operator identity = Some (Fault f)"
      using f2 f by blast
    then show ?thesis
      by (intro disjI2 exI [of _ "Suc i"] exI [of _ "Suc j"]) simp
  qed
  with s1 s2 show ?case
    by simp
qed simp

lemma scan_block_run:
  "\<exists>s. scan_block C block receipts operator identity = Some s \<and>
    (\<forall>f \<in> set (sc_faults s). \<exists>executed. executed_order C block = Some executed \<and>
      ((\<exists>i < length executed.
          f \<in> set (faults_of (check_ticket_is_live C block (of_nat i) (executed ! i) executed receipts))) \<or>
       (\<exists>i j. i < j \<and> j < length executed \<and>
          check_pair C block (of_nat i, executed ! i) (of_nat j, executed ! j) receipts operator identity =
            Some (Fault f))))"
proof (cases "executed_order C block")
  case (Some executed)
  let ?s0 = "scan_tickets C block executed receipts (enumerate 0 executed) scan_new"
  obtain s where s: "scan_pairs C block receipts operator identity (enumerate 0 executed) ?s0 = Some s"
    and pairs: "\<forall>f \<in> set (sc_faults s). f \<in> set (sc_faults ?s0) \<or>
      (\<exists>i j. i < j \<and> j < length (enumerate 0 executed) \<and>
        check_pair C block (of_nat (fst (enumerate 0 executed ! i)), snd (enumerate 0 executed ! i))
          (of_nat (fst (enumerate 0 executed ! j)), snd (enumerate 0 executed ! j)) receipts operator identity =
          Some (Fault f))"
    using scan_pairs_run [OF Some] by blast
  have tickets: "\<exists>i < length executed.
      f \<in> set (faults_of (check_ticket_is_live C block (of_nat i) (executed ! i) executed receipts))"
    if "f \<in> set (sc_faults ?s0)" for f
    using scan_tickets_fault [OF that] by (auto simp: in_set_enumerate_eq)
  have "\<exists>i j. i < j \<and> j < length executed \<and>
      check_pair C block (of_nat i, executed ! i) (of_nat j, executed ! j) receipts operator identity = Some (Fault f)"
    if f: "f \<in> set (sc_faults s)" "f \<notin> set (sc_faults ?s0)" for f
  proof -
    obtain i j where "i < j" "j < length executed" "check_pair C block
        (of_nat (fst (enumerate 0 executed ! i)), snd (enumerate 0 executed ! i))
        (of_nat (fst (enumerate 0 executed ! j)), snd (enumerate 0 executed ! j)) receipts operator identity =
        Some (Fault f)"
      using pairs f by auto
    then show ?thesis
      by (intro exI [of _ i] exI [of _ j]) (simp add: nth_enumerate_eq)
  qed
  with s tickets show ?thesis
    using Some by (auto simp: scan_block_def Let_def)
qed (simp add: scan_block_def)

text \<open>
  Receipts that bind: no blind ones, each names the bytes of its transaction, positions are not
  shared, and a withdrawal comes after what it withdraws.
\<close>

definition binding_receipts :: "crypto \<Rightarrow> observed_block \<Rightarrow> signed_receipt list \<Rightarrow> bool" where
  "binding_receipts C block receipts \<longleftrightarrow>
     (\<forall>r \<in> set receipts. r_mode (s_receipt r) \<noteq> Commit) \<and>
     (\<forall>r \<in> set receipts. \<forall>t \<in> set (ob_transactions block).
        r_mode (s_receipt r) = Plain \<and> r_tx_sig (s_receipt r) = ot_signature t \<longrightarrow>
        r_tx_hash (s_receipt r) = tx_hash_of C (ot_wire_bytes t)) \<and>
     (\<forall>a \<in> set receipts. \<forall>b \<in> set receipts. r_seq (s_receipt a) = r_seq (s_receipt b) \<longrightarrow> a = b) \<and>
     (\<forall>a \<in> set receipts. \<forall>b \<in> set receipts.
        r_mode (s_receipt b) = Retract \<and> r_tx_hash (s_receipt b) = receipt_hash C a \<longrightarrow>
        r_seq (s_receipt a) < r_seq (s_receipt b))"

lemma binding_find:
  assumes "binding_receipts C block receipts"
    and "receipt_find (receipt_index_build C receipts operator) t = Some r"
  shows "r \<in> set receipts" "accepted C operator r" "r_mode (s_receipt r) = Plain"
    "r_tx_sig (s_receipt r) = ot_signature t"
    "t \<in> set (ob_transactions block) \<Longrightarrow> r_tx_hash (s_receipt r) = tx_hash_of C (ot_wire_bytes t)"
  using receipt_find_Some [OF assms(2)] assms(1) unfolding binding_receipts_def by blast+

lemma ticket_fault_verifies:
  assumes binding: "binding_receipts C block receipts" and short: "length (ob_transactions block) < 2 ^ 32"
    and out: "executed_order C block = Some executed" and i: "i < length executed"
    and f: "f \<in> set (faults_of (check_ticket_is_live C block (of_nat i) (executed ! i) executed
      (receipt_index_build C receipts operator)))"
  shows "fault_verify C f (op_key operator) = Inr ()"
proof -
  let ?ix = "receipt_index_build C receipts operator"
  note order = executed_order_reproduces [OF out]
  have len: "unat (of_nat i :: u32) = i"
    using i order(2) short by (auto simp: unat_of_nat take_bit_eq_mod)
  show ?thesis
  proof (cases "receipt_find ?ix (executed ! i)")
    case None
    with f show ?thesis
      by (simp add: check_ticket_is_live_def)
  next
    case (Some r)
    note r = binding_find(1-4) [OF binding Some]
    show ?thesis
    proof (cases "withdrawals_of C (withdrawals_build C receipts operator) r")
      case None
      with f Some show ?thesis
        by (simp add: check_ticket_is_live_def receipt_withdrawal_build)
    next
      case (Some w)
      note w = withdrawal_Some [OF Some]
      have "\<not> r_seq (s_receipt w) \<le> r_seq (s_receipt r)"
        using binding r(1) w(1,3,4) unfolding binding_receipts_def by (simp add: not_le)
      then show ?thesis
        using f \<open>receipt_find ?ix (executed ! i) = Some r\<close> Some w r i len order(1)
        by (simp add: check_ticket_is_live_def receipt_withdrawal_build accepted_signed accepted_same_log
            sits_at_def get_at_def)
    qed
  qed
qed

lemma pair_fault_verifies:
  assumes binding: "binding_receipts C block receipts" and short: "length (ob_transactions block) < 2 ^ 32"
    and sigs: "distinct (map ot_signature (ob_transactions block))"
    and out: "executed_order C block = Some executed" and ij: "i < j" "j < length executed"
    and f: "check_pair C block (of_nat i, executed ! i) (of_nat j, executed ! j)
      (receipt_index_build C receipts operator) operator identity = Some (Fault f)"
  shows "fault_verify C f (op_key operator) = Inr ()"
proof -
  let ?ix = "receipt_index_build C receipts operator"
  note order = executed_order_reproduces [OF out]
  have len: "unat (of_nat i :: u32) = i" "unat (of_nat j :: u32) = j"
    using ij order(2) short by (auto simp: unat_of_nat take_bit_eq_mod)
  obtain a b where a: "receipt_find ?ix (executed ! i) = Some a" and b: "receipt_find ?ix (executed ! j) = Some b"
    and seq: "\<not> r_seq (s_receipt a) < r_seq (s_receipt b)"
    and f: "f = Reorder (ob_slot block) (ob_previous_blockhash block) (ob_blockhash block)
      (map ot_signature executed)
      \<lparr>rt_receipt = a, rt_wire_bytes = ot_wire_bytes (executed ! i), rt_index = of_nat i\<rparr>
      \<lparr>rt_receipt = b, rt_wire_bytes = ot_wire_bytes (executed ! j), rt_index = of_nat j\<rparr>"
    using f out by (auto simp: check_pair_def Let_def split: if_splits option.splits)
  note ra = binding_find [OF binding a] and rb = binding_find [OF binding b]
  have "set executed = set (ob_transactions block)"
    using order(2) by auto
  then have mem: "executed ! i \<in> set (ob_transactions block)" "executed ! j \<in> set (ob_transactions block)"
    using ij nth_mem [of i executed] nth_mem [of j executed] by auto
  have "distinct (map ot_signature executed)"
    using order(2) sigs by (auto simp flip: rev_map)
  then have "ot_signature (executed ! i) \<noteq> ot_signature (executed ! j)"
    using ij by (auto simp: distinct_conv_nth)
  then have "a \<noteq> b"
    using ra(4) rb(4) by auto
  then have "r_seq (s_receipt a) \<noteq> r_seq (s_receipt b)"
    using binding ra(1) rb(1) unfolding binding_receipts_def by blast
  then have "\<not> r_seq (s_receipt a) \<le> r_seq (s_receipt b)"
    using seq by simp
  moreover have "\<not> (of_nat j :: u32) \<le> of_nat i"
    using ij len by (simp add: word_le_nat_alt)
  ultimately show ?thesis
    using f ra(1-4) rb(1-4) ij len order(1) ra(5) [OF mem(1)] rb(5) [OF mem(2)]
      accepted_same_log [OF ra(2) rb(2)] accepted_signed [OF ra(2)] accepted_signed [OF rb(2)]
    by (simp add: reordered_verify_def at_index_def sits_at_def get_at_def fault_signed_def)
qed

section \<open>Properties\<close>

text \<open>
  The order of a block is the operator's: if a block's hash was folded over a sequence of
  64-byte signatures and the node reports its transactions forwards or backwards, the watchtower
  recovers exactly that sequence, or two inputs of Blake3 collide; and whatever it recovers
  reproduces the hash.
\<close>
theorem executed_order_recovered:
  assumes "ob_blockhash block = fold_hash C (ob_previous_blockhash block) (map ot_signature txns)"
    and "ob_transactions block = txns \<or> ob_transactions block = rev txns"
    and "\<forall>t \<in> set txns. length (ot_signature t) = 64"
  shows "(\<exists>out. executed_order C block = Some out \<and> map ot_signature out = map ot_signature txns) \<or>
    (\<exists>x y. collision (blake3 C) x y)"
proof -
  have "order_derive C block \<noteq> Unverifiable"
    using assms(1,2) by (auto simp: order_derive_def Let_def rev_map)
  then obtain out where out: "executed_order C block = Some out"
    by (cases "order_derive C block") (auto simp: executed_order_def)
  have "set out = set txns"
    using executed_order_reproduces(2) [OF out] assms(2) by auto
  then have len: "\<forall>s \<in> set (map ot_signature out). length s = 64" "\<forall>s \<in> set (map ot_signature txns). length s = 64"
    using assms(3) by auto
  have same: "blake3 C (ob_previous_blockhash block @ concat (map ot_signature out)) =
      blake3 C (ob_previous_blockhash block @ concat (map ot_signature txns))"
    using executed_order_reproduces(1) [OF out] assms(1) by (simp add: fold_hash_concat)
  show ?thesis
  proof (cases "concat (map ot_signature out) = concat (map ot_signature txns)")
    case True
    then have "map ot_signature out = map ot_signature txns"
      by (intro concat_inj_length [OF len]) simp_all
    with out show ?thesis
      by blast
  next
    case False
    with same have "collision (blake3 C) (ob_previous_blockhash block @ concat (map ot_signature out))
        (ob_previous_blockhash block @ concat (map ot_signature txns))"
      by (simp add: collision_def)
    then show ?thesis
      by blast
  qed
qed

text \<open>
  C20. The scan of a block never panics, whatever receipts and block it is given, and for plain receipts
  its accusations about order and withdrawal can be reproduced: if every receipt of the operator binds
  the transaction it names, positions are not shared, a withdrawal comes after what it withdraws, and the
  block names no signature twice and fewer than 2^32, then each of its faults is a reordering or the
  execution of a withdrawn receipt that re-derives from its evidence, or the absence of a receipt, of
  which nothing can be re-derived.
\<close>
theorem block_accusations_reproducible:
  "\<exists>s. scan_block C block (receipt_index_build C receipts operator) operator identity = Some s \<and>
    (binding_receipts C block receipts \<and> length (ob_transactions block) < 2 ^ 32 \<and>
     distinct (map ot_signature (ob_transactions block)) \<longrightarrow>
     (\<forall>f \<in> set (sc_faults s).
        case f of
          Unticketed slot index signature wire \<Rightarrow>
            \<exists>t \<in> set (ob_transactions block). ot_signature t = signature \<and> receipt_find (receipt_index_build C receipts operator) t = None
        | Reorder slot previous blockhash executed jumped delayed \<Rightarrow> fault_verify C f (op_key operator) = Inr ()
        | WithdrawnButExecuted receipt withdrawal execution previous blockhash executed \<Rightarrow>
            fault_verify C f (op_key operator) = Inr ()
        | _ \<Rightarrow> False))"
proof -
  let ?ix = "receipt_index_build C receipts operator"
  obtain s where s: "scan_block C block ?ix operator identity = Some s"
    and faults: "\<forall>f \<in> set (sc_faults s). \<exists>executed. executed_order C block = Some executed \<and>
      ((\<exists>i < length executed.
          f \<in> set (faults_of (check_ticket_is_live C block (of_nat i) (executed ! i) executed ?ix))) \<or>
       (\<exists>i j. i < j \<and> j < length executed \<and>
          check_pair C block (of_nat i, executed ! i) (of_nat j, executed ! j) ?ix operator identity =
            Some (Fault f)))"
    using scan_block_run [of C block ?ix operator identity] by (elim exE conjE)
  have "case f of
      Unticketed slot index signature wire \<Rightarrow>
        \<exists>t \<in> set (ob_transactions block). ot_signature t = signature \<and> receipt_find ?ix t = None
    | Reorder slot previous blockhash executed jumped delayed \<Rightarrow> fault_verify C f (op_key operator) = Inr ()
    | WithdrawnButExecuted receipt withdrawal execution previous blockhash executed \<Rightarrow>
        fault_verify C f (op_key operator) = Inr ()
    | _ \<Rightarrow> False"
    if bound: "binding_receipts C block receipts" "length (ob_transactions block) < 2 ^ 32"
      "distinct (map ot_signature (ob_transactions block))" and f: "f \<in> set (sc_faults s)" for f
    using bspec [OF faults f]
  proof (elim exE conjE disjE, goal_cases)
    case (1 executed i)
    have "set executed = set (ob_transactions block)"
      using executed_order_reproduces(2) [OF 1(1)] by auto
    with nth_mem [OF 1(2)] have "executed ! i \<in> set (ob_transactions block)"
      by simp
    with 1 ticket_fault_verifies [OF bound(1,2) 1] show ?case
      by (auto simp: check_ticket_is_live_def split: option.splits)
  next
    case (2 executed i j)
    with pair_fault_verifies [OF bound 2] show ?case
      by (auto simp: check_pair_def split: option.splits if_splits)
  qed
  with s show ?thesis
    by blast
qed

text \<open>
  C33. An accusation about a transaction that was given its position blind never verifies: a
  \<open>COMMIT\<close> receipt carries no signature, and the check compares the zero signature with the one in
  the block. The scan finds such receipts by their content hash and raises the faults all the same.
\<close>
theorem commit_accusations_never_verify:
  assumes "ZERO_SIG \<notin> set executed"
  shows "(r_mode (s_receipt (rt_receipt jumped)) = Commit \<or> r_mode (s_receipt (rt_receipt delayed)) = Commit \<longrightarrow>
      is_err (fault_verify C (Reorder slot previous blockhash executed jumped delayed) key)) \<and>
    (r_mode (s_receipt receipt) = Commit \<longrightarrow>
      is_err (fault_verify C (WithdrawnButExecuted receipt withdrawal execution previous blockhash executed) key))"
proof -
  have zero: "r_tx_sig (s_receipt r) = ZERO_SIG" if "verify C r key = Inr ()" "r_mode (s_receipt r) = Commit" for r
    using that by (auto simp: verify_Inr validate_def split: if_splits)
  have "executed ! i \<noteq> ZERO_SIG" if "i < length executed" for i
    using assms that nth_mem by metis
  then have away: "sits_at executed n ZERO_SIG = Inl NotAtClaimedIndex" for n
    by (simp add: sits_at_def get_at_def)
  show ?thesis
  proof (intro conjI impI, goal_cases)
    case 1
    show ?case
    proof (rule ccontr)
      assume "\<not> is_err (fault_verify C (Reorder slot previous blockhash executed jumped delayed) key)"
      then have "fault_verify C (Reorder slot previous blockhash executed jumped delayed) key = Inr ()"
        by (auto simp: not_is_err_iff)
      with 1 zero away show False
        by (auto simp: reordered_verify_def at_index_def result_simps split: if_splits)
    qed
  next
    case 2
    show ?case
    proof (rule ccontr)
      assume "\<not> is_err (fault_verify C (WithdrawnButExecuted receipt withdrawal execution previous blockhash executed) key)"
      then have "fault_verify C (WithdrawnButExecuted receipt withdrawal execution previous blockhash executed) key = Inr ()"
        by (auto simp: not_is_err_iff)
      with 2 zero away show False
        by (auto simp: fault_signed_def result_simps split: if_splits)
    qed
  qed
qed

end
