(* ===== verification/Demo_Watch.thy ===== *)
theory Demo_Watch
  imports Block_Accusations
begin

text \<open>
  A small node under watch, on which the properties of the watchtower are shown to apply: an operator
  that signs two statements about its first position, and a block of two conflicting transactions
  executed against the order of their receipts.
\<close>

definition watched :: operator where
  "watched = \<lparr>op_key = verifying_key demo_crypto [1], op_log_id = replicate 32 0x9c\<rparr>"

definition demo_signed :: "receipt \<Rightarrow> signed_receipt" where
  "demo_signed r = \<lparr>s_receipt = r, s_signature = ed_sign demo_crypto [1] (receipt_to_bytes r)\<rparr>"

definition demo_wire :: "u8 \<Rightarrow> bytes" where
  "demo_wire tag = [1, tag]"

definition demo_bound :: "u64 \<Rightarrow> u8 \<Rightarrow> receipt" where
  "demo_bound n tag = demo_receipt n tag\<lparr>r_tx_hash := tx_hash_of demo_crypto (demo_wire tag)\<rparr>"

definition demo_txn :: "u8 \<Rightarrow> observed_transaction" where
  "demo_txn tag =
     \<lparr>ot_signature = replicate 64 tag, ot_tx_hash = tx_hash_of demo_crypto (demo_wire tag),
      ot_fee_payer = replicate 32 tag, ot_writable = [replicate 32 77], ot_readonly = [],
      ot_wire_bytes = demo_wire tag\<rparr>"

definition demo_block :: "observed_transaction list \<Rightarrow> observed_block" where
  "demo_block txns =
     \<lparr>ob_slot = 1001, ob_previous_blockhash = replicate 32 5,
      ob_blockhash = fold_hash demo_crypto (replicate 32 5) (map ot_signature txns), ob_transactions = txns\<rparr>"

lemma demo_signed_verifies:
  assumes "validate r = Inr ()"
  shows "verify demo_crypto (demo_signed r) (op_key watched) = Inr ()"
  using assms by (auto simp: verify_Inr message_def demo_signed_def watched_def demo_crypto_def)

lemma demo_signed_simps [simp]:
  "s_receipt (demo_signed r) = r" "demo_signed r = demo_signed r' \<longleftrightarrow> r = r'"
  by (auto simp: demo_signed_def)

lemma demo_accepts:
  assumes "validate r = Inr ()" and "r_log_id r = replicate 32 0x9c"
  shows "accepts demo_crypto watched (demo_signed r) = Inr ()"
  using demo_signed_verifies [OF assms(1)] assms(2) by (simp add: accepts_def watched_def)

lemma demo_bound_simps [simp]:
  "r_seq (demo_bound n tag) = n" "r_mode (demo_bound n tag) = Plain" "r_tx_sig (demo_bound n tag) = replicate 64 tag"
  "r_tx_hash (demo_bound n tag) = tx_hash_of demo_crypto (demo_wire tag)"
  "r_log_id (demo_bound n tag) = replicate 32 0x9c"
  by (simp_all add: demo_bound_def demo_receipt_def)

lemma demo_bound_origin [simp]: "r_prev_receipt_hash (demo_bound n tag) = GENESIS_PREV_HASH"
  by (simp add: demo_bound_def demo_receipt_def GENESIS_PREV_HASH_def ZERO_HASH_def)

lemma demo_bound_accepts [simp]:
  "tag \<noteq> 0 \<Longrightarrow> accepts demo_crypto watched (demo_signed (demo_bound n tag)) = Inr ()"
  by (rule demo_accepts) (simp_all add: validate_def demo_bound_def demo_receipt_def ZERO_SIG_def)

section \<open>Witnesses\<close>

theorem accusations_reproducible_witness:
  "\<exists>f. f \<in> set (sc_faults (scan_receipts demo_crypto
      [demo_signed (demo_bound 0 2), demo_signed (demo_bound 0 3)] watched)) \<and>
    fault_verify demo_crypto f (op_key watched) = Inr () \<and>
    Absent (demo_signed (demo_bound 0 2)) 5000 4000 \<in> set (sc_faults (scan_withholding demo_crypto
      [demo_signed (demo_bound 0 2)] execution_index_new (blockhash_slots_new 1) 5000 patience_default watched))"
proof -
  let ?a = "demo_signed (demo_bound 0 2)" and ?b = "demo_signed (demo_bound 0 3)"
  have "?a \<noteq> ?b"
    by (simp add: demo_bound_def demo_receipt_def)
  then have "Equivocation 0 ?a ?b \<in> set (sc_faults (scan_receipts demo_crypto [?a, ?b] watched))"
    by (simp add: scan_receipts_def check_belongs_here_def scan_new_def check_one_statement_per_sequence_def
        check_origin_def check_link_def Let_def)
  moreover have "delivery_fault demo_crypto watched [?a] execution_index_new (blockhash_slots_new 1) 5000 patience_default
      (Absent ?a 5000 4000)"
    by (simp add: promised_def taken_back_def patience_default_def execution_find_def execution_index_new_def)
      (simp add: demo_bound_def demo_receipt_def)
  ultimately show ?thesis
    using accusations_reproducible [of _ demo_crypto "[?a, ?b]" watched]
      accusations_reproducible [of _ demo_crypto "[?a]" watched] by blast
qed

theorem honest_log_not_accused_witness:
  "accepts demo_crypto watched (demo_signed (demo_bound 0 2)) = Inr () \<and>
   sc_faults (scan_receipts demo_crypto [demo_signed (demo_bound 0 2), demo_signed (demo_bound 0 2)] watched) = []"
  using honest_log_not_accused [of "[demo_signed (demo_bound 0 2)]" demo_crypto
      "[demo_signed (demo_bound 0 2), demo_signed (demo_bound 0 2)]" watched]
  by simp

theorem executed_order_recovered_witness:
  "(\<exists>out. executed_order demo_crypto ((demo_block [demo_txn 2, demo_txn 3])\<lparr>ob_transactions := [demo_txn 3, demo_txn 2]\<rparr>)
      = Some out \<and> map ot_signature out = map ot_signature [demo_txn 2, demo_txn 3]) \<or>
    (\<exists>x y. collision (blake3 demo_crypto) x y)"
  by (rule executed_order_recovered) (simp_all add: demo_block_def demo_txn_def)

lemma demo_binding:
  "binding_receipts demo_crypto (demo_block [demo_txn 2, demo_txn 3])
     [demo_signed (demo_bound 0 3), demo_signed (demo_bound 1 2)]"
  by (auto simp: binding_receipts_def demo_block_def demo_txn_def)

theorem block_accusations_reproducible_witness:
  "\<exists>s f. scan_block demo_crypto (demo_block [demo_txn 2, demo_txn 3])
      (receipt_index_build demo_crypto [demo_signed (demo_bound 0 3), demo_signed (demo_bound 1 2)] watched)
      watched (replicate 32 9) = Some s \<and> f \<in> set (sc_faults s) \<and>
    fault_verify demo_crypto f (op_key watched) = Inr ()"
proof -
  let ?block = "demo_block [demo_txn 2, demo_txn 3]"
  let ?rs = "[demo_signed (demo_bound 0 3), demo_signed (demo_bound 1 2)]"
  have "executed_order demo_crypto ?block = Some [demo_txn 2, demo_txn 3]"
    by (simp add: executed_order_def order_derive_def demo_block_def)
  then obtain s slot previous blockhash order jumped delayed where
    s: "scan_block demo_crypto ?block (receipt_index_build demo_crypto ?rs watched) watched (replicate 32 9) = Some s"
      "Reorder slot previous blockhash order jumped delayed \<in> set (sc_faults s)"
    by (simp add: scan_block_def enumerate_eq_zip check_pair_def conflicts_def touches_def receipt_index_build_def
        receipt_find_def withdrawals_build_def receipt_withdrawal_def withdrawals_of_def check_ticket_is_live_def
        demo_txn_def is_issued_by_def scan_new_def Let_def)
  have "length (ob_transactions ?block) < 2 ^ 32 \<and> distinct (map ot_signature (ob_transactions ?block))"
    by (simp add: demo_block_def demo_txn_def)
  with demo_binding block_accusations_reproducible [of demo_crypto ?block ?rs watched "replicate 32 9"] s(1)
  have all: "\<forall>f \<in> set (sc_faults s).
      case f of
        Unticketed slot index signature wire \<Rightarrow>
          \<exists>t \<in> set (ob_transactions ?block). ot_signature t = signature \<and>
            receipt_find (receipt_index_build demo_crypto ?rs watched) t = None
      | Reorder slot previous blockhash executed jumped delayed \<Rightarrow> fault_verify demo_crypto f (op_key watched) = Inr ()
      | WithdrawnButExecuted receipt withdrawal execution previous blockhash executed \<Rightarrow>
          fault_verify demo_crypto f (op_key watched) = Inr ()
      | _ \<Rightarrow> False"
    by (elim exE conjE) (simp only: option.inject simp_thms)
  from bspec [OF all s(2)] s show ?thesis
    by auto
qed

theorem commit_accusations_never_verify_witness:
  "is_err (fault_verify demo_crypto (WithdrawnButExecuted
     (demo_signed (demo_bound 0 2\<lparr>r_mode := Commit\<rparr>)) (demo_signed (demo_bound 1 2)) \<lparr>ex_slot = 0, ex_index = 0\<rparr>
     [] [] [replicate 64 2]) (op_key watched))"
proof -
  have "ZERO_SIG \<notin> set [replicate 64 (2 :: u8)]"
    by (simp add: ZERO_SIG_def)
  then show ?thesis
    by (rule commit_accusations_never_verify [THEN conjunct2, THEN mp]) simp
qed

end
