(* ===== verification/Block_Reports.thy ===== *)
theory Block_Reports
  imports Demo_Watch
begin

text \<open>
  What the scan of a block always reports: every transaction without a receipt among the entries it
  was given, and every pair of conflicting transactions that ran against the order of their receipts.
\<close>

section \<open>Faults are kept\<close>

lemma scan_tickets_faults:
  "set (sc_faults (scan_tickets C block executed receipts numbered s)) =
     set (sc_faults s) \<union>
     (\<Union>p \<in> set numbered. set (faults_of (check_ticket_is_live C block (of_nat (fst p)) (snd p) executed receipts)))"
  by (induction C block executed receipts numbered s rule: scan_tickets.induct) auto

definition scan_within :: "scan \<Rightarrow> scan \<Rightarrow> bool" where
  "scan_within s s' \<longleftrightarrow> set (sc_faults s) \<subseteq> set (sc_faults s') \<and> set (sc_undetermined s) \<subseteq> set (sc_undetermined s')"

lemma scan_within_trans: "scan_within s t \<Longrightarrow> scan_within t u \<Longrightarrow> scan_within s u"
  by (auto simp: scan_within_def)

lemma scan_within_record: "scan_within s (scan_record v s)"
  by (cases v) (auto simp: scan_within_def)

fun recorded :: "verdict \<Rightarrow> scan \<Rightarrow> bool" where
  "recorded (Fault f) s \<longleftrightarrow> f \<in> set (sc_faults s)"
| "recorded (CannotDetermine reason) s \<longleftrightarrow> reason \<in> set (sc_undetermined s)"
| "recorded Clean s \<longleftrightarrow> True"

lemma recorded_within: "scan_within (scan_record v s) s' \<Longrightarrow> recorded v s'"
  "recorded v s \<Longrightarrow> scan_within s s' \<Longrightarrow> recorded v s'"
  by (cases v; auto simp: scan_within_def)+

lemma scan_later_keeps:
  "scan_later C block receipts operator identity at_first rest s = Some s' \<Longrightarrow> scan_within s s'"
proof (induction rest arbitrary: s)
  case (Cons c rest)
  then show ?case
    by (cases c) (auto split: option.splits intro: scan_within_trans [OF scan_within_record])
qed (simp add: scan_within_def)

lemma scan_later_finds:
  "scan_later C block receipts operator identity at_first rest s = Some s' \<Longrightarrow> b \<in> set rest \<Longrightarrow>
   check_pair C block (of_nat (fst at_first), snd at_first) (of_nat (fst b), snd b) receipts operator identity = Some v \<Longrightarrow>
   recorded v s'"
proof (induction rest arbitrary: s)
  case (Cons c rest)
  show ?case
  proof (cases "b = c")
    case True
    then have "scan_later C block receipts operator identity at_first rest (scan_record v s) = Some s'"
      using Cons.prems by (cases c) simp
    then show ?thesis
      by (rule recorded_within(1) [OF scan_later_keeps])
  next
    case False
    with Cons show ?thesis
      by (cases c) (auto split: option.splits)
  qed
qed simp

lemma scan_pairs_keeps:
  "scan_pairs C block receipts operator identity numbered s = Some s' \<Longrightarrow> scan_within s s'"
proof (induction numbered arbitrary: s)
  case (Cons a rest)
  then obtain t where "scan_later C block receipts operator identity a rest s = Some t"
    "scan_pairs C block receipts operator identity rest t = Some s'"
    by (auto split: option.splits)
  with Cons.IH scan_later_keeps scan_within_trans show ?case
    by blast
qed (simp add: scan_within_def)

lemma scan_pairs_finds:
  "scan_pairs C block receipts operator identity numbered s = Some s' \<Longrightarrow> i < j \<Longrightarrow> j < length numbered \<Longrightarrow>
   check_pair C block (of_nat (fst (numbered ! i)), snd (numbered ! i)) (of_nat (fst (numbered ! j)), snd (numbered ! j))
     receipts operator identity = Some v \<Longrightarrow>
   recorded v s'"
proof (induction numbered arbitrary: s i j)
  case (Cons a rest)
  obtain t where t: "scan_later C block receipts operator identity a rest s = Some t"
    "scan_pairs C block receipts operator identity rest t = Some s'"
    using Cons.prems(1) by (auto split: option.splits)
  obtain j' where j: "j = Suc j'"
    using Cons.prems(2) by (cases j) simp_all
  show ?case
  proof (cases i)
    case 0
    then have "recorded v t"
      using Cons.prems(3,4) j by (intro scan_later_finds [OF t(1), of "rest ! j'"]) simp_all
    then show ?thesis
      by (rule recorded_within(2) [OF _ scan_pairs_keeps [OF t(2)]])
  next
    case (Suc i')
    with Cons.prems(2-4) j Cons.IH [OF t(2), of i' j'] show ?thesis
      by simp
  qed
qed simp

lemma scan_block_parts:
  assumes "executed_order C block = Some executed"
  obtains s where "scan_block C block receipts operator identity = Some s"
    "scan_pairs C block receipts operator identity (enumerate 0 executed)
       (scan_tickets C block executed receipts (enumerate 0 executed) scan_new) = Some s"
  using scan_block_run [of C block receipts operator identity] assms by (auto simp: scan_block_def Let_def)

lemma scan_block_fault:
  assumes "executed_order C block = Some executed" "scan_block C block receipts operator identity = Some s" "f \<in> set (sc_faults s)"
  shows "\<exists>k j. k < length executed \<and>
    (f \<in> set (faults_of (check_ticket_is_live C block (of_nat k) (executed ! k) executed receipts)) \<or>
     check_pair C block (of_nat k, executed ! k) (of_nat j, executed ! j) receipts operator identity = Some (Fault f))"
proof -
  obtain s' where "scan_block C block receipts operator identity = Some s'"
    and all: "\<forall>f \<in> set (sc_faults s'). \<exists>executed. executed_order C block = Some executed \<and>
      ((\<exists>i < length executed.
          f \<in> set (faults_of (check_ticket_is_live C block (of_nat i) (executed ! i) executed receipts))) \<or>
       (\<exists>i j. i < j \<and> j < length executed \<and>
          check_pair C block (of_nat i, executed ! i) (of_nat j, executed ! j) receipts operator identity = Some (Fault f)))"
    using scan_block_run [of C block receipts operator identity] by (elim exE conjE)
  with assms(2) have "s' = s"
    by simp
  from bspec [OF all [unfolded this] assms(3)] obtain executed' where e: "executed_order C block = Some executed'"
    and "(\<exists>i < length executed'.
          f \<in> set (faults_of (check_ticket_is_live C block (of_nat i) (executed' ! i) executed' receipts))) \<or>
       (\<exists>i j. i < j \<and> j < length executed' \<and>
          check_pair C block (of_nat i, executed' ! i) (of_nat j, executed' ! j) receipts operator identity = Some (Fault f))"
    by (elim exE conjE)
  moreover have same: "executed' = executed"
    using e assms(1) by simp
  ultimately show ?thesis
  proof (elim disjE exE conjE, goal_cases)
    case (1 i)
    then show ?case
      unfolding same by blast
  next
    case (2 i j)
    then have "i < length executed"
      using same by simp
    with 2 show ?case
      unfolding same by blast
  qed
qed

lemma receipt_index_insert_finds:
  "(\<exists>r \<in> set receipts. accepted C operator r \<and> r_mode (s_receipt r) = Plain \<and> r_tx_sig (s_receipt r) = k) \<or>
     ri_by_signature ix k \<noteq> None \<Longrightarrow>
   ri_by_signature (receipt_index_insert C operator receipts ix) k \<noteq> None"
  "(\<exists>r \<in> set receipts. accepted C operator r \<and> r_mode (s_receipt r) = Commit \<and> r_tx_hash (s_receipt r) = k) \<or>
     ri_by_hash ix k \<noteq> None \<Longrightarrow>
   ri_by_hash (receipt_index_insert C operator receipts ix) k \<noteq> None"
  by (induction receipts arbitrary: ix) (fastforce split: mode.splits)+

lemma receipt_find_None_iff:
  "receipt_find (receipt_index_build C receipts operator) txn = None \<longleftrightarrow>
    \<not> (\<exists>r \<in> set receipts. accepted C operator r \<and>
      (r_mode (s_receipt r) = Plain \<and> r_tx_sig (s_receipt r) = ot_signature txn \<or>
       r_mode (s_receipt r) = Commit \<and> r_tx_hash (s_receipt r) = ot_tx_hash txn))" (is "?none \<longleftrightarrow> \<not> ?there")
proof
  let ?ix = "\<lparr>ri_by_signature = Map.empty, ri_by_hash = Map.empty, ri_withdrawn = withdrawals_build C receipts operator\<rparr>"
  assume ?none
  then have none: "ri_by_signature (receipt_index_insert C operator receipts ?ix) (ot_signature txn) = None"
    "ri_by_hash (receipt_index_insert C operator receipts ?ix) (ot_tx_hash txn) = None"
    unfolding receipt_find_def receipt_index_build_def by (auto split: option.splits)
  show "\<not> ?there"
    using receipt_index_insert_finds(1) [OF disjI1, of receipts C operator "ot_signature txn" ?ix]
      receipt_index_insert_finds(2) [OF disjI1, of receipts C operator "ot_tx_hash txn" ?ix] none by blast
next
  show ?none if "\<not> ?there"
  proof (cases "receipt_find (receipt_index_build C receipts operator) txn")
    case (Some r)
    with receipt_find_Some [OF Some] that show ?thesis
      by blast
  qed
qed

section \<open>Properties\<close>

lemma pair_in_scan:
  assumes "executed_order C block = Some executed" and "i < j" and "j < length executed"
    and "check_pair C block (of_nat i, executed ! i) (of_nat j, executed ! j) receipts operator identity = Some v"
  shows "\<exists>s. scan_block C block receipts operator identity = Some s \<and> recorded v s"
proof -
  obtain s where s: "scan_block C block receipts operator identity = Some s"
    and pairs: "scan_pairs C block receipts operator identity (enumerate 0 executed)
       (scan_tickets C block executed receipts (enumerate 0 executed) scan_new) = Some s"
    by (rule scan_block_parts [OF assms(1)])
  have "enumerate 0 executed ! k = (k, executed ! k)" if "k < length executed" for k
    using that by (simp add: nth_enumerate_eq)
  then show ?thesis
    using assms(2-4) s by (intro exI [of _ s] conjI scan_pairs_finds [OF pairs assms(2)]) auto
qed

lemma reorder_in_scan:
  assumes "executed_order C block = Some executed" and "i < j" and "j < length executed"
    and "conflicts (executed ! i) (executed ! j)"
    and "receipt_find receipts (executed ! i) = Some a" and "receipt_find receipts (executed ! j) = Some b"
    and "accepts C operator a = Inr ()" and "accepts C operator b = Inr ()"
    and "receipt_withdrawal C receipts a = None" and "receipt_withdrawal C receipts b = None"
    and "r_seq (s_receipt b) < r_seq (s_receipt a)"
    and "\<not> is_issued_by (executed ! i) identity" and "\<not> is_issued_by (executed ! j) identity"
  shows "\<exists>s. scan_block C block receipts operator identity = Some s \<and>
    Reorder (ob_slot block) (ob_previous_blockhash block) (ob_blockhash block) (map ot_signature executed)
      \<lparr>rt_receipt = a, rt_wire_bytes = ot_wire_bytes (executed ! i), rt_index = of_nat i\<rparr>
      \<lparr>rt_receipt = b, rt_wire_bytes = ot_wire_bytes (executed ! j), rt_index = of_nat j\<rparr> \<in> set (sc_faults s)"
proof -
  have "check_pair C block (of_nat i, executed ! i) (of_nat j, executed ! j) receipts operator identity =
    Some (Fault (Reorder (ob_slot block) (ob_previous_blockhash block) (ob_blockhash block) (map ot_signature executed)
      \<lparr>rt_receipt = a, rt_wire_bytes = ot_wire_bytes (executed ! i), rt_index = of_nat i\<rparr>
      \<lparr>rt_receipt = b, rt_wire_bytes = ot_wire_bytes (executed ! j), rt_index = of_nat j\<rparr>))"
    using assms by (simp add: check_pair_def)
  from pair_in_scan [OF assms(1-3) this] show ?thesis
    by simp
qed

text \<open>
  C21. A reordering of client transactions is always reported, and one that involves the operator's own
  is never passed over: if two conflicting transactions of a block whose order was recovered, with
  receipts that stand and are the operator's, ran in the opposite order of their positions, then the scan
  of the block names the two, their receipts and their places when the operator issued neither, and
  records that it cannot decide about a pair of this block when it issued one of them.
\<close>
theorem reorder_reported:
  assumes "executed_order C block = Some executed" and "i < j" and "j < length executed"
    and "conflicts (executed ! i) (executed ! j)"
    and "receipt_find receipts (executed ! i) = Some a" and "receipt_find receipts (executed ! j) = Some b"
    and "accepts C operator a = Inr ()" and "accepts C operator b = Inr ()"
    and "receipt_withdrawal C receipts a = None" and "receipt_withdrawal C receipts b = None"
    and "r_seq (s_receipt b) < r_seq (s_receipt a)"
  shows "\<exists>s. scan_block C block receipts operator identity = Some s \<and>
    (if is_issued_by (executed ! i) identity \<or> is_issued_by (executed ! j) identity
     then OperatorIssuedPair (ob_slot block) \<in> set (sc_undetermined s)
     else
       Reorder (ob_slot block) (ob_previous_blockhash block) (ob_blockhash block) (map ot_signature executed)
         \<lparr>rt_receipt = a, rt_wire_bytes = ot_wire_bytes (executed ! i), rt_index = of_nat i\<rparr>
         \<lparr>rt_receipt = b, rt_wire_bytes = ot_wire_bytes (executed ! j), rt_index = of_nat j\<rparr> \<in> set (sc_faults s))"
proof (cases "is_issued_by (executed ! i) identity \<or> is_issued_by (executed ! j) identity")
  case True
  with assms have "check_pair C block (of_nat i, executed ! i) (of_nat j, executed ! j) receipts operator identity =
    Some (CannotDetermine (OperatorIssuedPair (ob_slot block)))"
    by (auto simp: check_pair_def)
  from pair_in_scan [OF assms(1-3) this] True show ?thesis
    by auto
next
  case False
  with reorder_in_scan [OF assms] show ?thesis
    by simp
qed

lemma unticketed_in_scan:
  assumes "executed_order C block = Some executed" and "scan_block C block ix operator identity = Some s"
    and "Unticketed slot i signature wire \<in> set (sc_faults s)"
  obtains k where "k < length executed" "of_nat k = i" "receipt_find ix (executed ! k) = None"
proof -
  obtain k j where k: "k < length executed"
    "Unticketed slot i signature wire \<in> set (faults_of (check_ticket_is_live C block (of_nat k) (executed ! k) executed ix)) \<or>
     check_pair C block (of_nat k, executed ! k) (of_nat j, executed ! j) ix operator identity = Some (Fault (Unticketed slot i signature wire))"
    using scan_block_fault [OF assms] by blast
  then have "of_nat k = i" "receipt_find ix (executed ! k) = None"
    by (auto simp: check_ticket_is_live_def check_pair_def split: option.splits if_splits)
  with k(1) show thesis
    by (rule that)
qed

text \<open>
  C40. In a block whose order was recovered, an executed transaction, whoever issued it, is reported as
  unticketed exactly when the entries the watchtower was given hold neither a plain receipt of the
  operator for its signature nor a blind one for its contents. What
  entries it was given decides alone: a receipt beyond the page that was fetched, or issued after
  the page was fetched, does not count.
\<close>
theorem unticketed_iff:
  assumes "executed_order C block = Some executed" and "i < length executed" and "length executed < 2 ^ 32"
  shows "\<exists>s. scan_block C block (receipt_index_build C receipts operator) operator identity = Some s \<and>
    (Unticketed (ob_slot block) (of_nat i) (ot_signature (executed ! i)) (ot_wire_bytes (executed ! i)) \<in> set (sc_faults s) \<longleftrightarrow>
     \<not> (\<exists>r \<in> set receipts. accepts C operator r = Inr () \<and>
        (r_mode (s_receipt r) = Plain \<and> r_tx_sig (s_receipt r) = ot_signature (executed ! i) \<or>
         r_mode (s_receipt r) = Commit \<and> r_tx_hash (s_receipt r) = ot_tx_hash (executed ! i))))"
proof -
  let ?ix = "receipt_index_build C receipts operator"
  let ?f = "Unticketed (ob_slot block) (of_nat i) (ot_signature (executed ! i)) (ot_wire_bytes (executed ! i))"
  obtain s where s: "scan_block C block ?ix operator identity = Some s"
    and pairs: "scan_pairs C block ?ix operator identity (enumerate 0 executed)
       (scan_tickets C block executed ?ix (enumerate 0 executed) scan_new) = Some s"
    by (rule scan_block_parts [OF assms(1)])
  have ok: "accepts C operator r = Inr () \<longleftrightarrow> accepted C operator r" for r
    by (auto simp: accepts_def split: if_splits)
  have "?f \<in> set (sc_faults s) \<longleftrightarrow> receipt_find ?ix (executed ! i) = None"
  proof
    assume "receipt_find ?ix (executed ! i) = None"
    then have "?f \<in> set (faults_of (check_ticket_is_live C block (of_nat i) (executed ! i) executed ?ix))"
      by (simp add: check_ticket_is_live_def)
    then have "?f \<in> set (sc_faults (scan_tickets C block executed ?ix (enumerate 0 executed) scan_new))"
      unfolding scan_tickets_faults
      by (intro UnI2 UN_I [of "(i, executed ! i)"]) (use assms(2) in \<open>simp_all add: in_set_enumerate_eq\<close>)
    then show "?f \<in> set (sc_faults s)"
      using scan_pairs_keeps [OF pairs] by (auto simp: scan_within_def)
  next
    assume f: "?f \<in> set (sc_faults s)"
    obtain k where "k < length executed" "(of_nat k :: u32) = of_nat i" "receipt_find ?ix (executed ! k) = None"
      by (rule unticketed_in_scan [OF assms(1) s f])
    moreover have "unat (of_nat n :: u32) = n" if "n < length executed" for n
      using that assms(3) by (simp add: unat_of_nat take_bit_eq_mod)
    ultimately show "receipt_find ?ix (executed ! i) = None"
      using assms(2) by metis
  qed
  with s show ?thesis
    unfolding receipt_find_None_iff ok by blast
qed

section \<open>Witnesses\<close>

lemma demo_order: "executed_order demo_crypto (demo_block txns) = Some txns"
  by (simp add: executed_order_def order_derive_def demo_block_def)

theorem reorder_reported_witness:
  "\<exists>s t. scan_block demo_crypto (demo_block [demo_txn 2, demo_txn 3])
      (receipt_index_build demo_crypto [demo_signed (demo_bound 0 3), demo_signed (demo_bound 1 2)] watched)
      watched (replicate 32 9) = Some s \<and>
    Reorder 1001 (replicate 32 5) (ob_blockhash (demo_block [demo_txn 2, demo_txn 3]))
      [replicate 64 2, replicate 64 3]
      \<lparr>rt_receipt = demo_signed (demo_bound 1 2), rt_wire_bytes = demo_wire 2, rt_index = 0\<rparr>
      \<lparr>rt_receipt = demo_signed (demo_bound 0 3), rt_wire_bytes = demo_wire 3, rt_index = 1\<rparr> \<in> set (sc_faults s) \<and>
    scan_block demo_crypto (demo_block [demo_txn 2, demo_txn 3])
      (receipt_index_build demo_crypto [demo_signed (demo_bound 0 3), demo_signed (demo_bound 1 2)] watched)
      watched (replicate 32 3) = Some t \<and> OperatorIssuedPair 1001 \<in> set (sc_undetermined t)"
proof -
  let ?ix = "receipt_index_build demo_crypto [demo_signed (demo_bound 0 3), demo_signed (demo_bound 1 2)] watched"
  have find: "receipt_find ?ix (demo_txn 2) = Some (demo_signed (demo_bound 1 2))"
    "receipt_find ?ix (demo_txn 3) = Some (demo_signed (demo_bound 0 3))"
    by (simp_all add: receipt_index_build_def receipt_find_def demo_txn_def)
  have "\<not> is_issued_by (demo_txn 2) (replicate 32 9)" "\<not> is_issued_by (demo_txn 3) (replicate 32 9)"
    "conflicts (demo_txn 2) (demo_txn 3)" "receipt_withdrawal demo_crypto ?ix r = None" for r
    by (simp_all add: is_issued_by_def demo_txn_def conflicts_def touches_def receipt_withdrawal_build
        withdrawals_build_def withdrawals_of_def)
  moreover have "is_issued_by (demo_txn 3) (replicate 32 3)"
    by (simp add: is_issued_by_def demo_txn_def)
  moreover have "ob_slot (demo_block txns) = 1001" "ob_previous_blockhash (demo_block txns) = replicate 32 5"
    "ot_signature (demo_txn tag) = replicate 64 tag" "ot_wire_bytes (demo_txn tag) = demo_wire tag" for txns tag
    by (simp_all add: demo_block_def demo_txn_def)
  ultimately show ?thesis
    using reorder_reported [OF demo_order, of 0 1 "[demo_txn 2, demo_txn 3]" ?ix "demo_signed (demo_bound 1 2)"
      "demo_signed (demo_bound 0 3)" watched "replicate 32 9"]
      reorder_reported [OF demo_order, of 0 1 "[demo_txn 2, demo_txn 3]" ?ix "demo_signed (demo_bound 1 2)"
      "demo_signed (demo_bound 0 3)" watched "replicate 32 3"] find
    by (simp del: replicate_Suc)
qed

theorem unticketed_iff_witness:
  "\<exists>s. scan_block demo_crypto (demo_block [demo_txn 2]) (receipt_index_build demo_crypto [] watched) watched [] = Some s \<and>
    Unticketed 1001 0 (replicate 64 2) (demo_wire 2) \<in> set (sc_faults s)"
  using unticketed_iff [OF demo_order, of 0 "[demo_txn 2]" "[]" watched "[]"]
  by (simp add: demo_block_def demo_txn_def)

end
