(* ===== verification/Ordered_Map.thy ===== *)
theory Ordered_Map
  imports Prelude "HOL-Library.List_Lexorder"
begin

text \<open>
  Ordered maps: the \<open>BTreeMap\<close> of the standard library and the ordered column families of the
  key-value store, both as association lists with strictly ascending keys. Iteration is the list
  itself. The interface clients rely on is the locale \<open>ordered_store\<close>.
\<close>

section \<open>The interface\<close>

locale ordered_store =
  fixes get :: "'m \<Rightarrow> 'k::linorder \<Rightarrow> 'v option"
    and put :: "'k \<Rightarrow> 'v \<Rightarrow> 'm \<Rightarrow> 'm"
    and del :: "'k \<Rightarrow> 'm \<Rightarrow> 'm"
    and entries :: "'m \<Rightarrow> ('k \<times> 'v) list"
    and ok :: "'m \<Rightarrow> bool"
  assumes get_put: "ok m \<Longrightarrow> get (put k v m) j = (if j = k then Some v else get m j)"
    and get_del: "ok m \<Longrightarrow> get (del k m) j = (if j = k then None else get m j)"
    and ok_put: "ok m \<Longrightarrow> ok (put k v m)"
    and ok_del: "ok m \<Longrightarrow> ok (del k m)"
    and entries_iff: "ok m \<Longrightarrow> (k, v) \<in> set (entries m) \<longleftrightarrow> get m k = Some v"
    and entries_ascend: "ok m \<Longrightarrow> sorted_wrt (<) (map fst (entries m))"
begin

lemma entries_put:
  "ok m \<Longrightarrow> (j, w) \<in> set (entries (put k v m)) \<longleftrightarrow> (if j = k then w = v else (j, w) \<in> set (entries m))"
  by (auto simp: entries_iff ok_put get_put)

lemma entries_del: "ok m \<Longrightarrow> (j, w) \<in> set (entries (del k m)) \<longleftrightarrow> j \<noteq> k \<and> (j, w) \<in> set (entries m)"
  by (auto simp: entries_iff ok_del get_del)

lemma entries_unique: "ok m \<Longrightarrow> (k, v) \<in> set (entries m) \<Longrightarrow> (k, w) \<in> set (entries m) \<Longrightarrow> v = w"
  by (simp add: entries_iff)

lemma entries_distinct: "ok m \<Longrightarrow> distinct (map fst (entries m))"
  using entries_ascend strict_sorted_iff by blast

lemma entries_eq:
  assumes "ok m" "ok m'" "\<And>k. get m k = get m' k"
  shows "entries m = entries m'"
proof (rule map_sorted_distinct_set_unique [where f = fst])
  show "set (entries m) = set (entries m')"
    using assms by (auto simp: entries_iff)
  show "inj_on fst (set (entries m) \<union> set (entries m'))"
    using assms by (auto simp: inj_on_def entries_iff)
qed (use assms entries_ascend entries_distinct strict_sorted_imp_sorted in \<open>auto simp: distinct_map\<close>)

end

section \<open>The implementation\<close>

fun bt_insert :: "'k::linorder \<Rightarrow> 'v \<Rightarrow> ('k \<times> 'v) list \<Rightarrow> ('k \<times> 'v) list" where
  "bt_insert k v [] = [(k, v)]"
| "bt_insert k v ((j, w) # m) =
     (if k < j then (k, v) # (j, w) # m
      else if k = j then (k, v) # m
      else (j, w) # bt_insert k v m)"

fun bt_remove :: "'k \<Rightarrow> ('k \<times> 'v) list \<Rightarrow> ('k \<times> 'v) list" where
  "bt_remove k [] = []"
| "bt_remove k ((j, w) # m) = (if k = j then m else (j, w) # bt_remove k m)"

definition bt_ok :: "('k::linorder \<times> 'v) list \<Rightarrow> bool" where
  "bt_ok m \<longleftrightarrow> sorted_wrt (<) (map fst m)"

lemma bt_insert_set: "fst ` set (bt_insert k v m) = insert k (fst ` set m)"
  by (induction k v m rule: bt_insert.induct) auto

lemma bt_remove_set: "fst ` set (bt_remove k m) \<subseteq> fst ` set m"
  by (induction k m rule: bt_remove.induct) auto

lemma bt_ok_insert: "bt_ok m \<Longrightarrow> bt_ok (bt_insert k v m)"
proof (induction k v m rule: bt_insert.induct)
  case (2 k v j w m)
  have "\<forall>x \<in> set (bt_insert k v m). j < fst x" if "\<not> k < j" "k \<noteq> j"
  proof
    fix x
    assume "x \<in> set (bt_insert k v m)"
    then have "fst x \<in> insert k (fst ` set m)"
      using bt_insert_set [of k v m] by blast
    then show "j < fst x"
      using 2(2) that by (auto simp: bt_ok_def)
  qed
  with 2 show ?case
    by (fastforce simp: bt_ok_def)
qed (simp add: bt_ok_def)

lemma bt_ok_remove: "bt_ok m \<Longrightarrow> bt_ok (bt_remove k m)"
proof (induction k m rule: bt_remove.induct)
  case (2 k j w m)
  then show ?case
    using bt_remove_set [of k m] by (fastforce simp: bt_ok_def)
qed simp

lemma map_of_insert: "map_of (bt_insert k v m) = (map_of m)(k \<mapsto> v)"
  if "bt_ok m"
  using that
proof (induction k v m rule: bt_insert.induct)
  case (2 k v j w m)
  then have "\<forall>x \<in> set m. j < fst x" "bt_ok m"
    by (auto simp: bt_ok_def)
  with 2 show ?case
    by (auto simp: fun_eq_iff)
qed simp

lemma map_of_remove: "bt_ok m \<Longrightarrow> map_of (bt_remove k m) = (map_of m)(k := None)"
proof (induction k m rule: bt_remove.induct)
  case (2 k j w m)
  then have "\<forall>x \<in> set m. j < fst x" "bt_ok m"
    by (auto simp: bt_ok_def)
  then have "map_of m j = None"
    by (force simp: map_of_eq_None_iff)
  with 2 \<open>bt_ok m\<close> show ?case
    by (auto simp: fun_eq_iff)
qed simp

interpretation bt: ordered_store map_of bt_insert bt_remove "\<lambda>m. m" bt_ok
proof
  fix m :: "('a \<times> 'b) list" and k v
  assume ok: "bt_ok m"
  then have "distinct (map fst m)"
    using strict_sorted_iff by (auto simp: bt_ok_def)
  then show "(k, v) \<in> set m \<longleftrightarrow> map_of m k = Some v"
    by simp
  show "sorted_wrt (<) (map fst m)"
    using ok by (simp add: bt_ok_def)
qed (simp_all add: map_of_insert map_of_remove bt_ok_insert bt_ok_remove)

lemma bt_ok_Nil [simp]: "bt_ok []"
  by (simp add: bt_ok_def)

end
