(* ===== verification/Receipt_Log.thy ===== *)
theory Receipt_Log
  imports Ordered_Map Receipt
begin

text \<open>
  The receipt log as the node stores it
  (\<open>src/magicblock-validator/magicblock-ledger/src/store/api.rs\<close>): two ordered column families, from
  sequence number to an outcome byte and the signed bytes, and from transaction signature to the
  sequence number. A put or a get may fail; which ones do is the parameter \<open>disk\<close>, and an operation
  returns the store it leaves behind also when it fails.
\<close>

datatype ledger_error = ReceiptCorrupted u64 | TryFromSliceError | StoreError nat

record disk =
  dk_put_seq :: "u64 \<Rightarrow> ledger_error option"
  dk_put_sig :: "bytes \<Rightarrow> ledger_error option"
  dk_get :: "ledger_error option"

definition sound_disk :: disk where
  "sound_disk = \<lparr>dk_put_seq = (\<lambda>_. None), dk_put_sig = (\<lambda>_. None), dk_get = None\<rparr>"

record receipt_store =
  receipt_by_seq :: "(u64 \<times> bytes) list"
  receipt_by_sig :: "(bytes \<times> bytes) list"

definition u64_be :: "u64 \<Rightarrow> bytes" where
  "u64_be x = rev (u64_le x)"

definition u64_of_be :: "bytes \<Rightarrow> u64" where
  "u64_of_be bs = u64_of_le (rev bs)"

definition put_seq :: "disk \<Rightarrow> u64 \<Rightarrow> bytes \<Rightarrow> receipt_store \<Rightarrow> receipt_store \<times> (ledger_error + unit)" where
  "put_seq disk seq entry st =
     (case dk_put_seq disk seq of
        Some error \<Rightarrow> (st, Inl error)
      | None \<Rightarrow> (st\<lparr>receipt_by_seq := bt_insert seq entry (receipt_by_seq st)\<rparr>, Inr ()))"

definition put_sig :: "disk \<Rightarrow> bytes \<Rightarrow> bytes \<Rightarrow> receipt_store \<Rightarrow> receipt_store \<times> (ledger_error + unit)" where
  "put_sig disk signature entry st =
     (case dk_put_sig disk signature of
        Some error \<Rightarrow> (st, Inl error)
      | None \<Rightarrow> (st\<lparr>receipt_by_sig := bt_insert signature entry (receipt_by_sig st)\<rparr>, Inr ()))"

definition write_receipt ::
    "disk \<Rightarrow> u64 \<Rightarrow> bytes option \<Rightarrow> u8 \<Rightarrow> bytes \<Rightarrow> receipt_store \<Rightarrow> receipt_store \<times> (ledger_error + unit)" where
  "write_receipt disk seq signature outcome receipt st =
     (let entry = outcome # receipt in
      case put_seq disk seq entry st of
        (st, Inl error) \<Rightarrow> (st, Inl error)
      | (st, Inr _) \<Rightarrow>
          (case signature of
             Some signature \<Rightarrow> put_sig disk signature (u64_be seq) st
           | None \<Rightarrow> (st, Inr ())))"

definition index_receipt_signature ::
    "disk \<Rightarrow> u64 \<Rightarrow> bytes \<Rightarrow> receipt_store \<Rightarrow> receipt_store \<times> (ledger_error + unit)" where
  "index_receipt_signature disk seq signature st = put_sig disk signature (u64_be seq) st"

definition get_seq :: "disk \<Rightarrow> u64 \<Rightarrow> receipt_store \<Rightarrow> ledger_error + bytes option" where
  "get_seq disk seq st =
     (case dk_get disk of Some error \<Rightarrow> Inl error | None \<Rightarrow> Inr (map_of (receipt_by_seq st) seq))"

definition get_sig :: "disk \<Rightarrow> bytes \<Rightarrow> receipt_store \<Rightarrow> ledger_error + bytes option" where
  "get_sig disk signature st =
     (case dk_get disk of Some error \<Rightarrow> Inl error | None \<Rightarrow> Inr (map_of (receipt_by_sig st) signature))"

definition set_receipt_outcome ::
    "disk \<Rightarrow> u64 \<Rightarrow> u8 \<Rightarrow> receipt_store \<Rightarrow> receipt_store \<times> (ledger_error + bool)" where
  "set_receipt_outcome disk seq outcome st =
     (case get_seq disk seq st of
        Inl error \<Rightarrow> (st, Inl error)
      | Inr None \<Rightarrow> (st, Inr False)
      | Inr (Some entry) \<Rightarrow>
          if entry = [] then (st, Inl (ReceiptCorrupted seq))
          else
            (case put_seq disk seq (entry[0 := outcome]) st of
               (st, Inl error) \<Rightarrow> (st, Inl error)
             | (st, Inr _) \<Rightarrow> (st, Inr True)))"

definition split_receipt :: "u64 \<Rightarrow> bytes \<Rightarrow> ledger_error + u8 \<times> bytes" where
  "split_receipt seq entry =
     (if entry = [] then Inl (ReceiptCorrupted seq) else Inr (entry ! 0, drop 1 entry))"

definition read_receipt :: "disk \<Rightarrow> u64 \<Rightarrow> receipt_store \<Rightarrow> ledger_error + (u8 \<times> bytes) option" where
  "read_receipt disk seq st =
     and_then (get_seq disk seq st) (\<lambda>found.
     case found of
       None \<Rightarrow> Inr None
     | Some entry \<Rightarrow> and_then (split_receipt seq entry) (\<lambda>r. Inr (Some r)))"

definition read_receipt_by_signature ::
    "disk \<Rightarrow> bytes \<Rightarrow> receipt_store \<Rightarrow> ledger_error + (u64 \<times> u8 \<times> bytes) option" where
  "read_receipt_by_signature disk signature st =
     and_then (get_sig disk signature st) (\<lambda>found.
     case found of
       None \<Rightarrow> Inr None
     | Some bs \<Rightarrow>
         if length bs \<noteq> 8 then Inl TryFromSliceError
         else
           (let seq = u64_of_be bs in
            and_then (read_receipt disk seq st) (\<lambda>r.
            Inr (map_option (\<lambda>(outcome, receipt). (seq, outcome, receipt)) r))))"

definition receipt_rows :: "u64 \<Rightarrow> receipt_store \<Rightarrow> (u64 \<times> u8 \<times> bytes) list" where
  "receipt_rows from_seq st =
     List.map_filter
       (\<lambda>(seq, entry). case split_receipt seq entry of Inr (outcome, receipt) \<Rightarrow> Some (seq, outcome, receipt) | Inl _ \<Rightarrow> None)
       (filter (\<lambda>(seq, _). from_seq \<le> seq) (receipt_by_seq st))"

definition iter_receipts :: "disk \<Rightarrow> u64 \<Rightarrow> receipt_store \<Rightarrow> ledger_error + (u64 \<times> u8 \<times> bytes) list" where
  "iter_receipts disk from_seq st =
     (case dk_get disk of Some error \<Rightarrow> Inl error | None \<Rightarrow> Inr (receipt_rows from_seq st))"

definition count_receipts :: "disk \<Rightarrow> receipt_store \<Rightarrow> ledger_error + int" where
  "count_receipts disk st =
     (case dk_get disk of Some error \<Rightarrow> Inl error | None \<Rightarrow> Inr (int (length (receipt_by_seq st))))"

section \<open>Properties of the store\<close>

definition store_ok :: "receipt_store \<Rightarrow> bool" where
  "store_ok st \<longleftrightarrow> bt_ok (receipt_by_seq st) \<and> bt_ok (receipt_by_sig st) \<and>
     (\<forall>v \<in> snd ` set (receipt_by_seq st). v \<noteq> [])"

lemma u64_of_be_u64_be [simp]: "u64_of_be (u64_be x) = x" "length (u64_be x) = 8"
  by (simp_all add: u64_of_be_def u64_be_def)

lemma put_simps:
  "put_seq disk seq entry st = (st', r) \<Longrightarrow> receipt_by_sig st' = receipt_by_sig st"
  "put_sig disk signature bs st = (st', r) \<Longrightarrow> receipt_by_seq st' = receipt_by_seq st"
  by (auto simp: put_seq_def put_sig_def split: option.splits)

lemma put_seq_ok:
  assumes "store_ok st" and "entry \<noteq> []" and "put_seq disk seq entry st = (st', r)"
  shows "store_ok st'"
proof (cases "dk_put_seq disk seq")
  case None
  then have "\<forall>v \<in> snd ` set (receipt_by_seq st'). v \<noteq> []"
    using assms bt.entries_put [of "receipt_by_seq st" _ _ seq entry]
    by (fastforce simp: put_seq_def store_ok_def split: if_splits)
  with None assms show ?thesis
    by (auto simp: put_seq_def store_ok_def bt.ok_put)
qed (use assms in \<open>simp add: put_seq_def\<close>)

lemma put_sig_ok: "store_ok st \<Longrightarrow> put_sig disk signature bs st = (st', r) \<Longrightarrow> store_ok st'"
  by (auto simp: put_sig_def store_ok_def bt.ok_put split: option.splits)

lemma write_receipt_ok:
  assumes "store_ok st" and "write_receipt disk seq signature outcome receipt st = (st', r)"
  shows "store_ok st'"
  using assms put_seq_ok [OF assms(1), of "outcome # receipt" disk seq] put_sig_ok
  by (fastforce simp: write_receipt_def Let_def split: prod.splits sum.splits option.splits)

lemma set_receipt_outcome_ok:
  assumes "store_ok st" and "set_receipt_outcome disk seq outcome st = (st', r)"
  shows "store_ok st'"
  using assms put_seq_ok [OF assms(1), of "_[0 := outcome]" disk seq]
  by (auto simp: set_receipt_outcome_def split: prod.splits sum.splits option.splits if_splits)

lemma write_receipt_Inr:
  assumes "write_receipt disk seq signature outcome receipt st = (st', Inr ())"
  shows "receipt_by_seq st' = bt_insert seq (outcome # receipt) (receipt_by_seq st)"
    and "receipt_by_sig st' = (case signature of None \<Rightarrow> receipt_by_sig st
      | Some s \<Rightarrow> bt_insert s (u64_be seq) (receipt_by_sig st))"
  using assms
  by (auto simp: write_receipt_def put_seq_def put_sig_def Let_def split: option.splits)

text \<open>The page of the log that starts at a sequence number.\<close>

lemma receipt_rows_eq:
  assumes "store_ok st"
  shows "receipt_rows from_seq st =
    map (\<lambda>(seq, entry). (seq, entry ! 0, drop 1 entry)) (filter (\<lambda>(seq, _). from_seq \<le> seq) (receipt_by_seq st))"
proof -
  have "List.map_filter (\<lambda>(seq, entry). case split_receipt seq entry of
      Inr (outcome, receipt) \<Rightarrow> Some (seq, outcome, receipt) | Inl _ \<Rightarrow> None) xs =
      map (\<lambda>(seq, entry). (seq, entry ! 0, drop 1 entry)) xs" if "\<forall>v \<in> snd ` set xs. v \<noteq> []" for xs
    using that by (induction xs) (auto simp: map_filter_simps split_receipt_def)
  then show ?thesis
    using assms by (auto simp: receipt_rows_def store_ok_def)
qed

end
