(* ===== verification/Pending.thy ===== *)
theory Pending
  imports Ordered_Map Watchtower "HOL-Library.Multiset"
begin

text \<open>
  Positions promised blind and not yet filled
  (\<open>src/magicblock-validator/magicblock-receipts/src\<close>: \<open>pending.rs\<close>, \<open>deadline.rs\<close>). The map from content
  hash to position is a \<open>BTreeMap\<close>; its contract towards the receipt writer is stated over plain partial
  maps.
\<close>

section \<open>Deadlines\<close>

record reveal_deadline =
  rd_slots :: u64
  rd_max_outstanding :: nat

definition deadline_default :: reveal_deadline where
  "deadline_default = \<lparr>rd_slots = 150, rd_max_outstanding = 8\<rparr>"

definition deadline_read :: "string option \<Rightarrow> u64 option" where
  "deadline_read var = Option.bind var (\<lambda>raw. parse_u64 (trim raw))"

definition deadline_from_env :: "string option \<Rightarrow> string option \<Rightarrow> reveal_deadline" where
  "deadline_from_env deadline_slots max_outstanding_commits =
     (let fallback = deadline_default in
      \<lparr>rd_slots = (case deadline_read deadline_slots of Some n \<Rightarrow> n | None \<Rightarrow> rd_slots fallback),
       rd_max_outstanding =
         (case map_option unat (deadline_read max_outstanding_commits) of
            Some n \<Rightarrow> n
          | None \<Rightarrow> rd_max_outstanding fallback)\<rparr>)"

section \<open>Pending commitments\<close>

record pending_commit =
  pc_tx_hash :: bytes
  pc_committer :: bytes
  pc_committed_at_slot :: u64

type_synonym pending_commits = "(bytes \<times> u64 \<times> pending_commit) list"

definition pending_record :: "u64 \<Rightarrow> bytes \<Rightarrow> bytes \<Rightarrow> u64 \<Rightarrow> pending_commits \<Rightarrow> pending_commits" where
  "pending_record seq tx_hash committer committed_at_slot by_hash =
     bt_insert tx_hash
       (seq, \<lparr>pc_tx_hash = tx_hash, pc_committer = committer, pc_committed_at_slot = committed_at_slot\<rparr>) by_hash"

definition pending_claim :: "bytes \<Rightarrow> pending_commits \<Rightarrow> (u64 \<times> pending_commit) option \<times> pending_commits" where
  "pending_claim tx_hash by_hash = (map_of by_hash tx_hash, bt_remove tx_hash by_hash)"

fun pending_remove :: "bytes list \<Rightarrow> pending_commits \<Rightarrow> (u64 \<times> pending_commit) list \<times> pending_commits" where
  "pending_remove [] by_hash = ([], by_hash)"
| "pending_remove (hash # stale) by_hash =
     (let (removed, rest) = pending_remove stale (bt_remove hash by_hash)
      in (case map_of by_hash hash of Some commit \<Rightarrow> commit # removed | None \<Rightarrow> removed, rest))"

definition pending_expire :: "u64 \<Rightarrow> pending_commits \<Rightarrow> (u64 \<times> pending_commit) list \<times> pending_commits" where
  "pending_expire cutoff_slot by_hash =
     (let stale = map fst (filter (\<lambda>(_, _, commit). pc_committed_at_slot commit < cutoff_slot) by_hash)
      in pending_remove stale by_hash)"

definition pending_outstanding :: "pending_commits \<Rightarrow> (u64 \<times> pending_commit) list" where
  "pending_outstanding by_hash = map snd by_hash"

definition outstanding_for :: "bytes \<Rightarrow> pending_commits \<Rightarrow> nat" where
  "outstanding_for committer by_hash =
     length (filter (\<lambda>(_, _, commit). pc_committer commit = committer) by_hash)"

section \<open>The contract\<close>

text \<open>
  What the writer relies on. \<open>view\<close> is the set of promises as a map from content hash to position and
  commitment; \<open>ok\<close> is the representation invariant.
\<close>

locale promises =
  fixes rec :: "u64 \<Rightarrow> bytes \<Rightarrow> bytes \<Rightarrow> u64 \<Rightarrow> 'p \<Rightarrow> 'p"
    and claim :: "bytes \<Rightarrow> 'p \<Rightarrow> (u64 \<times> pending_commit) option \<times> 'p"
    and expire :: "u64 \<Rightarrow> 'p \<Rightarrow> (u64 \<times> pending_commit) list \<times> 'p"
    and count :: "bytes \<Rightarrow> 'p \<Rightarrow> nat"
    and view :: "'p \<Rightarrow> bytes \<Rightarrow> (u64 \<times> pending_commit) option"
    and ok :: "'p \<Rightarrow> bool"
  assumes ok_rec: "ok p \<Longrightarrow> ok (rec n h c s p)"
    and ok_claim: "ok p \<Longrightarrow> ok (snd (claim h p))"
    and ok_expire: "ok p \<Longrightarrow> ok (snd (expire s p))"
    and view_rec: "ok p \<Longrightarrow> view (rec n h c s p) = (view p)
      (h \<mapsto> (n, \<lparr>pc_tx_hash = h, pc_committer = c, pc_committed_at_slot = s\<rparr>))"
    and claimed: "fst (claim h p) = view p h"
    and view_claim: "ok p \<Longrightarrow> view (snd (claim h p)) = (view p)(h := None)"
    and expired: "ok p \<Longrightarrow> set (fst (expire s p)) = {e. \<exists>h. view p h = Some e \<and> pc_committed_at_slot (snd e) < s}"
    and view_expire: "ok p \<Longrightarrow> view (snd (expire s p)) h =
      (case view p h of None \<Rightarrow> None | Some e \<Rightarrow> if pc_committed_at_slot (snd e) < s then None else Some e)"
    and counted: "ok p \<Longrightarrow> count c p = card {h. \<exists>e. view p h = Some e \<and> pc_committer (snd e) = c}"
    and finite_view: "ok p \<Longrightarrow> finite (dom (view p))"
begin

lemma finite_held: "ok p \<Longrightarrow> finite {h. \<exists>e. view p h = Some e \<and> P e}"
  by (rule finite_subset [OF _ finite_view]) auto

lemma count_rec:
  assumes "ok p"
  shows "count c (rec n h d s p) \<le> (if c = d then Suc (count c p) else count c p)"
proof -
  let ?held = "\<lambda>p. {h. \<exists>e. view p h = Some e \<and> pc_committer (snd e) = c}"
  have "?held (rec n h d s p) \<subseteq> (if c = d then insert h (?held p) else ?held p)"
    using assms by (auto simp: view_rec split: if_splits)
  then have "card (?held (rec n h d s p)) \<le> card (if c = d then insert h (?held p) else ?held p)"
    by (rule card_mono [rotated]) (use finite_held [OF assms, of "\<lambda>e. pc_committer (snd e) = c"] in auto)
  also have "\<dots> \<le> (if c = d then Suc (card (?held p)) else card (?held p))"
    by (simp add: card_insert_le_m1 finite_held [OF assms] card_insert_if)
  finally show ?thesis
    unfolding counted [OF assms] counted [OF ok_rec [OF assms]] .
qed

lemma count_mono:
  assumes "ok p" "ok q" "view q \<subseteq>\<^sub>m view p"
  shows "count c q \<le> count c p"
  unfolding counted [OF assms(1)] counted [OF assms(2)]
proof (rule card_mono)
  show "{h. \<exists>e. view q h = Some e \<and> pc_committer (snd e) = c} \<subseteq> {h. \<exists>e. view p h = Some e \<and> pc_committer (snd e) = c}"
    using assms(3) by (auto simp: map_le_def dom_def)
qed (rule finite_held [OF assms(1)])

lemma count_claim: "ok p \<Longrightarrow> count c (snd (claim h p)) \<le> count c p"
  by (rule count_mono) (auto simp: ok_claim view_claim map_le_def split: if_splits)

lemma count_expire: "ok p \<Longrightarrow> count c (snd (expire s p)) \<le> count c p"
  by (rule count_mono) (auto simp: ok_expire view_expire map_le_def split: option.splits if_splits)

end

section \<open>The implementation keeps it\<close>

lemma pending_remove_rest: "bt_ok p \<Longrightarrow> bt_ok (snd (pending_remove hs p)) \<and>
    map_of (snd (pending_remove hs p)) = (map_of p) |` (- set hs)"
proof (induction hs arbitrary: p)
  case (Cons h hs)
  then have "map_of (snd (pending_remove hs (bt_remove h p))) = (map_of p)(h := None) |` (- set hs)"
    by (simp only: bt.ok_del map_of_remove)
  also have "\<dots> = map_of p |` (- set (h # hs))"
    by (auto simp: fun_eq_iff restrict_map_def)
  finally show ?case
    using Cons by (simp add: case_prod_beta bt.ok_del)
qed (simp add: restrict_map_def)

lemma pending_remove_removed:
  "bt_ok p \<Longrightarrow> distinct hs \<Longrightarrow> fst (pending_remove hs p) = List.map_filter (map_of p) hs"
proof (induction hs arbitrary: p)
  case (Cons h hs)
  have "List.map_filter ((map_of p)(h := None)) hs = List.map_filter (map_of p) hs"
    using Cons.prems(2) by (induction hs) (auto simp: map_filter_simps split: option.splits)
  with Cons show ?case
    by (auto simp: case_prod_beta bt.ok_del map_of_remove map_filter_simps split: option.splits)
qed (simp add: map_filter_simps)

lemma pending_expire_removed:
  assumes "bt_ok p"
  shows "fst (pending_expire s p) = map snd (filter (\<lambda>(_, _, commit). pc_committed_at_slot commit < s) p)"
proof -
  have "List.map_filter (map_of p) (map fst xs) = map snd xs" if "set xs \<subseteq> set p" for xs
    using that
  proof (induction xs)
    case (Cons e xs)
    then have "map_of p (fst e) = Some (snd e)"
      using bt.entries_iff [OF assms, of "fst e" "snd e"] by simp
    with Cons show ?case
      by (simp add: map_filter_simps)
  qed (simp add: map_filter_simps)
  moreover have "distinct (map fst (filter P p))" for P
    using bt.entries_distinct [OF assms] by (rule distinct_map_filter)
  ultimately show ?thesis
    using assms by (simp add: pending_expire_def pending_remove_removed)
qed

lemma pending_expire_view:
  assumes "bt_ok p"
  shows "map_of (snd (pending_expire s p)) h =
    (case map_of p h of None \<Rightarrow> None | Some e \<Rightarrow> if pc_committed_at_slot (snd e) < s then None else Some e)"
proof -
  have "h \<in> fst ` set (filter (\<lambda>(_, _, commit). pc_committed_at_slot commit < s) p) \<longleftrightarrow>
      (\<exists>e. map_of p h = Some e \<and> pc_committed_at_slot (snd e) < s)"
    using bt.entries_iff [OF assms, of h] by (force simp: image_iff case_prod_beta)
  with assms show ?thesis
    by (auto simp: pending_expire_def pending_remove_rest restrict_map_def split: option.splits)
qed

lemma outstanding_for_card:
  assumes "bt_ok p"
  shows "outstanding_for c p = card {h. \<exists>e. map_of p h = Some e \<and> pc_committer (snd e) = c}"
proof -
  have "{h. \<exists>e. map_of p h = Some e \<and> pc_committer (snd e) = c} =
      set (map fst (filter (\<lambda>(_, _, commit). pc_committer commit = c) p))"
    using bt.entries_iff [OF assms] by (force simp: image_iff case_prod_beta)
  moreover have "distinct (map fst (filter (\<lambda>(_, _, commit). pc_committer commit = c) p))"
    using bt.entries_distinct [OF assms] by (rule distinct_map_filter)
  ultimately show ?thesis
    by (simp add: outstanding_for_def distinct_card del: set_map set_filter)
qed

interpretation pend: promises pending_record pending_claim pending_expire outstanding_for map_of bt_ok
proof
  fix p :: pending_commits and n h c s
  assume ok: "bt_ok p"
  show "bt_ok (pending_record n h c s p)"
    by (simp add: pending_record_def bt.ok_put ok)
  show "bt_ok (snd (pending_claim h p))"
    by (simp add: pending_claim_def bt.ok_del ok)
  show "bt_ok (snd (pending_expire s p))"
    by (simp add: pending_expire_def pending_remove_rest ok)
  show "map_of (pending_record n h c s p) = (map_of p)
      (h \<mapsto> (n, \<lparr>pc_tx_hash = h, pc_committer = c, pc_committed_at_slot = s\<rparr>))"
    by (simp add: pending_record_def map_of_insert ok)
  show "map_of (snd (pending_claim h p)) = (map_of p)(h := None)"
    by (simp add: pending_claim_def map_of_remove ok)
  show "set (fst (pending_expire s p)) = {e. \<exists>h. map_of p h = Some e \<and> pc_committed_at_slot (snd e) < s}"
    using bt.entries_iff [OF ok] by (force simp: pending_expire_removed ok)
qed (simp_all add: pending_claim_def pending_expire_view outstanding_for_card finite_dom_map_of)

text \<open>
  C27. The promises kept in a tree refine a plain map from content hash to promise: recording,
  claiming and expiring act on it as update, deletion and restriction, claiming answers with the
  promise that was there, expiring returns each promise older than the cutoff exactly once, and
  the count a committer is limited by is the number of contents promised to it.
\<close>
theorem pending_refines_map:
  assumes "bt_ok p"
  shows "map_of (pending_record n h c s p) =
      (map_of p)(h \<mapsto> (n, \<lparr>pc_tx_hash = h, pc_committer = c, pc_committed_at_slot = s\<rparr>)) \<and>
    pending_claim h p = (map_of p h, snd (pending_claim h p)) \<and>
    map_of (snd (pending_claim h p)) = (map_of p)(h := None) \<and>
    map_of (snd (pending_expire s p)) =
      map_of p |` {h. \<forall>e. map_of p h = Some e \<longrightarrow> s \<le> pc_committed_at_slot (snd e)} \<and>
    mset (fst (pending_expire s p)) =
      image_mset snd (mset_set {(h, e). map_of p h = Some e \<and> pc_committed_at_slot (snd e) < s}) \<and>
    outstanding_for d p = card {h. \<exists>e. map_of p h = Some e \<and> pc_committer (snd e) = d} \<and>
    bt_ok (pending_record n h c s p) \<and> bt_ok (snd (pending_claim h p)) \<and> bt_ok (snd (pending_expire s p))"
proof (intro conjI)
  show "map_of (snd (pending_expire s p)) =
      map_of p |` {h. \<forall>e. map_of p h = Some e \<longrightarrow> s \<le> pc_committed_at_slot (snd e)}"
    using pend.view_expire [OF assms, of s]
    by (auto simp: fun_eq_iff restrict_map_def not_less split: option.splits)
  let ?stale = "filter (\<lambda>(_, _, commit). pc_committed_at_slot commit < s) p"
  have "distinct ?stale"
    using bt.entries_distinct [OF assms] by (auto simp: distinct_map)
  moreover have "set ?stale = {(h, e). map_of p h = Some e \<and> pc_committed_at_slot (snd e) < s}"
    using bt.entries_iff [OF assms] by auto
  ultimately show "mset (fst (pending_expire s p)) =
      image_mset snd (mset_set {(h, e). map_of p h = Some e \<and> pc_committed_at_slot (snd e) < s})"
    using mset_set_set [of ?stale] by (simp add: pending_expire_removed [OF assms])
qed (simp_all add: pend.view_rec pend.view_claim pend.ok_rec pend.ok_claim pend.ok_expire pend.claimed pend.counted assms prod_eq_iff
    del: fun_upd_apply)

theorem pending_refines_map_witness:
  "map_of (snd (pending_claim [1] (pending_record 4 [1] [9] 7 (pending_record 3 [1] [8] 6 [])))) = Map.empty \<and>
   outstanding_for [8] (pending_record 3 [1] [8] 6 []) = 1"
  using pending_refines_map [of "pending_record 3 [1] [8] 6 []" 4 "[1]" "[9]" 7]
    pending_refines_map [of "[]" 3 "[1]" "[8]" 6]
    pending_refines_map [of "pending_record 4 [1] [9] 7 (pending_record 3 [1] [8] 6 [])" _ "[1]"]
  by simp

end
