(* ===== verification/Writer.thy ===== *)
theory Writer
  imports Receipt_Log Pending
begin

text \<open>
  The receipt writer (\<open>src/magicblock-validator/magicblock-receipts/src/writer.rs\<close>), the one task that
  assigns sequence numbers, advances the hash chain and signs. Its state is the record \<open>writer\<close>, the
  log it writes is a \<open>receipt_store\<close>, and what it reads of the world while it serves a command (the slot,
  the clock, which disk operations fail) is the record \<open>moment\<close>. The inbox is the list of commands, the
  event channel and the replies are returned. A storage or limit error carries the ledger error or
  the committer itself where the code keeps its text.
\<close>

datatype stamp_error =
    WriterGone
  | Invalid receipt_error
  | Storage ledger_error
  | UnsignedCommitment
  | TooManyOutstanding bytes

record moment =
  mo_slot :: u64
  mo_micros :: u64
  mo_disk :: disk

record writer =
  w_key :: bytes
  w_log_id :: bytes
  w_seq :: u64
  w_prev_receipt_hash :: bytes
  w_equivocation :: bool
  w_published :: "signed_receipt option"
  w_pending :: pending_commits
  w_deadline :: reveal_deadline

definition equivocation_from_env :: "string option \<Rightarrow> bool" where
  "equivocation_from_env var =
     (case map_option (\<lambda>raw. trim raw = ''equivocate'') var of Some enabled \<Rightarrow> enabled | None \<Rightarrow> False)"

definition mint_log_id :: "crypto \<Rightarrow> bytes \<Rightarrow> u64 \<Rightarrow> u64 \<Rightarrow> bytes" where
  "mint_log_id C key nanos minted =
     tx_hash_of C (verifying_key C key @ u64_le nanos @ u64_le minted)"

definition writer_new :: "crypto \<Rightarrow> bytes \<Rightarrow> u64 \<Rightarrow> u64 \<Rightarrow> bool \<Rightarrow> reveal_deadline \<Rightarrow> writer" where
  "writer_new C key nanos minted equivocation deadline =
     \<lparr>w_key = key, w_log_id = mint_log_id C key nanos minted, w_seq = 0,
      w_prev_receipt_hash = GENESIS_PREV_HASH, w_equivocation = equivocation, w_published = None,
      w_pending = [], w_deadline = deadline\<rparr>"

definition stamp ::
    "crypto \<Rightarrow> moment \<Rightarrow> bytes \<Rightarrow> bytes \<Rightarrow> bytes \<Rightarrow> writer \<Rightarrow> receipt_store
     \<Rightarrow> writer \<times> receipt_store \<times> (stamp_error + signed_receipt)" where
  "stamp C now tx_sig wire_bytes recent_blockhash w st =
     (let receipt =
            \<lparr>r_log_id = w_log_id w, r_mode = Plain, r_seq = w_seq w, r_tx_sig = tx_sig,
             r_tx_hash = tx_hash_of C wire_bytes, r_recent_blockhash = recent_blockhash,
             r_prev_receipt_hash = w_prev_receipt_hash w, r_committer = ZERO_PUBKEY,
             r_ingress_slot = mo_slot now, r_t_ingress_micros = mo_micros now\<rparr>
      in
      case sign C receipt (w_key w) of
        Inl error \<Rightarrow> (w, st, Inl (Invalid error))
      | Inr signed_rc \<Rightarrow>
          (case
             (if w_equivocation w then
                let tampered = receipt\<lparr>r_tx_hash := (r_tx_hash receipt)[0 := xor (r_tx_hash receipt ! 0) 0xFF]\<rparr>
                in sign C tampered (w_key w)
              else Inr signed_rc)
           of
             Inl error \<Rightarrow> (w, st, Inl (Invalid error))
           | Inr published \<Rightarrow>
               (case write_receipt (mo_disk now) (w_seq w) (Some tx_sig) (outcome_as_u8 Pending)
                       (signed_to_bytes published) st of
                  (st, Inl error) \<Rightarrow> (w, st, Inl (Storage error))
                | (st, Inr _) \<Rightarrow>
                    (w\<lparr>w_seq := w_seq w + 1, w_prev_receipt_hash := receipt_hash C published,
                       w_published := Some published\<rparr>, st, Inr signed_rc))))"

definition commit ::
    "crypto \<Rightarrow> moment \<Rightarrow> bytes \<Rightarrow> bytes \<Rightarrow> writer \<Rightarrow> receipt_store
     \<Rightarrow> writer \<times> receipt_store \<times> (stamp_error + signed_receipt)" where
  "commit C now tx_hash committer w st =
     (if outstanding_for committer (w_pending w) \<ge> rd_max_outstanding (w_deadline w)
      then (w, st, Inl (TooManyOutstanding committer))
      else
        let ingress_slot = mo_slot now;
            ticket =
              \<lparr>r_log_id = w_log_id w, r_mode = Commit, r_seq = w_seq w, r_tx_sig = ZERO_SIG,
               r_tx_hash = tx_hash, r_recent_blockhash = replicate 32 0,
               r_prev_receipt_hash = w_prev_receipt_hash w, r_committer = committer,
               r_ingress_slot = ingress_slot, r_t_ingress_micros = mo_micros now\<rparr>
        in
        case sign C ticket (w_key w) of
          Inl error \<Rightarrow> (w, st, Inl (Invalid error))
        | Inr signed_rc \<Rightarrow>
            (case write_receipt (mo_disk now) (w_seq w) None (outcome_as_u8 Pending)
                    (signed_to_bytes signed_rc) st of
               (st, Inl error) \<Rightarrow> (w, st, Inl (Storage error))
             | (st, Inr _) \<Rightarrow>
                 (w\<lparr>w_pending := pending_record (w_seq w) tx_hash committer ingress_slot (w_pending w),
                    w_seq := w_seq w + 1, w_prev_receipt_hash := receipt_hash C signed_rc,
                    w_published := Some signed_rc\<rparr>, st, Inr signed_rc)))"

section \<open>Commands\<close>

datatype writer_command =
    StampRequest bytes bytes bytes
  | CommitRequest bytes bytes
  | RevealRequest bytes bytes
  | RecordOutcome u64 outcome
  | Sweep

datatype writer_reply =
    Stamped "stamp_error + signed_receipt"
  | Revealed "(u64 \<times> pending_commit) option"
  | NoReply

text \<open>Each handler returns the writer, the log, what it broadcasts and what it replies.\<close>

type_synonym handled = "writer \<times> receipt_store \<times> signed_receipt list \<times> writer_reply"

definition broadcast :: "writer \<times> receipt_store \<times> (stamp_error + signed_receipt) \<Rightarrow> handled" where
  "broadcast answer =
     (let (w, st, result) = answer in
      case w_published w of
        Some published \<Rightarrow> (w\<lparr>w_published := None\<rparr>, st, [published], Stamped result)
      | None \<Rightarrow> (w, st, [], Stamped result))"

definition handle_stamp ::
    "crypto \<Rightarrow> moment \<Rightarrow> bytes \<Rightarrow> bytes \<Rightarrow> bytes \<Rightarrow> writer \<Rightarrow> receipt_store \<Rightarrow> handled" where
  "handle_stamp C now tx_sig wire_bytes recent_blockhash w st =
     broadcast (stamp C now tx_sig wire_bytes recent_blockhash w st)"

definition handle_commit :: "crypto \<Rightarrow> moment \<Rightarrow> bytes \<Rightarrow> bytes \<Rightarrow> writer \<Rightarrow> receipt_store \<Rightarrow> handled" where
  "handle_commit C now tx_hash committer w st = broadcast (commit C now tx_hash committer w st)"

definition handle_reveal :: "moment \<Rightarrow> bytes \<Rightarrow> bytes \<Rightarrow> writer \<Rightarrow> receipt_store \<Rightarrow> handled" where
  "handle_reveal now tx_hash tx_sig w st =
     (case pending_claim tx_hash (w_pending w) of
        (None, pending) \<Rightarrow> (w\<lparr>w_pending := pending\<rparr>, st, [], Revealed None)
      | (Some claimed, pending) \<Rightarrow>
          (w\<lparr>w_pending := pending\<rparr>,
           fst (index_receipt_signature (mo_disk now) (fst claimed) tx_sig st), [], Revealed (Some claimed)))"

fun record_expiries :: "disk \<Rightarrow> (u64 \<times> pending_commit) list \<Rightarrow> receipt_store \<Rightarrow> receipt_store" where
  "record_expiries disk [] st = st"
| "record_expiries disk ((seq, _) # expired) st =
     record_expiries disk expired (fst (set_receipt_outcome disk seq (outcome_as_u8 Expired) st))"

definition handle_sweep :: "moment \<Rightarrow> writer \<Rightarrow> receipt_store \<Rightarrow> handled" where
  "handle_sweep now w st =
     (let cutoff = saturating_sub (mo_slot now) (rd_slots (w_deadline w));
          (expired, pending) = pending_expire cutoff (w_pending w)
      in (w\<lparr>w_pending := pending\<rparr>, record_expiries (mo_disk now) expired st, [], NoReply))"

definition handle_outcome :: "moment \<Rightarrow> u64 \<Rightarrow> outcome \<Rightarrow> writer \<Rightarrow> receipt_store \<Rightarrow> handled" where
  "handle_outcome now seq outcome w st =
     (w, fst (set_receipt_outcome (mo_disk now) seq (outcome_as_u8 outcome) st), [], NoReply)"

fun handle :: "crypto \<Rightarrow> moment \<Rightarrow> writer_command \<Rightarrow> writer \<Rightarrow> receipt_store \<Rightarrow> handled" where
  "handle C now (StampRequest tx_sig wire_bytes recent_blockhash) w st =
     handle_stamp C now tx_sig wire_bytes recent_blockhash w st"
| "handle C now (CommitRequest tx_hash committer) w st = handle_commit C now tx_hash committer w st"
| "handle C now (RevealRequest tx_hash tx_sig) w st = handle_reveal now tx_hash tx_sig w st"
| "handle C now (RecordOutcome seq outcome) w st = handle_outcome now seq outcome w st"
| "handle C now Sweep w st = handle_sweep now w st"

text \<open>The loop of \<open>run\<close> over the commands it receives, with every event and every reply in order.\<close>

fun run_writer ::
    "crypto \<Rightarrow> (moment \<times> writer_command) list \<Rightarrow> writer \<Rightarrow> receipt_store
     \<Rightarrow> writer \<times> receipt_store \<times> signed_receipt list \<times> writer_reply list" where
  "run_writer C [] w st = (w, st, [], [])"
| "run_writer C ((now, command) # inbox) w st =
     (let (w, st, events, reply) = handle C now command w st;
          (w, st, later, replies) = run_writer C inbox w st
      in (w, st, events @ later, reply # replies))"

end
