(* ===== verification/Writer_Log.thy ===== *)
theory Writer_Log
  imports Writer Accusations
begin

text \<open>
  What an honest receipt writer signs, broadcasts and stores, over whole runs of commands: one
  statement per position, linked by hashes from the first on, and a log that holds exactly these.
  A writer is honest here when its equivocation switch is off.
\<close>

section \<open>One command\<close>

definition command_shape :: "writer_command \<Rightarrow> bool" where
  "command_shape command =
     (case command of
        StampRequest tx_sig _ recent_blockhash \<Rightarrow> length tx_sig = 64 \<and> length recent_blockhash = 32
      | CommitRequest tx_hash committer \<Rightarrow> length tx_hash = 32 \<and> length committer = 32
      | RevealRequest tx_hash tx_sig \<Rightarrow> length tx_hash = 32 \<and> length tx_sig = 64
      | RecordOutcome _ _ \<Rightarrow> True
      | Sweep \<Rightarrow> True)"

definition writer_shape :: "writer \<Rightarrow> bool" where
  "writer_shape w \<longleftrightarrow> length (w_log_id w) = 32 \<and> length (w_prev_receipt_hash w) = 32"

definition honest :: "writer \<Rightarrow> bool" where
  "honest w \<longleftrightarrow> \<not> w_equivocation w \<and> w_published w = None"

definition same_node :: "writer \<Rightarrow> writer \<Rightarrow> bool" where
  "same_node w w' \<longleftrightarrow> w_key w' = w_key w \<and> w_log_id w' = w_log_id w \<and> w_deadline w' = w_deadline w \<and>
     w_equivocation w' = w_equivocation w"

text \<open>The statement a writer signs next: this position, this link, its key, its log.\<close>

definition next_statement :: "crypto \<Rightarrow> writer \<Rightarrow> signed_receipt \<Rightarrow> bool" where
  "next_statement C w e \<longleftrightarrow> r_seq (s_receipt e) = w_seq w \<and> r_prev_receipt_hash (s_receipt e) = w_prev_receipt_hash w \<and>
     r_log_id (s_receipt e) = w_log_id w \<and> sign C (s_receipt e) (w_key w) = Inr e"

lemma same_node_refl [simp]: "same_node w w"
  by (simp add: same_node_def)

lemma same_node_trans: "same_node a b \<Longrightarrow> same_node b c \<Longrightarrow> same_node a c"
  by (simp add: same_node_def)

lemma same_node_pending [simp]: "same_node w (w\<lparr>w_pending := p\<rparr>)"
  by (simp add: same_node_def)

lemma stamp_cases:
  assumes "honest w" and "stamp C now tx_sig wire blockhash w st = (w', st', result)"
  obtains (refused) error where "result = Inl error" "w' = w"
      "st' = st \<or> (\<exists>e err. sign C (s_receipt e) (w_key w) = Inr e \<and>
        write_receipt (mo_disk now) (w_seq w) (Some tx_sig) (outcome_as_u8 Pending) (signed_to_bytes e) st = (st', Inl err))"
  | (issued) e where "result = Inr e" "next_statement C w e" "r_mode (s_receipt e) = Plain" "r_tx_sig (s_receipt e) = tx_sig"
      "r_tx_hash (s_receipt e) = tx_hash_of C wire" "r_recent_blockhash (s_receipt e) = blockhash"
      "r_ingress_slot (s_receipt e) = mo_slot now"
      "w' = w\<lparr>w_seq := w_seq w + 1, w_prev_receipt_hash := receipt_hash C e, w_published := Some e\<rparr>"
      "write_receipt (mo_disk now) (w_seq w) (Some tx_sig) (outcome_as_u8 Pending) (signed_to_bytes e) st = (st', Inr ())"
proof -
  let ?r = "\<lparr>r_log_id = w_log_id w, r_mode = Plain, r_seq = w_seq w, r_tx_sig = tx_sig, r_tx_hash = tx_hash_of C wire,
    r_recent_blockhash = blockhash, r_prev_receipt_hash = w_prev_receipt_hash w, r_committer = ZERO_PUBKEY,
    r_ingress_slot = mo_slot now, r_t_ingress_micros = mo_micros now\<rparr>"
  show thesis
  proof (cases "sign C ?r (w_key w)")
    case (Inl error)
    then show thesis
      using assms by (intro refused [of "Invalid error"]) (simp_all add: stamp_def)
  next
    case (Inr e)
    then have e: "s_receipt e = ?r" "sign C (s_receipt e) (w_key w) = Inr e"
      by (auto simp: sign_Inr)
    obtain t r where wrote: "write_receipt (mo_disk now) (w_seq w) (Some tx_sig) (outcome_as_u8 Pending)
        (signed_to_bytes e) st = (t, r)"
      by fastforce
    show thesis
    proof (cases r)
      case (Inl error)
      with assms Inr wrote have "result = Inl (Storage error)" "w' = w" "st' = t"
        by (simp_all add: stamp_def honest_def)
      with Inl wrote e(2) show thesis
        using refused by blast
    next
      case (Inr u)
      with assms \<open>sign C ?r (w_key w) = Inr e\<close> wrote show thesis
        by (intro issued [of e]) (simp_all add: stamp_def honest_def next_statement_def e)
    qed
  qed
qed

lemma commit_cases:
  assumes "commit C now tx_hash committer w st = (w', st', result)"
  obtains (refused) error where "result = Inl error" "w' = w"
      "st' = st \<or> (\<exists>e err. write_receipt (mo_disk now) (w_seq w) None (outcome_as_u8 Pending) (signed_to_bytes e) st = (st', Inl err))"
  | (issued) e where "result = Inr e" "next_statement C w e" "r_mode (s_receipt e) = Commit" "r_tx_hash (s_receipt e) = tx_hash"
      "r_tx_sig (s_receipt e) = ZERO_SIG" "r_recent_blockhash (s_receipt e) = replicate 32 0"
      "r_committer (s_receipt e) = committer" "r_ingress_slot (s_receipt e) = mo_slot now"
      "outstanding_for committer (w_pending w) < rd_max_outstanding (w_deadline w)"
      "w' = w\<lparr>w_pending := pending_record (w_seq w) tx_hash committer (mo_slot now) (w_pending w),
         w_seq := w_seq w + 1, w_prev_receipt_hash := receipt_hash C e, w_published := Some e\<rparr>"
      "write_receipt (mo_disk now) (w_seq w) None (outcome_as_u8 Pending) (signed_to_bytes e) st = (st', Inr ())"
proof (cases "outstanding_for committer (w_pending w) \<ge> rd_max_outstanding (w_deadline w)")
  case True
  then show thesis
    using assms by (intro refused [of "TooManyOutstanding committer"]) (simp_all add: commit_def)
next
  case room: False
  let ?r = "\<lparr>r_log_id = w_log_id w, r_mode = Commit, r_seq = w_seq w, r_tx_sig = ZERO_SIG, r_tx_hash = tx_hash,
    r_recent_blockhash = replicate 32 0, r_prev_receipt_hash = w_prev_receipt_hash w, r_committer = committer,
    r_ingress_slot = mo_slot now, r_t_ingress_micros = mo_micros now\<rparr>"
  show thesis
  proof (cases "sign C ?r (w_key w)")
    case (Inl error)
    then show thesis
      using assms room by (intro refused [of "Invalid error"]) (simp_all add: commit_def)
  next
    case (Inr e)
    then have e: "s_receipt e = ?r" "sign C (s_receipt e) (w_key w) = Inr e"
      by (auto simp: sign_Inr)
    obtain t r where wrote: "write_receipt (mo_disk now) (w_seq w) None (outcome_as_u8 Pending) (signed_to_bytes e) st = (t, r)"
      by fastforce
    show thesis
    proof (cases r)
      case (Inl error)
      with assms room Inr wrote have "result = Inl (Storage error)" "w' = w" "st' = t"
        by (simp_all add: commit_def Let_def)
      with Inl wrote show thesis
        using refused by blast
    next
      case (Inr u)
      with assms room \<open>sign C ?r (w_key w) = Inr e\<close> wrote show thesis
        by (intro issued [of e]) (simp_all add: commit_def Let_def next_statement_def e)
    qed
  qed
qed

text \<open>Every command either issues the next statement, broadcasts it and replies with it, or issues nothing.\<close>

lemma handle_cases:
  assumes "honest w" and "handle C now command w st = (w', st', events, reply)"
  obtains (quiet) "events = []" "\<forall>e. reply \<noteq> Stamped (Inr e)" "w_seq w' = w_seq w"
      "w_prev_receipt_hash w' = w_prev_receipt_hash w" "same_node w w'" "honest w'"
  | (issued) e where "events = [e]" "reply = Stamped (Inr e)" "next_statement C w e" "w_seq w' = w_seq w + 1"
      "w_prev_receipt_hash w' = receipt_hash C e" "same_node w w'" "honest w'"
      "\<exists>tx_sig. write_receipt (mo_disk now) (w_seq w) tx_sig (outcome_as_u8 Pending) (signed_to_bytes e) st = (st', Inr ())"
proof (cases command)
  case (StampRequest tx_sig wire blockhash)
  obtain v t r where stamped: "stamp C now tx_sig wire blockhash w st = (v, t, r)"
    using prod_cases3 by blast
  with assms(1) show thesis
  proof (cases rule: stamp_cases)
    case (refused error)
    with assms StampRequest stamped show thesis
      by (intro quiet) (auto simp: handle_stamp_def broadcast_def honest_def split: option.splits)
  next
    case (issued e)
    with assms StampRequest stamped show thesis
      by (intro that(2) [of e])
        (auto simp: handle_stamp_def broadcast_def honest_def same_node_def split: option.splits)
  qed
next
  case (CommitRequest tx_hash committer)
  obtain v t r where committed: "commit C now tx_hash committer w st = (v, t, r)"
    using prod_cases3 by blast
  then show thesis
  proof (cases rule: commit_cases)
    case (refused error)
    with assms CommitRequest committed show thesis
      by (intro quiet) (auto simp: handle_commit_def broadcast_def honest_def split: option.splits)
  next
    case (issued e)
    with assms CommitRequest committed show thesis
      by (intro that(2) [of e])
        (auto simp: handle_commit_def broadcast_def honest_def same_node_def split: option.splits)
  qed
next
  case (RevealRequest tx_hash tx_sig)
  with assms show thesis
    by (intro quiet) (auto simp: handle_reveal_def honest_def split: prod.splits option.splits)
next
  case (RecordOutcome seq outcome)
  with assms show thesis
    by (intro quiet) (auto simp: handle_outcome_def)
next
  case Sweep
  with assms show thesis
    by (intro quiet) (auto simp: handle_sweep_def honest_def split: prod.splits)
qed

lemma issued_shape:
  assumes "crypto_ok C" "writer_shape w" "command_shape command" "honest w"
    and "handle C now command w st = (w', st', [e], reply)"
  shows "signed_valid e"
proof -
  note len = crypto_okD [OF assms(1)]
  have "receipt_shape (s_receipt e) \<and> sign C (s_receipt e) (w_key w) = Inr e"
  proof (cases command)
    case (StampRequest tx_sig wire blockhash)
    obtain v t r where stamped: "stamp C now tx_sig wire blockhash w st = (v, t, r)"
      using prod_cases3 by blast
    have "w_published v = Some e"
      using assms(4,5) StampRequest stamped
      by (auto simp: handle_stamp_def broadcast_def split: option.splits)
    with stamped show ?thesis
      using assms(2-4) StampRequest len
      by (cases rule: stamp_cases [OF assms(4) stamped])
        (auto simp: honest_def writer_shape_def command_shape_def receipt_shape_def next_statement_def tx_hash_of_def
          validate_def sign_Inr layout split: if_splits)
  next
    case (CommitRequest tx_hash committer)
    obtain v t r where committed: "commit C now tx_hash committer w st = (v, t, r)"
      using prod_cases3 by blast
    have "w_published v = Some e"
      using assms(4,5) CommitRequest committed
      by (auto simp: handle_commit_def broadcast_def split: option.splits)
    with committed show ?thesis
      using assms(2-4) CommitRequest
      by (cases rule: commit_cases [OF committed])
        (auto simp: honest_def writer_shape_def command_shape_def receipt_shape_def next_statement_def layout)
  qed (use assms(5) in \<open>auto simp: handle_reveal_def handle_outcome_def handle_sweep_def split: prod.splits option.splits\<close>)
  then show ?thesis
    using sign_shape [OF assms(1)] by (metis sign_Inr)
qed

section \<open>Runs\<close>

fun chained :: "crypto \<Rightarrow> u64 \<Rightarrow> bytes \<Rightarrow> signed_receipt list \<Rightarrow> bool" where
  "chained C n prev [] \<longleftrightarrow> True"
| "chained C n prev (e # es) \<longleftrightarrow>
     r_seq (s_receipt e) = n \<and> r_prev_receipt_hash (s_receipt e) = prev \<and> chained C (n + 1) (receipt_hash C e) es"

definition chain_tip :: "crypto \<Rightarrow> bytes \<Rightarrow> signed_receipt list \<Rightarrow> bytes" where
  "chain_tip C prev es = (if es = [] then prev else receipt_hash C (last es))"

definition issued_of :: "writer_reply \<Rightarrow> signed_receipt option" where
  "issued_of reply = (case reply of Stamped (Inr e) \<Rightarrow> Some e | _ \<Rightarrow> None)"

lemma chained_nth:
  "chained C n prev es \<Longrightarrow> i < length es \<Longrightarrow> r_seq (s_receipt (es ! i)) = n + of_nat i \<and>
     r_prev_receipt_hash (s_receipt (es ! i)) = (if i = 0 then prev else receipt_hash C (es ! (i - 1)))"
proof (induction es arbitrary: n prev i)
  case (Cons e es)
  then show ?case
    by (cases i) (auto simp: algebra_simps nth_Cons split: nat.splits)
qed simp

lemma chained_seq_unique:
  assumes "chained C 0 prev es" and "length es < 2 ^ 64" and "a \<in> set es" and "b \<in> set es"
    and "r_seq (s_receipt a) = r_seq (s_receipt b)"
  shows "a = b"
proof -
  obtain i j where ij: "i < length es" "a = es ! i" "j < length es" "b = es ! j"
    using assms(3,4) by (metis in_set_conv_nth)
  then have "(of_nat i :: u64) = of_nat j"
    using assms(5) chained_nth [OF assms(1) ij(1)] chained_nth [OF assms(1) ij(3)] by simp
  then have "i = j"
    using unat_of_nat_u64 [of i] unat_of_nat_u64 [of j] ij(1,3) assms(2) by (metis less_trans)
  then show ?thesis
    using ij by simp
qed

lemma run_writer_Cons:
  assumes "run_writer C ((now, command) # inbox) w st = (w', st', events, replies)"
  obtains v t es reply later rest where "handle C now command w st = (v, t, es, reply)"
    "run_writer C inbox v t = (w', st', later, rest)" "events = es @ later" "replies = reply # rest"
  using assms by (auto simp: Let_def split: prod.splits)

lemma run_writer_chain:
  assumes "honest w" and "run_writer C inbox w st = (w', st', events, replies)"
  shows "chained C (w_seq w) (w_prev_receipt_hash w) events \<and> honest w' \<and> same_node w w' \<and>
    w_seq w' = w_seq w + of_nat (length events) \<and>
    w_prev_receipt_hash w' = chain_tip C (w_prev_receipt_hash w) events \<and>
    List.map_filter issued_of replies = events \<and> length events \<le> length inbox \<and>
    (\<forall>e \<in> set events. r_log_id (s_receipt e) = w_log_id w \<and> sign C (s_receipt e) (w_key w) = Inr e)"
  using assms
proof (induction inbox arbitrary: w st events replies)
  case (Cons c inbox)
  obtain now command where c: "c = (now, command)"
    by fastforce
  from Cons.prems(2) c obtain v t es reply later rest where step: "handle C now command w st = (v, t, es, reply)"
    and run: "run_writer C inbox v t = (w', st', later, rest)" and out: "events = es @ later" "replies = reply # rest"
    by (auto elim: run_writer_Cons simp del: run_writer.simps)
  from Cons.prems(1) step show ?case
  proof (cases rule: handle_cases)
    case quiet
    then have "issued_of reply = None"
      by (auto simp: issued_of_def split: writer_reply.splits sum.splits)
    with Cons.IH [OF quiet(6) run] quiet out show ?thesis
      by (auto simp: map_filter_simps same_node_def)
  next
    case (issued e)
    then have reply: "issued_of reply = Some e"
      by (simp add: issued_of_def)
    note ih = Cons.IH [OF issued(7) run]
    have tip: "chain_tip C (receipt_hash C e) later = chain_tip C (w_prev_receipt_hash w) (e # later)"
      by (simp add: chain_tip_def)
    show ?thesis
      using ih issued out reply tip
      by (auto simp: map_filter_simps same_node_def next_statement_def algebra_simps)
  qed
qed (simp add: chain_tip_def map_filter_simps)

lemma run_writer_shapes:
  assumes "crypto_ok C" "writer_shape w" "\<forall>(now, command) \<in> set inbox. command_shape command" "honest w"
    and "run_writer C inbox w st = (w', st', events, replies)"
  shows "\<forall>e \<in> set events. signed_valid e"
  using assms(2-)
proof (induction inbox arbitrary: w st events replies)
  case (Cons c inbox)
  obtain now command where c: "c = (now, command)"
    by fastforce
  from Cons.prems(4) c obtain v t es reply later rest where step: "handle C now command w st = (v, t, es, reply)"
    and run: "run_writer C inbox v t = (w', st', later, rest)" and out: "events = es @ later"
    by (auto elim: run_writer_Cons simp del: run_writer.simps)
  have shape: "\<forall>(now, command) \<in> set inbox. command_shape command"
    using Cons.prems(2) by simp
  from Cons.prems(3) step show ?case
  proof (cases rule: handle_cases)
    case quiet
    then have "writer_shape v"
      using Cons.prems(1) by (simp add: writer_shape_def same_node_def)
    from Cons.IH [OF this shape quiet(6) run] quiet(1) out show ?thesis
      by simp
  next
    case (issued e)
    then have "writer_shape v"
      using Cons.prems(1) crypto_okD [OF assms(1)] by (simp add: writer_shape_def same_node_def receipt_hash_def)
    from Cons.IH [OF this shape issued(7) run] issued_shape [OF assms(1) Cons.prems(1) _ Cons.prems(3), of command]
    show ?thesis
      using issued(1) out step Cons.prems(2) c by auto
  qed
qed simp

section \<open>The stored log\<close>

text \<open>
  The rows of the log without their outcome bytes, those before and those after a position, and a disk
  on which the signature index can always be written. A refused write leaves the log as it was, or,
  when it was the index that failed, with its row at the position it was for.
\<close>

definition log_bytes :: "receipt_store \<Rightarrow> (u64 \<times> bytes) list" where
  "log_bytes st = map (\<lambda>(n, v). (n, tl v)) (receipt_by_seq st)"

definition rows_below :: "u64 \<Rightarrow> receipt_store \<Rightarrow> (u64 \<times> bytes) list" where
  "rows_below n st = filter (\<lambda>(k, _). k < n) (log_bytes st)"

definition rows_above :: "u64 \<Rightarrow> receipt_store \<Rightarrow> (u64 \<times> bytes) list" where
  "rows_above n st = filter (\<lambda>(k, _). n < k) (log_bytes st)"

definition indexable :: "disk \<Rightarrow> bool" where
  "indexable disk \<longleftrightarrow> (\<forall>s. dk_put_sig disk s = None)"

lemma bt_insert_split:
  "bt_ok m \<Longrightarrow> bt_insert k v m = filter (\<lambda>(j, _). j < k) m @ (k, v) # filter (\<lambda>(j, _). k < j) m"
proof (induction k v m rule: bt_insert.induct)
  case (2 k v j w m)
  then have above: "\<forall>(i, _) \<in> set m. j < i" and ok: "bt_ok m"
    by (auto simp: bt_ok_def)
  have "filter (\<lambda>(i, _). i < k) m = []" "filter (\<lambda>(i, _). k < i) m = m" if "k \<le> j"
    using above that by (auto simp: filter_empty_conv filter_id_conv)
  then show ?case
    using "2.IH" ok by auto
qed simp

lemma write_receipt_rows:
  assumes "store_ok st" and "write_receipt disk n s oc bs st = (st', result)"
  shows "result = Inr () \<Longrightarrow> log_bytes st' = rows_below n st @ (n, bs) # rows_above n st"
    and "result = Inl err \<Longrightarrow> st' = st \<or> \<not> indexable disk \<and> log_bytes st' = rows_below n st @ (n, bs) # rows_above n st"
  using assms bt_insert_split [of "receipt_by_seq st" n "oc # bs"]
  by (auto simp: write_receipt_def put_seq_def put_sig_def Let_def indexable_def store_ok_def
      log_bytes_def rows_below_def rows_above_def filter_map comp_def case_prod_unfold split: option.splits)

lemma bt_insert_same:
  "bt_ok m \<Longrightarrow> map_of m k = Some v \<Longrightarrow> f v = f v' \<Longrightarrow>
     map (\<lambda>(n, v). (n, f v)) (bt_insert k v' m) = map (\<lambda>(n, v). (n, f v)) m"
proof (induction k v' m rule: bt_insert.induct)
  case (2 k v' j w m)
  have "k \<in> fst ` set ((j, w) # m)"
    using 2(3) by (rule map_of_SomeD [THEN image_eqI [rotated]]) simp
  then have "\<not> k < j"
    using 2(2) by (auto simp: bt_ok_def)
  with 2 show ?case
    by (auto simp: bt_ok_def)
qed simp

lemma set_receipt_outcome_log:
  assumes "store_ok st"
  shows "log_bytes (fst (set_receipt_outcome disk n oc st)) = log_bytes st \<and>
    store_ok (fst (set_receipt_outcome disk n oc st))"
proof
  show "store_ok (fst (set_receipt_outcome disk n oc st))"
    using set_receipt_outcome_ok [OF assms] by (metis prod.collapse)
  have "tl (v[0 := oc]) = tl v" for v :: bytes
    by (cases v) simp_all
  then show "log_bytes (fst (set_receipt_outcome disk n oc st)) = log_bytes st"
    using assms bt_insert_same [of "receipt_by_seq st" n _ tl]
    by (auto simp: set_receipt_outcome_def get_seq_def put_seq_def log_bytes_def store_ok_def
        split: option.splits sum.splits)
qed

lemma record_expiries_log:
  "store_ok st \<Longrightarrow> log_bytes (record_expiries disk expired st) = log_bytes st \<and> store_ok (record_expiries disk expired st)"
  by (induction disk expired st rule: record_expiries.induct) (simp_all add: set_receipt_outcome_log)

lemma index_receipt_signature_log:
  "store_ok st \<Longrightarrow> log_bytes (fst (index_receipt_signature disk n s st)) = log_bytes st \<and>
     store_ok (fst (index_receipt_signature disk n s st))"
  using put_simps(2) put_sig_ok unfolding index_receipt_signature_def log_bytes_def by (metis prod.collapse)

lemma handle_log:
  assumes "honest w" "store_ok st" and step: "handle C now command w st = (v, t, es, reply)"
  shows "store_ok t \<and>
    (es = [] \<and> (log_bytes t = log_bytes st \<or>
       \<not> indexable (mo_disk now) \<and> (\<exists>bs. log_bytes t = rows_below (w_seq w) st @ (w_seq w, bs) # rows_above (w_seq w) st)) \<or>
     (\<exists>e. es = [e] \<and> log_bytes t = rows_below (w_seq w) st @ (w_seq w, signed_to_bytes e) # rows_above (w_seq w) st))"
proof (cases command)
  case (StampRequest tx_sig wire blockhash)
  obtain v' t' r where stamped: "stamp C now tx_sig wire blockhash w st = (v', t', r)"
    using prod_cases3 by blast
  then have t: "t = t'" "es = (case w_published v' of Some e \<Rightarrow> [e] | None \<Rightarrow> [])"
    using step StampRequest by (auto simp: handle_stamp_def broadcast_def split: option.splits)
  from assms(1) stamped show ?thesis
  proof (cases rule: stamp_cases)
    case (refused error)
    then have "store_ok t'" "t' = st \<or> \<not> indexable (mo_disk now) \<and>
        (\<exists>bs. log_bytes t' = rows_below (w_seq w) st @ (w_seq w, bs) # rows_above (w_seq w) st)"
      using assms(2) write_receipt_ok [OF assms(2)] write_receipt_rows(2) [OF assms(2)] by blast+
    with refused t assms show ?thesis
      by (auto simp: honest_def)
  next
    case (issued e)
    with t write_receipt_ok [OF assms(2) issued(9)] write_receipt_rows(1) [OF assms(2) issued(9)] show ?thesis
      by simp
  qed
next
  case (CommitRequest tx_hash committer)
  obtain v' t' r where committed: "commit C now tx_hash committer w st = (v', t', r)"
    using prod_cases3 by blast
  then have t: "t = t'" "es = (case w_published v' of Some e \<Rightarrow> [e] | None \<Rightarrow> [])"
    using step CommitRequest by (auto simp: handle_commit_def broadcast_def split: option.splits)
  from committed show ?thesis
  proof (cases rule: commit_cases)
    case (refused error)
    then have "store_ok t'" "t' = st \<or> \<not> indexable (mo_disk now) \<and>
        (\<exists>bs. log_bytes t' = rows_below (w_seq w) st @ (w_seq w, bs) # rows_above (w_seq w) st)"
      using assms(2) write_receipt_ok [OF assms(2)] write_receipt_rows(2) [OF assms(2)] by blast+
    with refused t assms show ?thesis
      by (auto simp: honest_def)
  next
    case (issued e)
    with t write_receipt_ok [OF assms(2) issued(11)] write_receipt_rows(1) [OF assms(2) issued(11)] show ?thesis
      by simp
  qed
next
  case (RevealRequest tx_hash tx_sig)
  with step assms(2) index_receipt_signature_log show ?thesis
    by (auto simp: handle_reveal_def split: prod.splits option.splits)
next
  case (RecordOutcome n oc)
  with step assms(2) set_receipt_outcome_log show ?thesis
    by (auto simp: handle_outcome_def)
next
  case Sweep
  with step assms(2) record_expiries_log show ?thesis
    by (auto simp: handle_sweep_def split: prod.splits)
qed

abbreviation log_row :: "signed_receipt \<Rightarrow> u64 \<times> bytes" where
  "log_row e \<equiv> (r_seq (s_receipt e), signed_to_bytes e)"

lemma rows_put:
  assumes "log_bytes t = rows_below n st @ (n, bs) # rows_above n st"
  shows "rows_below n t = rows_below n st" and "n \<le> m \<Longrightarrow> rows_above m t = rows_above m st"
    and "unat (n + 1) = Suc (unat n) \<Longrightarrow> rows_below (n + 1) t = rows_below n st @ [(n, bs)]"
    and "fst ` set (log_bytes t) \<subseteq> insert n (fst ` set (log_bytes st))"
proof -
  have "filter (\<lambda>(k, _). k < n) (rows_above n st) = []" "filter (\<lambda>(k, _). k < n) (rows_below n st) = rows_below n st"
    by (auto simp: rows_above_def rows_below_def filter_empty_conv filter_id_conv)
  then show "rows_below n t = rows_below n st"
    unfolding rows_below_def [of n t] assms by simp
  show "rows_above m t = rows_above m st" if "n \<le> m"
  proof -
    have "filter (\<lambda>(k, _). m < k) (rows_below n st) = []"
      using that by (auto simp: rows_below_def filter_empty_conv)
    moreover have "filter (\<lambda>(k, _). m < k) (rows_above n st) = rows_above m st"
      using that by (auto simp: rows_above_def intro!: filter_cong)
    ultimately show ?thesis
      using that unfolding rows_above_def [of m t] assms by simp
  qed
  show "rows_below (n + 1) t = rows_below n st @ [(n, bs)]" if "unat (n + 1) = Suc (unat n)"
  proof -
    have less: "k < n + 1 \<longleftrightarrow> k \<le> n" for k
      using that by (simp add: word_less_nat_alt word_le_nat_alt less_Suc_eq_le)
    have "filter (\<lambda>(k, _). k < n + 1) (rows_below n st) = rows_below n st" "filter (\<lambda>(k, _). k < n + 1) (rows_above n st) = []"
      by (auto simp: less rows_above_def rows_below_def filter_empty_conv intro!: filter_cong)
    then show ?thesis
      unfolding rows_below_def [of "n + 1" t] assms by (simp add: less)
  qed
  show "fst ` set (log_bytes t) \<subseteq> insert n (fst ` set (log_bytes st))"
    unfolding assms by (auto simp: rows_below_def rows_above_def)
qed

text \<open>
  Whatever the disk does and whatever was stored before, the positions the writer has passed hold exactly
  what it broadcast, and the positions it has not come to hold what they held.
\<close>

lemma run_writer_rows:
  assumes "honest w" "store_ok st" and "unat (w_seq w) + length inbox < 2 ^ 64"
    and "run_writer C inbox w st = (w', st', events, replies)"
  shows "store_ok st' \<and> rows_below (w_seq w') st' = rows_below (w_seq w) st @ map log_row events \<and>
    rows_above (w_seq w') st' = rows_above (w_seq w') st \<and> w_seq w \<le> w_seq w'"
  using assms
proof (induction inbox arbitrary: w st events replies)
  case (Cons c inbox)
  obtain now command where c: "c = (now, command)"
    by fastforce
  from Cons.prems(4) c obtain v t es reply later rest where step: "handle C now command w st = (v, t, es, reply)"
    and run: "run_writer C inbox v t = (w', st', later, rest)" and out: "events = es @ later"
    by (auto elim: run_writer_Cons simp del: run_writer.simps)
  note stored = handle_log [OF Cons.prems(1,2) step]
  from Cons.prems(1) step show ?case
  proof (cases rule: handle_cases)
    case quiet
    then have ok: "store_ok t" and same: "log_bytes t = log_bytes st \<or>
        (\<exists>bs. log_bytes t = rows_below (w_seq w) st @ (w_seq w, bs) # rows_above (w_seq w) st)"
      using stored by auto
    then have "rows_below (w_seq w) t = rows_below (w_seq w) st" "\<forall>m \<ge> w_seq w. rows_above m t = rows_above m st"
      using rows_put(1,2) [of t "w_seq w" st] by (auto simp: rows_below_def rows_above_def)
    then show ?thesis
      using Cons.IH [OF quiet(6) ok _ run] Cons.prems(3) quiet(1,3) out by simp
  next
    case (issued e)
    then have ok: "store_ok t" and put: "log_bytes t = rows_below (w_seq w) st @ (w_seq w, signed_to_bytes e) # rows_above (w_seq w) st"
      using stored by auto
    have step_seq: "unat (w_seq w + 1) = Suc (unat (w_seq w))"
      using Cons.prems(3) by (simp add: unat_word_ariths)
    then have le: "w_seq w \<le> w_seq v"
      using issued(4) by (simp add: word_le_nat_alt)
    have "log_row e = (w_seq w, signed_to_bytes e)"
      using issued(3) by (simp add: next_statement_def)
    then show ?thesis
      using Cons.IH [OF issued(7) ok _ run] rows_put(2,3) [OF put] step_seq le Cons.prems(3) issued(1,4) out by auto
  qed
qed simp

lemma run_writer_nothing_above:
  assumes "honest w" "store_ok st" "\<forall>(now, command) \<in> set inbox. indexable (mo_disk now)"
    and "\<forall>k \<in> fst ` set (log_bytes st). k < w_seq w" "unat (w_seq w) + length inbox < 2 ^ 64"
    and "run_writer C inbox w st = (w', st', events, replies)"
  shows "\<forall>k \<in> fst ` set (log_bytes st'). k < w_seq w'"
  using assms
proof (induction inbox arbitrary: w st events replies)
  case (Cons c inbox)
  obtain now command where c: "c = (now, command)"
    by fastforce
  from Cons.prems(6) c obtain v t es reply later rest where step: "handle C now command w st = (v, t, es, reply)"
    and run: "run_writer C inbox v t = (w', st', later, rest)"
    by (auto elim: run_writer_Cons simp del: run_writer.simps)
  have disk: "indexable (mo_disk now)" "\<forall>(now, command) \<in> set inbox. indexable (mo_disk now)"
    using Cons.prems(3) c by simp_all
  note stored = handle_log [OF Cons.prems(1,2) step]
  from Cons.prems(1) step show ?case
  proof (cases rule: handle_cases)
    case quiet
    then show ?thesis
      using stored disk(1) Cons.IH [OF quiet(6) _ disk(2) _ _ run] Cons.prems(4,5) by auto
  next
    case (issued e)
    then have ok: "store_ok t" and put: "log_bytes t = rows_below (w_seq w) st @ (w_seq w, signed_to_bytes e) # rows_above (w_seq w) st"
      using stored by auto
    have step_seq: "unat (w_seq v) = Suc (unat (w_seq w))"
      using Cons.prems(5) issued(4) by (simp add: unat_word_ariths)
    then have "\<forall>k \<in> fst ` set (log_bytes t). k < w_seq v"
      using rows_put(4) [OF put] Cons.prems(4) by (fastforce simp: word_less_nat_alt)
    then show ?thesis
      using Cons.IH [OF issued(7) ok disk(2) _ _ run] step_seq Cons.prems(5) by simp
  qed
qed simp

end
