(* ===== verification/Honest_Writer.thy ===== *)
theory Honest_Writer
  imports Writer_Log Evidence
begin

text \<open>
  The receipt writer against the watchtower and the program: the log of an honest writer is exactly
  what it signed, it is never accused and never convictable, with the one exception of a storage
  failure between the two writes of a receipt.
\<close>

definition empty_store :: receipt_store where
  "empty_store = \<lparr>receipt_by_seq = [], receipt_by_sig = []\<rparr>"

lemma empty_store_simps [simp]: "store_ok empty_store" "log_bytes empty_store = []"
  by (simp_all add: empty_store_def store_ok_def log_bytes_def)

lemma writer_new_simps [simp]:
  "honest (writer_new C key nanos minted False deadline)" "w_seq (writer_new C key nanos minted eq deadline) = 0"
  "w_prev_receipt_hash (writer_new C key nanos minted eq deadline) = GENESIS_PREV_HASH"
  "w_key (writer_new C key nanos minted eq deadline) = key" "w_pending (writer_new C key nanos minted eq deadline) = []"
  "w_deadline (writer_new C key nanos minted eq deadline) = deadline"
  "w_log_id (writer_new C key nanos minted eq deadline) = mint_log_id C key nanos minted"
  by (simp_all add: writer_new_def honest_def)

lemma writer_new_shape [simp]: "crypto_ok C \<Longrightarrow> writer_shape (writer_new C key nanos minted eq deadline)"
  by (simp add: writer_shape_def mint_log_id_def tx_hash_of_def crypto_okD)

lemma rows_log_bytes:
  assumes "store_ok st"
  shows "map (\<lambda>(seq, _, bs). (seq, bs)) (receipt_rows from_seq st) = filter (\<lambda>(seq, _). from_seq \<le> seq) (log_bytes st)"
  by (auto simp: receipt_rows_eq [OF assms] log_bytes_def filter_map comp_def case_prod_unfold drop_Suc)

lemma sorted_split:
  "sorted_wrt (<) (map fst xs) \<Longrightarrow> xs = filter (\<lambda>(k, _). k < (n :: 'a :: linorder)) xs @ filter (\<lambda>(k, _). n \<le> k) xs"
proof (induction xs)
  case (Cons x xs)
  have "filter (\<lambda>(k, _). k < n) xs = []" if "n \<le> fst x"
    using Cons.prems that by (auto simp: filter_empty_conv)
  with Cons show ?case
    by (cases x) (auto simp: not_le)
qed simp

text \<open>What a writer leaves in a ledger: its receipts, and whatever is stored from its next position on.\<close>

lemma writer_log_split:
  assumes "store_ok st0" and "length inbox < 2 ^ 64"
    and "run_writer C inbox (writer_new C key nanos minted False deadline) st0 = (w, st, events, replies)"
  obtains rest where "store_ok st" "log_bytes st = map log_row events @ rest"
    "\<forall>(seq, bs) \<in> set rest. seq = of_nat (length events) \<or> of_nat (length events) < seq \<and> (seq, bs) \<in> set (log_bytes st0)"
    "log_bytes st0 = [] \<longrightarrow> (\<forall>(now, command) \<in> set inbox. indexable (mo_disk now)) \<longrightarrow> rest = []"
proof -
  let ?w = "writer_new C key nanos minted False deadline"
  have rows: "store_ok st" "rows_below (w_seq w) st = map log_row events" "rows_above (w_seq w) st = rows_above (w_seq w) st0"
    using run_writer_rows [OF _ assms(1) _ assms(3)] assms(2) by (simp_all add: rows_below_def)
  have seq: "w_seq w = of_nat (length events)"
    using run_writer_chain [OF _ assms(3)] by simp
  let ?rest = "filter (\<lambda>(k, _). w_seq w \<le> k) (log_bytes st)"
  have "sorted_wrt (<) (map fst (log_bytes st))"
    using rows(1) by (simp add: store_ok_def bt_ok_def log_bytes_def case_prod_unfold comp_def)
  then have "log_bytes st = map log_row events @ ?rest"
    using sorted_split [of "log_bytes st" "w_seq w"] rows(2) by (simp add: rows_below_def)
  moreover have "k = of_nat (length events) \<or> of_nat (length events) < k \<and> (k, bs) \<in> set (log_bytes st0)"
    if "(k, bs) \<in> set ?rest" for k bs
  proof (cases "k = w_seq w")
    case False
    with that have "(k, bs) \<in> set (rows_above (w_seq w) st)"
      by (auto simp: rows_above_def)
    then show ?thesis
      unfolding rows(3) using seq by (auto simp: rows_above_def)
  qed (use seq in simp)
  moreover have "?rest = []" if "log_bytes st0 = []" "\<forall>(now, command) \<in> set inbox. indexable (mo_disk now)"
    using run_writer_nothing_above [OF _ assms(1) that(2) _ _ assms(3)] that(1) assms(2)
    by (fastforce simp: filter_empty_conv)
  ultimately show thesis
    using that [of ?rest] rows(1) by blast
qed


text \<open>
  C31. Every receipt an honest writer hands out is well formed: all fields have their widths, its mode's
  rules hold, it is 325 bytes on the wire, reads back as itself, and verifies under the node's key.
\<close>
theorem writer_receipts_well_formed:
  assumes "crypto_ok C" and "\<forall>(now, command) \<in> set inbox. command_shape command"
    and "run_writer C inbox (writer_new C key nanos minted False deadline) st0 = (w, st, events, replies)"
    and "e \<in> set events"
  shows "signed_shape e \<and> validate (s_receipt e) = Inr () \<and> length (signed_to_bytes e) = SIGNED_RECEIPT_LEN \<and>
    signed_from_bytes (signed_to_bytes e) = Inr e \<and> verify C e (verifying_key C key) = Inr ()"
proof -
  have valid: "signed_valid e"
    using run_writer_shapes [OF assms(1) _ assms(2) _ assms(3)] assms(1,4) by simp
  moreover have "sign C (s_receipt e) key = Inr e"
    using run_writer_chain [OF _ assms(3)] assms(4) by simp
  ultimately show ?thesis
    using signed_from_to_bytes [OF valid] length_signed_to_bytes [of e] sign_verify [OF assms(1)]
    by (simp add: layout)
qed

text \<open>
  C5. What an honest writer broadcasts never counts against it: whatever commands it served and
  whatever its disk did, no two receipts it broadcast pass the program's contradiction check, and a
  watchtower that knows its key and its log raises no fault on any selection of them, mixed with
  entries of other logs or keys. (A receipt that a failed write left in the ledger was not broadcast.)
\<close>
theorem honest_writer_safe:
  assumes "crypto_ok C" and "length inbox < 2 ^ 64" and "\<forall>(now, command) \<in> set inbox. command_shape command"
    and "run_writer C inbox (writer_new C key nanos minted False deadline) st0 = (w, st, events, replies)"
    and "\<forall>e \<in> set seen. accepts C \<lparr>op_key = verifying_key C key, op_log_id = mint_log_id C key nanos minted\<rparr> e = Inr () \<longrightarrow>
      e \<in> set events"
  shows "sc_faults (scan_receipts C seen \<lparr>op_key = verifying_key C key, op_log_id = mint_log_id C key nanos minted\<rparr>) = [] \<and>
    (\<forall>a \<in> set events. \<forall>b \<in> set events. is_err (equivocation_check (message a) (message b)))"
proof
  have chain: "chained C 0 GENESIS_PREV_HASH events" and short: "length events < 2 ^ 64"
    using run_writer_chain [OF _ assms(4)] assms(2) by simp_all
  have nth: "r_seq (s_receipt (events ! i)) = of_nat i" "r_prev_receipt_hash (s_receipt (events ! i)) =
      (if i = 0 then GENESIS_PREV_HASH else receipt_hash C (events ! (i - 1)))" if "i < length events" for i
    using chained_nth [OF chain that] by simp_all
  show "sc_faults (scan_receipts C seen \<lparr>op_key = verifying_key C key, op_log_id = mint_log_id C key nanos minted\<rparr>) = []"
  proof (rule honest_log_clean [where log = events])
    show "r_prev_receipt_hash (s_receipt (events ! 0)) = GENESIS_PREV_HASH" if "events \<noteq> []"
      using nth [of 0] that by simp
    show "r_seq (s_receipt (events ! i)) = of_nat i" if "i < length events" for i
      using nth [OF that] by simp
    show "r_prev_receipt_hash (s_receipt (events ! Suc i)) = receipt_hash C (events ! i)" if "Suc i < length events" for i
      using nth [OF that] by simp
    show "e \<in> set events" if "e \<in> set seen"
      "accepts C \<lparr>op_key = verifying_key C key, op_log_id = mint_log_id C key nanos minted\<rparr> e = Inr ()" for e
      using assms(5) that by blast
  qed (rule short)
  have shape: "receipt_shape (s_receipt e)" if "e \<in> set events" for e
    using run_writer_shapes [OF assms(1) _ assms(3) _ assms(4)] assms(1) that by (simp add: signed_shape_def)
  show "\<forall>a \<in> set events. \<forall>b \<in> set events. is_err (equivocation_check (message a) (message b))"
  proof (intro ballI)
    fix a b
    assume ab: "a \<in> set events" "b \<in> set events"
    have "s_receipt a = s_receipt b" if "r_seq (s_receipt a) = r_seq (s_receipt b)"
      using chained_seq_unique [OF chain short ab that] by simp
    then have "\<not> contradict (message a) (message b)"
      unfolding message_def contradict_receipts [OF shape [OF ab(1)] shape [OF ab(2)]] by blast
    then show "is_err (equivocation_check (message a) (message b))"
      by (cases "equivocation_check (message a) (message b)") (simp_all add: is_err_def equivocation_check_iff)
  qed
qed

text \<open>
  C29. A storage failure between the two writes of a receipt makes an honest node contradict
  itself: if the sequence table takes a receipt and the signature index then fails, the client is
  refused, but the signed receipt can be read from the log, and the next transaction gets the same
  position. The two verify under the node's key and pass the program's contradiction check.
\<close>
theorem storage_failure_equivocates:
  assumes "crypto_ok C" and "honest w" and "writer_shape w"
    and "length sig = 64" "length sig' = 64" "length blockhash = 32" "length blockhash' = 32"
    and "sig \<noteq> ZERO_SIG" "sig' \<noteq> ZERO_SIG" "sig \<noteq> sig'"
    and "dk_put_seq (mo_disk now) (w_seq w) = None" "dk_put_sig (mo_disk now) sig = Some err"
    and "dk_put_seq (mo_disk now') (w_seq w) = None" "dk_put_sig (mo_disk now') sig' = None" "store_ok st" "dk_get disk = None"
  shows "\<exists>a b st' w'' st''.
    stamp C now sig wire blockhash w st = (w, st', Inl (Storage err)) \<and>
    read_receipt disk (w_seq w) st' = Inr (Some (outcome_as_u8 Pending, signed_to_bytes a)) \<and>
    stamp C now' sig' wire' blockhash' w st' = (w'', st'', Inr b) \<and>
    verify C a (verifying_key C (w_key w)) = Inr () \<and> verify C b (verifying_key C (w_key w)) = Inr () \<and>
    \<not> is_err (equivocation_check (message a) (message b))"
proof -
  let ?r = "\<lambda>sig wire blockhash now. \<lparr>r_log_id = w_log_id w, r_mode = Plain, r_seq = w_seq w, r_tx_sig = sig, r_tx_hash = tx_hash_of C wire,
    r_recent_blockhash = blockhash, r_prev_receipt_hash = w_prev_receipt_hash w, r_committer = ZERO_PUBKEY,
    r_ingress_slot = mo_slot now, r_t_ingress_micros = mo_micros now\<rparr>"
  let ?s = "\<lambda>r. \<lparr>s_receipt = r, s_signature = ed_sign C (w_key w) (receipt_to_bytes r)\<rparr>"
  define a b where "a = ?s (?r sig wire blockhash now)" and "b = ?s (?r sig' wire' blockhash' now')"
  have shapes: "receipt_shape (s_receipt a)" "receipt_shape (s_receipt b)"
    using assms(1,3-7) by (simp_all add: a_def b_def receipt_shape_def writer_shape_def tx_hash_of_def crypto_okD layout)
  have signs: "sign C (?r sig wire blockhash now) (w_key w) = Inr a" "sign C (?r sig' wire' blockhash' now') (w_key w) = Inr b"
    using assms(8,9) by (simp_all add: a_def b_def sign_Inr validate_def)
  let ?st = "st\<lparr>receipt_by_seq := bt_insert (w_seq w) (outcome_as_u8 Pending # signed_to_bytes a) (receipt_by_seq st)\<rparr>"
  have 1: "stamp C now sig wire blockhash w st = (w, ?st, Inl (Storage err))"
    using assms(2,11,12) signs(1) by (simp add: stamp_def honest_def write_receipt_def put_seq_def put_sig_def Let_def)
  have 2: "read_receipt disk (w_seq w) ?st = Inr (Some (outcome_as_u8 Pending, signed_to_bytes a))"
    using assms(15,16) by (simp add: read_receipt_def get_seq_def split_receipt_def result_simps map_of_insert store_ok_def)
  have 3: "\<exists>w'' st''. stamp C now' sig' wire' blockhash' w ?st = (w'', st'', Inr b)"
    using assms(2,13,14) signs(2) by (simp add: stamp_def honest_def write_receipt_def put_seq_def put_sig_def Let_def)
  have "contradict (message a) (message b)"
    using assms(10) unfolding message_def contradict_receipts [OF shapes] by (simp add: a_def b_def)
  then have "\<not> is_err (equivocation_check (message a) (message b))"
    using equivocation_check_iff by (metis is_err_def sum.simps(6))
  with 1 2 3 sign_verify [OF assms(1) signs(1)] sign_verify [OF assms(1) signs(2)] show ?thesis
    by blast
qed

end
