(* ===== verification/Promises.thy ===== *)
theory Promises
  imports Honest_Writer
begin

text \<open>
  Positions promised blind, over whole runs of the receipt writer: how many one committer can hold,
  who can fill them and how often, and when they lapse.
\<close>

section \<open>How commands change the promises\<close>

definition promises_ok :: "u64 \<Rightarrow> (bytes \<rightharpoonup> u64 \<times> pending_commit) \<Rightarrow> bool" where
  "promises_ok n m \<longleftrightarrow> (\<forall>h e. m h = Some e \<longrightarrow> fst e < n \<and> pc_tx_hash (snd e) = h) \<and>
     (\<forall>h e h' e'. m h = Some e \<longrightarrow> m h' = Some e' \<longrightarrow> fst e = fst e' \<longrightarrow> h = h')"

definition pend_ok :: "writer \<Rightarrow> bool" where
  "pend_ok w \<longleftrightarrow> bt_ok (w_pending w) \<and> promises_ok (w_seq w) (map_of (w_pending w))"

lemma promises_okD:
  assumes "promises_ok n m" "m h = Some e"
  shows "fst e < n" "pc_tx_hash (snd e) = h" "m h' = Some e' \<Longrightarrow> fst e = fst e' \<Longrightarrow> h = h'"
  using assms unfolding promises_ok_def by blast+

lemma promises_ok_le:
  assumes "promises_ok n m" "m' \<subseteq>\<^sub>m m" "n \<le> n'"
  shows "promises_ok n' m'"
proof -
  have "m h = Some e" if "m' h = Some e" for h e
    using assms(2) that by (auto simp: map_le_def dom_def)
  then show ?thesis
    using assms(1,3) unfolding promises_ok_def by (meson order_less_le_trans)
qed

lemma promises_ok_rec:
  assumes ok: "promises_ok n m" and "n < n'" "pc_tx_hash c = h"
  shows "promises_ok n' (m(h \<mapsto> (n, c)))"
  unfolding promises_ok_def
proof (intro conjI allI impI)
  fix k e
  assume k: "(m(h \<mapsto> (n, c))) k = Some e"
  show "fst e < n'" "pc_tx_hash (snd e) = k"
    using k assms(2,3) promises_okD(1,2) [OF ok, of k e] by (auto split: if_splits)
  fix k' e'
  assume k': "(m(h \<mapsto> (n, c))) k' = Some e'" and same: "fst e = fst e'"
  show "k = k'"
    using k k' same promises_okD(1) [OF ok, of k e] promises_okD(1) [OF ok, of k' e'] promises_okD(3) [OF ok, of k e k' e']
    by (auto split: if_splits)
qed

definition promised :: "writer \<Rightarrow> u64 set" where
  "promised w = {n. \<exists>h c. map_of (w_pending w) h = Some (n, c)}"

lemma promises_ok_claim:
  assumes "promises_ok n m" "m h = Some e"
  shows "(m(h := None)) h' \<noteq> Some (fst e, c)"
  using promises_okD(3) [OF assms, of h' "(fst e, c)"] by auto

definition ticket_of :: "u64 \<Rightarrow> bytes \<Rightarrow> bytes \<Rightarrow> u64 \<Rightarrow> signed_receipt \<Rightarrow> bool" where
  "ticket_of n h c slot e \<longleftrightarrow> r_mode (s_receipt e) = Commit \<and> r_seq (s_receipt e) = n \<and> r_tx_hash (s_receipt e) = h \<and>
     r_committer (s_receipt e) = c \<and> r_ingress_slot (s_receipt e) = slot"

text \<open>What a command may do to the promises: add one at the current position, or only take away.\<close>

lemma handle_pending:
  assumes "handle C now command w st = (w', st', es, reply)" and "bt_ok (w_pending w)"
  obtains (kept) "map_of (w_pending w') \<subseteq>\<^sub>m map_of (w_pending w)" "w_seq w' = w_seq w \<or> w_seq w' = w_seq w + 1"
      "bt_ok (w_pending w')" "\<forall>e. reply \<noteq> Revealed (Some e)" "w_deadline w' = w_deadline w"
  | (recorded) h c e where "command = CommitRequest h c" "es = [e]" "ticket_of (w_seq w) h c (mo_slot now) e"
      "w_pending w' = pending_record (w_seq w) h c (mo_slot now) (w_pending w)" "w_seq w' = w_seq w + 1"
      "outstanding_for c (w_pending w) < rd_max_outstanding (w_deadline w)" "\<forall>e. reply \<noteq> Revealed (Some e)"
      "w_deadline w' = w_deadline w"
  | (filled) h sig e where "command = RevealRequest h sig" "reply = Revealed (Some e)" "map_of (w_pending w) h = Some e"
      "map_of (w_pending w') = (map_of (w_pending w))(h := None)" "w_seq w' = w_seq w" "bt_ok (w_pending w')"
      "w_deadline w' = w_deadline w"
proof (cases command)
  case (StampRequest tx_sig wire blockhash)
  with assms show thesis
    by (intro kept)
      (auto simp: handle_stamp_def broadcast_def stamp_def Let_def split: prod.splits sum.splits option.splits if_splits)
next
  case (CommitRequest h c)
  obtain v t r where committed: "commit C now h c w st = (v, t, r)"
    using prod_cases3 by blast
  then show thesis
  proof (cases rule: commit_cases)
    case (refused error)
    with assms CommitRequest committed show thesis
      by (intro kept) (auto simp: handle_commit_def broadcast_def split: option.splits)
  next
    case (issued e)
    with assms CommitRequest committed show thesis
      by (intro recorded [OF CommitRequest, of e])
        (auto simp: handle_commit_def broadcast_def ticket_of_def next_statement_def)
  qed
next
  case (RevealRequest h sig)
  show thesis
  proof (cases "map_of (w_pending w) h")
    case None
    with assms RevealRequest show thesis
      by (intro kept) (auto simp: handle_reveal_def pending_claim_def map_of_remove bt.ok_del map_le_def split: if_splits)
  next
    case (Some e)
    with assms RevealRequest show thesis
      by (intro filled [OF RevealRequest]) (auto simp: handle_reveal_def pending_claim_def map_of_remove bt.ok_del)
  qed
next
  case (RecordOutcome n oc)
  with assms show thesis
    by (intro kept) (auto simp: handle_outcome_def)
next
  case Sweep
  let ?cutoff = "saturating_sub (mo_slot now) (rd_slots (w_deadline w))"
  have "map_of (snd (pending_expire ?cutoff (w_pending w))) \<subseteq>\<^sub>m map_of (w_pending w)"
    by (auto simp: map_le_def pend.view_expire [OF assms(2)] split: option.splits if_splits)
  with assms Sweep pend.ok_expire [OF assms(2), of ?cutoff] show thesis
    by (intro kept) (auto simp: handle_sweep_def split: prod.splits)
qed

lemma handle_pend_ok:
  assumes "handle C now command w st = (w', st', es, reply)" and ok: "pend_ok w" and "Suc (unat (w_seq w)) < 2 ^ 64"
  shows "pend_ok w' \<and> w_seq w \<le> w_seq w' \<and> unat (w_seq w') \<le> Suc (unat (w_seq w)) \<and> w_deadline w' = w_deadline w \<and>
    (\<forall>n \<in> promised w'. n \<in> promised w \<or> w_seq w \<le> n \<and> n < w_seq w')"
proof -
  have bt: "bt_ok (w_pending w)"
    using ok by (simp add: pend_ok_def)
  have up: "unat (w_seq w + 1) = Suc (unat (w_seq w))" "w_seq w < w_seq w + 1"
    using assms(3) by (simp_all add: unat_word_ariths word_less_nat_alt)
  from assms(1) bt show ?thesis
  proof (cases rule: handle_pending)
    case kept
    have sub: "map_of (w_pending w) h = Some e" if "map_of (w_pending w') h = Some e" for h e
      using kept(1) that by (auto simp: map_le_def dom_def)
    have le: "w_seq w \<le> w_seq w'"
      using kept(2) up(2) by auto
    have "pend_ok w'"
      using ok kept(1,3) le promises_ok_le unfolding pend_ok_def by blast
    moreover have "promised w' \<subseteq> promised w"
      unfolding promised_def using sub by blast
    ultimately show ?thesis
      using le kept(2,5) up(1) by auto
  next
    case (recorded h c e)
    note new = pend.view_rec [OF bt, of "w_seq w" h c "mo_slot now"]
    have "pend_ok w'"
      using ok up(2) pend.ok_rec [OF bt] promises_ok_rec unfolding pend_ok_def recorded(4,5) new by simp
    with recorded up new show ?thesis
      by (auto simp: promised_def split: if_splits)
  next
    case (filled h sig e)
    moreover have "(map_of (w_pending w))(h := None) \<subseteq>\<^sub>m map_of (w_pending w)"
      by (simp add: map_le_def)
    ultimately have "pend_ok w'"
      using ok promises_ok_le unfolding pend_ok_def by (metis order_refl)
    with filled show ?thesis
      by (auto simp: promised_def split: if_splits)
  qed
qed

section \<open>Runs\<close>

definition filled_of :: "writer_reply \<Rightarrow> (u64 \<times> pending_commit) option" where
  "filled_of reply = (case reply of Revealed (Some e) \<Rightarrow> Some e | _ \<Rightarrow> None)"

text \<open>A promise has a ticket: it is pending already, or a ticket for it is broadcast.\<close>

definition has_ticket :: "writer \<Rightarrow> signed_receipt list \<Rightarrow> u64 \<times> pending_commit \<Rightarrow> bool" where
  "has_ticket w events p \<longleftrightarrow> (\<exists>h. map_of (w_pending w) h = Some p) \<or>
     (\<exists>e \<in> set events. ticket_of (fst p) (pc_tx_hash (snd p)) (pc_committer (snd p)) (pc_committed_at_slot (snd p)) e)"

lemma handle_has_ticket:
  assumes "handle C now command w st = (v, t, es, reply)" "bt_ok (w_pending w)" "has_ticket v later p"
  shows "has_ticket w (es @ later) p"
  using assms(1,2)
proof (cases rule: handle_pending)
  case kept
  have "map_of (w_pending w) h = Some e" if "map_of (w_pending v) h = Some e" for h e
    using kept(1) that by (auto simp: map_le_def dom_def)
  with assms(3) show ?thesis
    unfolding has_ticket_def set_append by blast
next
  case (recorded h c e)
  with assms(3) show ?thesis
    by (auto simp: has_ticket_def pend.view_rec [OF assms(2)] split: if_splits)
next
  case (filled h sig e)
  with assms(3) show ?thesis
    unfolding has_ticket_def by (auto split: if_splits)
qed

lemma run_writer_promises:
  assumes "run_writer C inbox w st = (w', st', events, replies)" and "pend_ok w"
    and "unat (w_seq w) + length inbox < 2 ^ 64"
  shows "pend_ok w' \<and> w_deadline w' = w_deadline w \<and>
    distinct (map fst (List.map_filter filled_of replies)) \<and>
    (\<forall>p \<in> set (List.map_filter filled_of replies). (fst p \<in> promised w \<or> w_seq w \<le> fst p) \<and> has_ticket w events p)"
  using assms
proof (induction inbox arbitrary: w st events replies)
  case (Cons c inbox)
  obtain now command where c: "c = (now, command)"
    by fastforce
  from Cons.prems(1) c obtain v t es reply later rest where step: "handle C now command w st = (v, t, es, reply)"
    and run: "run_writer C inbox v t = (w', st', later, rest)" and out: "events = es @ later" "replies = reply # rest"
    by (auto elim: run_writer_Cons simp del: run_writer.simps)
  have bt: "bt_ok (w_pending w)" and ok: "promises_ok (w_seq w) (map_of (w_pending w))"
    using Cons.prems(2) by (simp_all add: pend_ok_def)
  have one: "pend_ok v" "w_seq w \<le> w_seq v" "unat (w_seq v) \<le> Suc (unat (w_seq w))" "w_deadline v = w_deadline w"
    "\<forall>n \<in> promised v. n \<in> promised w \<or> w_seq w \<le> n \<and> n < w_seq v"
    using handle_pend_ok [OF step Cons.prems(2)] Cons.prems(3) by simp_all
  have ih: "pend_ok w' \<and> w_deadline w' = w_deadline v \<and> distinct (map fst (List.map_filter filled_of rest)) \<and>
      (\<forall>p \<in> set (List.map_filter filled_of rest). (fst p \<in> promised v \<or> w_seq v \<le> fst p) \<and> has_ticket v later p)"
    using Cons.IH [OF run one(1)] one(3) Cons.prems(3) by simp
  have later: "(fst p \<in> promised w \<or> w_seq w \<le> fst p) \<and> has_ticket w events p"
    if "p \<in> set (List.map_filter filled_of rest)" for p
  proof -
    have p: "fst p \<in> promised v \<or> w_seq v \<le> fst p" "has_ticket v later p"
      using ih that by simp_all
    have "fst p \<in> promised w \<or> w_seq w \<le> fst p"
      using p(1) one(5) order_trans [OF one(2), of "fst p"] by blast
    with handle_has_ticket [OF step bt p(2)] out(1) show ?thesis
      by simp
  qed
  show ?case
  proof (cases "filled_of reply")
    case None
    then show ?thesis
      using ih later one(4) out(2) by (simp add: map_filter_simps)
  next
    case (Some e)
    then have reply: "reply = Revealed (Some e)"
      by (auto simp: filled_of_def split: writer_reply.splits option.splits)
    from step bt show ?thesis
    proof (cases rule: handle_pending)
      case (filled h sig e')
      then have e: "map_of (w_pending w) h = Some e"
        using reply by simp
      have "fst e \<notin> promised v"
        using promises_ok_claim [OF ok e] unfolding promised_def filled(4) by blast
      moreover have "fst e < w_seq w"
        by (rule promises_okD(1) [OF ok e])
      ultimately have "fst p \<noteq> fst e" if "p \<in> set (List.map_filter filled_of rest)" for p
        using ih filled(5) that by fastforce
      then have "fst e \<notin> fst ` set (List.map_filter filled_of rest)"
        unfolding image_iff by metis
      moreover have "fst e \<in> promised w"
        using e unfolding promised_def by (cases e) auto
      moreover have "has_ticket w events e"
        using e unfolding has_ticket_def by blast
      ultimately show ?thesis
        using ih later one(4) out(2) Some by (simp add: map_filter_simps)
    qed (use reply in auto)
  qed
qed (simp add: map_filter_simps)

lemma pend_ok_new [simp]: "pend_ok (writer_new C key nanos minted eq deadline)"
  by (simp add: pend_ok_def promises_ok_def)

lemma run_writer_bounded:
  assumes "run_writer C inbox w st = (w', st', events, replies)" and "bt_ok (w_pending w)"
    and "\<forall>c. outstanding_for c (w_pending w) \<le> rd_max_outstanding (w_deadline w)"
  shows "\<forall>c. outstanding_for c (w_pending w') \<le> rd_max_outstanding (w_deadline w)"
  using assms
proof (induction inbox arbitrary: w st events replies)
  case (Cons c inbox)
  obtain now command where c: "c = (now, command)"
    by fastforce
  from Cons.prems(1) c obtain v t es reply later rest where step: "handle C now command w st = (v, t, es, reply)"
    and run: "run_writer C inbox v t = (w', st', later, rest)"
    by (auto elim: run_writer_Cons simp del: run_writer.simps)
  note bt = Cons.prems(2)
  have "bt_ok (w_pending v) \<and> w_deadline v = w_deadline w \<and>
      (\<forall>d. outstanding_for d (w_pending v) \<le> rd_max_outstanding (w_deadline w))"
    using step bt
  proof (cases rule: handle_pending)
    case kept
    have "outstanding_for d (w_pending v) \<le> rd_max_outstanding (w_deadline w)" for d
      by (rule le_trans [OF pend.count_mono [OF bt kept(3,1)] spec [OF Cons.prems(3)]])
    with kept show ?thesis
      by simp
  next
    case (recorded h d e)
    have "outstanding_for x (w_pending v) \<le> rd_max_outstanding (w_deadline w)" for x
      using pend.count_rec [OF bt, of x "w_seq w" h d "mo_slot now"] recorded(4,6) spec [OF Cons.prems(3), of x]
      by (auto split: if_splits)
    then show ?thesis
      using recorded(4,8) pend.ok_rec [OF bt] by simp
  next
    case (filled h sig e)
    then have "map_of (w_pending v) \<subseteq>\<^sub>m map_of (w_pending w)"
      by (simp add: map_le_def)
    then have "outstanding_for d (w_pending v) \<le> rd_max_outstanding (w_deadline w)" for d
      by (rule le_trans [OF pend.count_mono [OF bt filled(6)] spec [OF Cons.prems(3)]])
    with filled show ?thesis
      by simp
  qed
  then have v: "bt_ok (w_pending v)" "w_deadline v = w_deadline w"
    "\<forall>d. outstanding_for d (w_pending v) \<le> rd_max_outstanding (w_deadline v)"
    by simp_all
  show ?case
    using Cons.IH [OF run v(1,3)] v(2) by simp
qed simp

text \<open>A position is only ever handed to a reveal of the contents it was promised to.\<close>

lemma run_writer_reveals:
  assumes "run_writer C inbox w st = (w', st', events, replies)" and "pend_ok w" and "unat (w_seq w) + length inbox < 2 ^ 64"
  shows "\<forall>((now, command), reply) \<in> set (zip inbox replies). \<forall>p. reply = Revealed (Some p) \<longrightarrow>
    p \<in> set (List.map_filter filled_of replies) \<and> (\<exists>sig. command = RevealRequest (pc_tx_hash (snd p)) sig)"
  using assms
proof (induction inbox arbitrary: w st events replies)
  case (Cons c inbox)
  obtain now command where c: "c = (now, command)"
    by fastforce
  from Cons.prems(1) c obtain v t es reply later rest where step: "handle C now command w st = (v, t, es, reply)"
    and run: "run_writer C inbox v t = (w', st', later, rest)" and out: "replies = reply # rest"
    by (auto elim: run_writer_Cons simp del: run_writer.simps)
  have bt: "bt_ok (w_pending w)" and ok: "promises_ok (w_seq w) (map_of (w_pending w))"
    using Cons.prems(2) by (simp_all add: pend_ok_def)
  have "pend_ok v" "unat (w_seq v) \<le> Suc (unat (w_seq w))"
    using handle_pend_ok [OF step Cons.prems(2)] Cons.prems(3) by simp_all
  then have ih: "\<forall>((now, command), reply) \<in> set (zip inbox rest). \<forall>p. reply = Revealed (Some p) \<longrightarrow>
      p \<in> set (List.map_filter filled_of rest) \<and> (\<exists>sig. command = RevealRequest (pc_tx_hash (snd p)) sig)"
    using Cons.IH [OF run] Cons.prems(3) by simp
  have "\<exists>sig. command = RevealRequest (pc_tx_hash (snd p)) sig" if "reply = Revealed (Some p)" for p
    using step bt
  proof (cases rule: handle_pending)
    case (filled h sig e)
    then show ?thesis
      using promises_okD(2) [OF ok filled(3)] that by auto
  qed (use that in auto)
  moreover have "set (List.map_filter filled_of rest) \<subseteq> set (List.map_filter filled_of replies)"
    by (auto simp: out map_filter_simps split: option.splits)
  moreover have "p \<in> set (List.map_filter filled_of replies)" if "reply = Revealed (Some p)" for p
    using that by (simp add: out map_filter_simps filled_of_def)
  ultimately show ?case
    using ih c out by fastforce
qed simp

section \<open>Properties\<close>

text \<open>
  C24. A promised position is filled at most once, and only with the contents it was promised to: over
  any run, the positions handed out to reveals are pairwise different, and whenever a reveal is given a
  position, a ticket was broadcast for that position which names the very hash that is revealed, and
  the committer and slot of the answer. No committer ever holds more positions open than the limit.
\<close>
theorem promises_kept_once:
  assumes "run_writer C inbox (writer_new C key nanos minted eq deadline) st0 = (w, st, events, replies)"
    and "length inbox < 2 ^ 64"
  shows "distinct (map fst (List.map_filter filled_of replies)) \<and>
    (\<forall>((now, command), reply) \<in> set (zip inbox replies). \<forall>n c. reply = Revealed (Some (n, c)) \<longrightarrow>
      (\<exists>e \<in> set events. \<exists>sig. command = RevealRequest (r_tx_hash (s_receipt e)) sig \<and> r_mode (s_receipt e) = Commit \<and>
        r_seq (s_receipt e) = n \<and> r_committer (s_receipt e) = pc_committer c \<and> r_ingress_slot (s_receipt e) = pc_committed_at_slot c)) \<and>
    (\<forall>c. outstanding_for c (w_pending w) \<le> rd_max_outstanding deadline)"
proof (intro conjI)
  note run = run_writer_promises [OF assms(1) pend_ok_new]
  show "distinct (map fst (List.map_filter filled_of replies))"
    using run assms(2) by simp
  have ticket: "\<exists>e \<in> set events. ticket_of (fst p) (pc_tx_hash (snd p)) (pc_committer (snd p)) (pc_committed_at_slot (snd p)) e"
    if "p \<in> set (List.map_filter filled_of replies)" for p
    using run assms(2) that by (simp add: has_ticket_def)
  show "\<forall>((now, command), reply) \<in> set (zip inbox replies). \<forall>n c. reply = Revealed (Some (n, c)) \<longrightarrow>
      (\<exists>e \<in> set events. \<exists>sig. command = RevealRequest (r_tx_hash (s_receipt e)) sig \<and> r_mode (s_receipt e) = Commit \<and>
        r_seq (s_receipt e) = n \<and> r_committer (s_receipt e) = pc_committer c \<and> r_ingress_slot (s_receipt e) = pc_committed_at_slot c)"
  proof (clarify)
    fix now command n c
    assume "((now, command), Revealed (Some (n, c))) \<in> set (zip inbox replies)"
    then have "(n, c) \<in> set (List.map_filter filled_of replies)" "\<exists>sig. command = RevealRequest (pc_tx_hash c) sig"
      using run_writer_reveals [OF assms(1) pend_ok_new] assms(2) by fastforce+
    then show "\<exists>e \<in> set events. \<exists>sig. command = RevealRequest (r_tx_hash (s_receipt e)) sig \<and> r_mode (s_receipt e) = Commit \<and>
        r_seq (s_receipt e) = n \<and> r_committer (s_receipt e) = pc_committer c \<and> r_ingress_slot (s_receipt e) = pc_committed_at_slot c"
      using ticket [of "(n, c)"] unfolding ticket_of_def fst_conv snd_conv by metis
  qed
  show "\<forall>c. outstanding_for c (w_pending w) \<le> rd_max_outstanding deadline"
    using run_writer_bounded [OF assms(1)] by (simp add: outstanding_for_def)
qed

text \<open>
  C30. Anyone can push back a position promised to someone else: the hash of a commitment is in
  its broadcast ticket, and committing to the same hash again, by any committer, moves the promise
  to the new position. Revealing the contents then fills the later position, and the earlier one
  is never filled, whatever follows.
\<close>
theorem recommit_displaces:
  assumes "pend_ok w" and "map_of (w_pending w) h = Some (n, c)"
    and "handle C now (CommitRequest h c') w st = (w', st', es, Stamped (Inr e))"
    and "unat (w_seq w) + length inbox + 1 < 2 ^ 64"
    and "run_writer C inbox w' st' = (w'', st'', events, replies)"
  shows "n < w_seq w \<and> n \<notin> fst ` set (List.map_filter filled_of replies) \<and>
    (\<forall>now' sig. \<exists>v t. handle C now' (RevealRequest h sig) w' st' =
      (v, t, [], Revealed (Some (w_seq w, \<lparr>pc_tx_hash = h, pc_committer = c', pc_committed_at_slot = mo_slot now\<rparr>))))"
proof -
  have bt: "bt_ok (w_pending w)" and ok: "promises_ok (w_seq w) (map_of (w_pending w))"
    using assms(1) by (simp_all add: pend_ok_def)
  obtain v t r where committed: "commit C now h c' w st = (v, t, r)"
    using prod_cases3 by blast
  have n: "n < w_seq w"
    using promises_okD(1) [OF ok assms(2)] by simp
  have step: "pend_ok w' \<and> w_seq w \<le> w_seq w' \<and> unat (w_seq w') \<le> Suc (unat (w_seq w))"
    using handle_pend_ok [OF assms(3,1)] assms(4) by simp
  from committed have pend: "w_pending w' = pending_record (w_seq w) h c' (mo_slot now) (w_pending w)"
    by (cases rule: commit_cases)
      (use assms(3) committed in \<open>auto simp: handle_commit_def broadcast_def split: option.splits\<close>)
  note new = pend.view_rec [OF bt, of "w_seq w" h c' "mo_slot now", folded pend]
  have "n \<notin> promised w'"
    using n promises_okD(3) [OF ok assms(2)] by (auto simp: promised_def new split: if_splits)
  then have "n \<notin> fst ` set (List.map_filter filled_of replies)"
    using run_writer_promises [OF assms(5)] step assms(4) n by (auto dest!: bspec)
  moreover have "\<exists>v t. handle C now' (RevealRequest h sig) w' st' =
      (v, t, [], Revealed (Some (w_seq w, \<lparr>pc_tx_hash = h, pc_committer = c', pc_committed_at_slot = mo_slot now\<rparr>)))" for now' sig
    by (simp add: handle_reveal_def pending_claim_def new)
  ultimately show ?thesis
    using n by blast
qed

text \<open>
  The node and the watchtower agree on when a promise has lapsed: with the deadline read from
  the same variable, the sweep at a slot drops an unfilled promise exactly when the watchtower at
  that slot reports its ticket as never revealed.
\<close>
theorem expiry_agrees:
  assumes "bt_ok p" and "map_of p h = Some (n, c)"
    and "r_mode (s_receipt e) = Commit" and "r_ingress_slot (s_receipt e) = pc_committed_at_slot c"
    and "execution_find executed e = None"
  shows "(check_delivery e executed head (patience_from_env var) =
      Fault (NotRevealed e head (saturating_sub head (r_ingress_slot (s_receipt e))))) \<longleftrightarrow>
    map_of (snd (pending_expire (saturating_sub head (rd_slots (deadline_from_env var limit))) p)) h = None"
proof -
  have "pt_reveal_slots (patience_from_env var) = rd_slots (deadline_from_env var limit)"
    by (simp add: patience_from_env_def deadline_from_env_def patience_default_def deadline_default_def
        deadline_read_def Let_def split: option.splits)
  moreover have "saturating_sub head s > d \<longleftrightarrow> s < saturating_sub head d" for s d :: u64
    by (auto simp: saturating_sub_def word_less_nat_alt word_le_nat_alt unat_sub_if_size split: if_splits)
  ultimately show ?thesis
    using assms by (simp add: check_delivery_def pend.view_expire Let_def)
qed

end
