(* ===== verification/Demo_Writer.thy ===== *)
theory Demo_Writer
  imports Promises Demo_Watch
begin

text \<open>
  A small run of the receipt writer on which its properties are shown to apply: a plain receipt, a
  blind one, a second commitment to the same contents and its reveal.
\<close>

definition demo_moment :: moment where
  "demo_moment = \<lparr>mo_slot = 10, mo_micros = 5, mo_disk = sound_disk\<rparr>"

definition demo_writer :: writer where
  "demo_writer = writer_new demo_crypto [1] 0 0 False deadline_default"

abbreviation demo_stamp :: writer_command where
  "demo_stamp \<equiv> StampRequest (replicate 64 7) [1] (replicate 32 3)"

abbreviation demo_commit :: "u8 \<Rightarrow> writer_command" where
  "demo_commit c \<equiv> CommitRequest (replicate 32 4) (replicate 32 c)"

lemma sound_disk_simps [simp]:
  "dk_put_seq sound_disk n = None" "dk_put_sig sound_disk s = None" "dk_get sound_disk = None" "indexable sound_disk"
  by (simp_all add: sound_disk_def indexable_def)

lemma demo_write [simp]:
  "write_receipt sound_disk n None oc bs st = (st\<lparr>receipt_by_seq := bt_insert n (oc # bs) (receipt_by_seq st)\<rparr>, Inr ())"
  "write_receipt sound_disk n (Some s) oc bs st =
     (st\<lparr>receipt_by_seq := bt_insert n (oc # bs) (receipt_by_seq st), receipt_by_sig := bt_insert s (u64_be n) (receipt_by_sig st)\<rparr>, Inr ())"
  by (simp_all add: write_receipt_def put_seq_def put_sig_def)

lemma demo_stamp_run:
  assumes "honest w"
  shows "\<exists>w' st' e. handle C demo_moment demo_stamp w st = (w', st', [e], Stamped (Inr e)) \<and> next_statement C w e"
proof -
  obtain v t r where stamped: "stamp C demo_moment (replicate 64 7) [1] (replicate 32 3) w st = (v, t, r)"
    using prod_cases3 by blast
  from assms stamped obtain e where "r = Inr e" "next_statement C w e" "w_published v = Some e"
    by (cases rule: stamp_cases)
      (use assms stamped in \<open>auto simp: stamp_def honest_def sign_def validate_def ZERO_SIG_def demo_moment_def result_simps Let_def\<close>)
  then show ?thesis
    using stamped by (simp add: handle_stamp_def broadcast_def)
qed

lemma demo_run:
  "\<exists>w st e. run_writer demo_crypto [(demo_moment, demo_stamp)] demo_writer empty_store = (w, st, [e], [Stamped (Inr e)])"
proof -
  have "honest demo_writer"
    by (simp add: demo_writer_def)
  from demo_stamp_run [OF this, of demo_crypto empty_store] show ?thesis
    by (auto simp del: handle.simps)
qed

lemma demo_commit_run:
  assumes "\<not> outstanding_for (replicate 32 c) (w_pending w) \<ge> rd_max_outstanding (w_deadline w)" and "c \<noteq> 0"
  shows "\<exists>w' st' e. handle C demo_moment (demo_commit c) w st = (w', st', [e], Stamped (Inr e)) \<and>
    w_pending w' = pending_record (w_seq w) (replicate 32 4) (replicate 32 c) 10 (w_pending w) \<and> w_seq w' = w_seq w + 1 \<and>
    w_deadline w' = w_deadline w"
  using assms
  by (auto simp: commit_def handle_commit_def broadcast_def sign_def validate_def ZERO_SIG_def ZERO_PUBKEY_def ZERO_HASH_def demo_moment_def
      result_simps Let_def layout split: option.splits)

section \<open>Witnesses\<close>


theorem writer_receipts_well_formed_witness:
  "\<exists>w st e. run_writer demo_crypto [(demo_moment, demo_stamp)] demo_writer empty_store = (w, st, [e], [Stamped (Inr e)]) \<and>
    signed_from_bytes (signed_to_bytes e) = Inr e"
proof -
  obtain w st e where run: "run_writer demo_crypto [(demo_moment, demo_stamp)] demo_writer empty_store = (w, st, [e], [Stamped (Inr e)])"
    using demo_run by blast
  from writer_receipts_well_formed [OF demo_crypto_ok _ run [unfolded demo_writer_def], of e]
  have "signed_from_bytes (signed_to_bytes e) = Inr e"
    by (simp add: command_shape_def)
  with run show ?thesis
    by blast
qed

theorem honest_writer_safe_witness:
  "\<exists>w st e. run_writer demo_crypto [(demo_moment, demo_stamp)] demo_writer empty_store = (w, st, [e], [Stamped (Inr e)]) \<and>
    sc_faults (scan_receipts demo_crypto [e, e]
      \<lparr>op_key = verifying_key demo_crypto [1], op_log_id = mint_log_id demo_crypto [1] 0 0\<rparr>) = []"
proof -
  obtain w st e where run: "run_writer demo_crypto [(demo_moment, demo_stamp)] demo_writer empty_store = (w, st, [e], [Stamped (Inr e)])"
    using demo_run by blast
  from honest_writer_safe [OF demo_crypto_ok _ _ run [unfolded demo_writer_def], of "[e, e]"]
  have "sc_faults (scan_receipts demo_crypto [e, e]
      \<lparr>op_key = verifying_key demo_crypto [1], op_log_id = mint_log_id demo_crypto [1] 0 0\<rparr>) = []"
    by (simp add: command_shape_def)
  with run show ?thesis
    by blast
qed

theorem storage_failure_equivocates_witness:
  "\<exists>a b. a \<noteq> b \<and> \<not> is_err (equivocation_check (message a) (message b)) \<and>
    verify demo_crypto a (verifying_key demo_crypto [1]) = Inr () \<and> verify demo_crypto b (verifying_key demo_crypto [1]) = Inr ()"
proof -
  let ?failing = "demo_moment\<lparr>mo_disk := sound_disk\<lparr>dk_put_sig := \<lambda>_. Some TryFromSliceError\<rparr>\<rparr>"
  have facts: "honest demo_writer" "writer_shape demo_writer" "w_key demo_writer = [1]"
    by (simp_all add: demo_writer_def demo_crypto_ok)
  obtain a b where ab: "verify demo_crypto a (verifying_key demo_crypto [1]) = Inr ()" "verify demo_crypto b (verifying_key demo_crypto [1]) = Inr ()"
    "\<not> is_err (equivocation_check (message a) (message b))"
    using storage_failure_equivocates [OF demo_crypto_ok facts(1,2), of "replicate 64 7" "replicate 64 8" "replicate 32 3" "replicate 32 3"
        ?failing TryFromSliceError demo_moment empty_store sound_disk "[1]" "[2]"]
    by (auto simp: ZERO_SIG_def demo_moment_def facts sound_disk_def)
  moreover have "a \<noteq> b"
    using ab(3) by (auto simp: equivocation_check_def result_simps is_err_def split: sum.splits if_splits)
  ultimately show ?thesis
    by blast
qed

theorem promises_kept_once_witness:
  "\<exists>w st events replies.
    run_writer demo_crypto [(demo_moment, demo_commit 5), (demo_moment, RevealRequest (replicate 32 4) (replicate 64 7))]
      demo_writer empty_store = (w, st, events, replies) \<and>
    (\<exists>c. replies ! 1 = Revealed (Some (0, c))) \<and>
    (\<exists>e \<in> set events. r_mode (s_receipt e) = Commit \<and> r_seq (s_receipt e) = 0 \<and> r_tx_hash (s_receipt e) = replicate 32 4)"
proof -
  have "\<not> outstanding_for (replicate 32 5) (w_pending demo_writer) \<ge> rd_max_outstanding (w_deadline demo_writer)"
    by (simp add: demo_writer_def writer_new_def deadline_default_def outstanding_for_def)
  from demo_commit_run [OF this, of demo_crypto empty_store] obtain w st e where
    first: "handle demo_crypto demo_moment (demo_commit 5) demo_writer empty_store = (w, st, [e], Stamped (Inr e))"
      and pend: "w_pending w = pending_record (w_seq demo_writer) (replicate 32 4) (replicate 32 5) 10 (w_pending demo_writer)"
    by auto
  obtain w' st' es replies where
    second: "run_writer demo_crypto [(demo_moment, RevealRequest (replicate 32 4) (replicate 64 7))] w st = (w', st', es, replies)"
    using prod_cases4 by blast
  from first second have run: "run_writer demo_crypto [(demo_moment, demo_commit 5), (demo_moment, RevealRequest (replicate 32 4) (replicate 64 7))]
      demo_writer empty_store = (w', st', e # es, Stamped (Inr e) # replies)"
    by simp
  have "replies = [Revealed (Some (0, \<lparr>pc_tx_hash = replicate 32 4, pc_committer = replicate 32 5, pc_committed_at_slot = 10\<rparr>))]"
    using second pend
    by (auto simp: handle_reveal_def pending_claim_def pending_record_def demo_writer_def writer_new_def split: prod.splits)
  with promises_kept_once [OF run [unfolded demo_writer_def]] run show ?thesis
    by auto
qed

theorem recommit_displaces_witness:
  "\<exists>w st w' st' e.
    handle demo_crypto demo_moment (demo_commit 5) demo_writer empty_store = (w, st, [e], Stamped (Inr e)) \<and>
    fst ` snd ` set (w_pending w) = {0} \<and>
    (\<exists>v t p. handle demo_crypto demo_moment (demo_commit 6) w st = (w', st', [p], Stamped (Inr p)) \<and>
      handle demo_crypto demo_moment (RevealRequest (replicate 32 4) (replicate 64 7)) w' st' =
        (v, t, [], Revealed (Some (1, \<lparr>pc_tx_hash = replicate 32 4, pc_committer = replicate 32 6, pc_committed_at_slot = 10\<rparr>))))"
proof -
  have fresh: "w_pending demo_writer = []" "w_seq demo_writer = 0" "w_deadline demo_writer = deadline_default"
    by (simp_all add: demo_writer_def writer_new_def)
  have free: "\<not> outstanding_for (replicate 32 5) (w_pending demo_writer) \<ge> rd_max_outstanding (w_deadline demo_writer)"
    by (simp add: fresh deadline_default_def outstanding_for_def)
  from demo_commit_run [OF this, of demo_crypto empty_store] obtain w st e where
    first: "handle demo_crypto demo_moment (demo_commit 5) demo_writer empty_store = (w, st, [e], Stamped (Inr e))"
      and pend: "w_pending w = [(replicate 32 4, 0, \<lparr>pc_tx_hash = replicate 32 4, pc_committer = replicate 32 5, pc_committed_at_slot = 10\<rparr>)]"
      and seq: "w_seq w = 1" and deadline: "w_deadline w = deadline_default"
    by (auto simp: fresh pending_record_def simp del: handle.simps)
  have "\<not> outstanding_for (replicate 32 6) (w_pending w) \<ge> rd_max_outstanding (w_deadline w)"
    by (simp add: pend deadline deadline_default_def outstanding_for_def)
  from demo_commit_run [OF this, of demo_crypto st] obtain w' st' p where
    again: "handle demo_crypto demo_moment (demo_commit 6) w st = (w', st', [p], Stamped (Inr p))"
    by (auto simp del: handle.simps)
  have ok: "pend_ok w"
    using handle_pend_ok [OF first] pend_ok_new by (simp add: demo_writer_def)
  have pending: "map_of (w_pending w) (replicate 32 4) =
      Some (0, \<lparr>pc_tx_hash = replicate 32 4, pc_committer = replicate 32 5, pc_committed_at_slot = 10\<rparr>)"
    by (simp add: pend)
  have "unat (w_seq w) + length [] + 1 < 2 ^ 64" and "run_writer demo_crypto [] w' st' = (w', st', [], [])"
    by (simp_all add: seq)
  from recommit_displaces [OF ok pending again this]
  obtain v t where "handle demo_crypto demo_moment (RevealRequest (replicate 32 4) (replicate 64 7)) w' st' =
      (v, t, [], Revealed (Some (1, \<lparr>pc_tx_hash = replicate 32 4, pc_committer = replicate 32 6, pc_committed_at_slot = 10\<rparr>)))"
    by (elim conjE allE [of _ demo_moment] allE [of _ "replicate 64 7"])
      (auto simp: seq demo_moment_def simp del: handle.simps)
  with first again pend show ?thesis
    by (force simp del: handle.simps)
qed

theorem expiry_agrees_witness:
  "map_of (snd (pending_expire (saturating_sub 200 (rd_slots (deadline_from_env None None)))
      [(replicate 32 4, 0, \<lparr>pc_tx_hash = replicate 32 4, pc_committer = replicate 32 5, pc_committed_at_slot = 10\<rparr>)]))
    (replicate 32 4) = None"
proof -
  let ?e = "\<lparr>s_receipt = (demo_receipt 7 1)\<lparr>r_mode := Commit, r_ingress_slot := 10\<rparr>, s_signature = []\<rparr>"
  let ?c = "\<lparr>pc_tx_hash = replicate 32 4, pc_committer = replicate 32 5, pc_committed_at_slot = 10\<rparr>"
  have "check_delivery ?e execution_index_new 200 (patience_from_env None) = Fault (NotRevealed ?e 200 (saturating_sub 200 10))"
    by (simp add: check_delivery_def patience_from_env_def patience_default_def saturating_sub_def
        execution_find_def execution_index_new_def)
  with expiry_agrees [of "[(replicate 32 4, 0, ?c)]" "replicate 32 4" 0 ?c ?e execution_index_new 200 None None] show ?thesis
    by (simp add: bt_ok_def execution_find_def execution_index_new_def)
qed

end
