(* ===== verification/Expiring_Cache.thy ===== *)
theory Expiring_Cache
  imports Prelude
begin

text \<open>
  The expiring cache of the RPC service (\<open>magicblock-aperture/src/state/cache.rs\<close>), the two caches built
  on it (\<open>blocks.rs\<close>, \<open>transactions.rs\<close>) and the checks a submitted transaction passes before it is
  receipted (\<open>prepare_transaction\<close> and the replay check of \<open>send_transaction.rs\<close>). Time is in nanoseconds
  and read once per operation; a \<open>HashMap\<close> is a partial map, a \<open>VecDeque\<close> a list with its front first.
\<close>

section \<open>The cache\<close>

record ('k, 'v) expiring_cache =
  ca_index :: "'k \<rightharpoonup> 'v"
  ca_queue :: "('k \<times> nat) list"
  ca_ttl :: nat

definition cache_new :: "nat \<Rightarrow> ('k, 'v) expiring_cache" where
  "cache_new ttl = \<lparr>ca_index = Map.empty, ca_queue = [], ca_ttl = ttl\<rparr>"

definition expired :: "nat \<Rightarrow> nat \<Rightarrow> 'k \<times> nat \<Rightarrow> bool" where
  "expired now ttl rec \<longleftrightarrow> ttl \<le> now - snd rec"

fun cache_evict :: "nat \<Rightarrow> nat \<Rightarrow> ('k \<times> nat) list \<Rightarrow> ('k \<rightharpoonup> 'v) \<Rightarrow> ('k \<times> nat) list \<times> ('k \<rightharpoonup> 'v)" where
  "cache_evict now ttl [] index = ([], index)"
| "cache_evict now ttl (rec # queue) index =
     (if expired now ttl rec then cache_evict now ttl queue (index(fst rec := None))
      else (rec # queue, index))"

definition cache_push :: "nat \<Rightarrow> 'k \<Rightarrow> 'v \<Rightarrow> ('k, 'v) expiring_cache \<Rightarrow> bool \<times> ('k, 'v) expiring_cache" where
  "cache_push now key val c =
     (let (queue, index) = cache_evict now (ca_ttl c) (ca_queue c) (ca_index c);
          is_new = (index key = None);
          queue = (if is_new then queue @ [(key, now)] else queue)
      in (is_new, c\<lparr>ca_index := index(key \<mapsto> val), ca_queue := queue\<rparr>))"

definition cache_get :: "'k \<Rightarrow> ('k, 'v) expiring_cache \<Rightarrow> 'v option" where
  "cache_get key c = ca_index c key"

definition cache_contains :: "'k \<Rightarrow> ('k, 'v) expiring_cache \<Rightarrow> bool" where
  "cache_contains key c \<longleftrightarrow> ca_index c key \<noteq> None"

section \<open>Recent blocks\<close>

definition secs :: "nat \<Rightarrow> nat" where
  "secs n = n * 1000000000"

definition TRANSACTIONS_CACHE_TTL :: nat where "TRANSACTIONS_CACHE_TTL = secs 75"
definition BLOCK_CACHE_TTL :: nat where "BLOCK_CACHE_TTL = secs 60"

record blocks_cache =
  bc_block_validity :: u64
  bc_latest :: "bytes \<times> u64"
  bc_ready :: bool
  bc_cache :: "(bytes, u64) expiring_cache"

text \<open>
  The number of slots a block hash is announced to be valid is computed in floating point from the
  block time; it is the parameter \<open>validity\<close>.
\<close>

definition blocks_new :: "(u64 \<Rightarrow> u64) \<Rightarrow> u64 \<Rightarrow> bytes \<times> u64 \<Rightarrow> blocks_cache option" where
  "blocks_new validity blocktime latest =
     (if blocktime = 0 then None
      else Some \<lparr>bc_block_validity = validity blocktime, bc_latest = latest, bc_ready = False,
                 bc_cache = cache_new BLOCK_CACHE_TTL\<rparr>)"

definition get_latest :: "blocks_cache \<Rightarrow> bytes \<times> u64 \<times> u64" where
  "get_latest b = (fst (bc_latest b), snd (bc_latest b) + bc_block_validity b, snd (bc_latest b))"

definition block_height :: "blocks_cache \<Rightarrow> u64" where
  "block_height b = snd (bc_latest b)"

definition set_latest :: "nat \<Rightarrow> bytes \<times> u64 \<Rightarrow> blocks_cache \<Rightarrow> blocks_cache" where
  "set_latest now latest b =
     b\<lparr>bc_cache := snd (cache_push now (fst latest) (snd latest) (bc_cache b)), bc_latest := latest, bc_ready := True\<rparr>"

section \<open>Admission of a transaction\<close>

datatype admission = NotReady | BlockhashNotFound | AlreadyProcessed | Admitted

record admission_state =
  as_blocks :: blocks_cache
  as_transactions :: "(bytes, (u64 \<times> bool) option) expiring_cache"

text \<open>The replay check: refuse a signature that is known, else reserve it.\<close>

definition reserve :: "nat \<Rightarrow> bytes \<Rightarrow> admission_state \<Rightarrow> bool \<times> admission_state" where
  "reserve now signature s =
     (if cache_contains signature (as_transactions s) then (False, s)
      else
        let (is_new, transactions) = cache_push now signature None (as_transactions s)
        in (is_new, s\<lparr>as_transactions := transactions\<rparr>))"

definition admit :: "nat \<Rightarrow> bytes \<Rightarrow> bytes \<Rightarrow> admission_state \<Rightarrow> admission \<times> admission_state" where
  "admit now signature blockhash s =
     (if \<not> bc_ready (as_blocks s) then (NotReady, s)
      else if \<not> cache_contains blockhash (bc_cache (as_blocks s)) then (BlockhashNotFound, s)
      else
        let (is_new, s) = reserve now signature s
        in if is_new then (Admitted, s) else (AlreadyProcessed, s))"

text \<open>What reaches the two caches: a new block, a submitted transaction, the result of one.\<close>

datatype traffic = NewBlock bytes u64 | Submitted bytes bytes | Completed bytes u64 bool

fun traffic_step :: "nat \<times> traffic \<Rightarrow> admission_state \<Rightarrow> admission option \<times> admission_state" where
  "traffic_step (now, NewBlock blockhash slot) s =
     (None, s\<lparr>as_blocks := set_latest now (blockhash, slot) (as_blocks s)\<rparr>)"
| "traffic_step (now, Submitted signature blockhash) s =
     (let (answer, s) = admit now signature blockhash s in (Some answer, s))"
| "traffic_step (now, Completed signature slot result) s =
     (None, s\<lparr>as_transactions := snd (cache_push now signature (Some (slot, result)) (as_transactions s))\<rparr>)"

fun traffic_run :: "(nat \<times> traffic) list \<Rightarrow> admission_state \<Rightarrow> admission_state" where
  "traffic_run [] s = s"
| "traffic_run (e # es) s = traffic_run es (snd (traffic_step e s))"

section \<open>The contract of the cache\<close>

text \<open>
  \<open>born c k\<close> is the time a remembered key was first pushed; a key is forgotten only by a push at
  which it is at least \<open>ttl\<close> old.
\<close>

locale aging_cache =
  fixes push :: "nat \<Rightarrow> 'k \<Rightarrow> 'v \<Rightarrow> 'c \<Rightarrow> bool \<times> 'c"
    and born :: "'c \<Rightarrow> 'k \<Rightarrow> nat option"
    and ttl :: "'c \<Rightarrow> nat"
    and ok :: "nat \<Rightarrow> 'c \<Rightarrow> bool"
  assumes ok_push: "ok t c \<Longrightarrow> t \<le> now \<Longrightarrow> ok now (snd (push now k v c))"
    and ok_later: "ok t c \<Longrightarrow> t \<le> now \<Longrightarrow> ok now c"
    and ttl_push: "ttl (snd (push now k v c)) = ttl c"
    and born_before: "ok t c \<Longrightarrow> born c k = Some b \<Longrightarrow> b \<le> t"
    and push_new: "ok t c \<Longrightarrow> t \<le> now \<Longrightarrow> fst (push now k v c) \<longleftrightarrow> (\<forall>b. born c k = Some b \<longrightarrow> ttl c \<le> now - b)"
    and born_push: "ok t c \<Longrightarrow> t \<le> now \<Longrightarrow> born (snd (push now k v c)) j =
      (if j = k \<and> fst (push now k v c) then Some now
       else case born c j of None \<Rightarrow> None | Some b \<Rightarrow> if ttl c \<le> now - b then None else Some b)"
begin

lemma remembers_new: "ok t c \<Longrightarrow> t \<le> now \<Longrightarrow> fst (push now k v c) \<Longrightarrow> born (snd (push now k v c)) k = Some now"
  by (simp add: born_push)

lemma remembers:
  assumes "ok t c" "t \<le> now" "born c j = Some b" "now - b < ttl c"
  shows "born (snd (push now k v c)) j = Some b"
  using assms push_new [OF assms(1,2), of k v] by (auto simp: born_push)

lemma forgets:
  assumes "ok t c" "t \<le> now" "ttl c \<le> now - b" "born (snd (push now k v c)) j = Some b" "0 < ttl c"
  shows False
  using assms by (auto simp: born_push split: if_splits option.splits)

lemma refused:
  assumes "ok t c" "t \<le> now" "born c k = Some b" "now - b < ttl c"
  shows "\<not> fst (push now k v c)"
  using assms push_new [OF assms(1,2), of k v] by auto

end

definition cache_born :: "('k, 'v) expiring_cache \<Rightarrow> 'k \<Rightarrow> nat option" where
  "cache_born c = map_of (ca_queue c)"

definition cache_ok :: "nat \<Rightarrow> ('k, 'v) expiring_cache \<Rightarrow> bool" where
  "cache_ok t c \<longleftrightarrow> distinct (map fst (ca_queue c)) \<and> dom (ca_index c) = fst ` set (ca_queue c) \<and>
     sorted (map snd (ca_queue c)) \<and> (\<forall>rec \<in> set (ca_queue c). snd rec \<le> t)"

lemma cache_evict_eq:
  "sorted (map snd q) \<Longrightarrow> distinct (map fst q) \<Longrightarrow> dom i = fst ` set q \<Longrightarrow>
   cache_evict now ttl q i = (q', i') \<Longrightarrow>
   q' = filter (\<lambda>rec. \<not> expired now ttl rec) q \<and> dom i' = fst ` set q'"
proof (induction q arbitrary: i)
  case (Cons rec q)
  show ?case
  proof (cases "expired now ttl rec")
    case True
    have "dom (i(fst rec := None)) = fst ` set q" "sorted (map snd q)" "distinct (map fst q)"
      "cache_evict now ttl q (i(fst rec := None)) = (q', i')"
      using Cons.prems True by auto
    from Cons.IH [OF this(2,3,1,4)] True show ?thesis
      by simp
  next
    case False
    then have "\<not> expired now ttl r" if "r \<in> set q" for r
      using Cons.prems(1) that by (fastforce simp: expired_def)
    then have "filter (\<lambda>rec. \<not> expired now ttl rec) (rec # q) = rec # q"
      using False by (simp add: filter_id_conv)
    moreover have "q' = rec # q" "i' = i"
      using Cons.prems(4) False by simp_all
    ultimately show ?thesis
      using Cons.prems(3) by metis
  qed
qed simp

lemma map_of_filter_time:
  "distinct (map fst q) \<Longrightarrow> map_of (filter (\<lambda>rec. P (snd rec)) q) k =
     (case map_of q k of None \<Rightarrow> None | Some b \<Rightarrow> if P b then Some b else None)"
  by (induction q) (auto simp: map_of_eq_None_iff image_iff split: option.splits)

lemma cache_push_cases:
  assumes "cache_ok t c" and "cache_push now k v c = (new, c')"
  defines "q \<equiv> filter (\<lambda>rec. \<not> expired now (ca_ttl c) rec) (ca_queue c)"
  shows "new \<longleftrightarrow> k \<notin> fst ` set q" "ca_queue c' = (if new then q @ [(k, now)] else q)"
    "dom (ca_index c') = insert k (fst ` set q)" "ca_ttl c' = ca_ttl c"
proof -
  obtain q' i' where evict: "cache_evict now (ca_ttl c) (ca_queue c) (ca_index c) = (q', i')"
    by fastforce
  have q: "q' = q" and dom: "dom i' = fst ` set q"
    using cache_evict_eq [OF _ _ _ evict] assms(1) by (simp_all add: cache_ok_def q_def)
  have out: "new \<longleftrightarrow> i' k = None" "c' = c\<lparr>ca_index := i'(k \<mapsto> v), ca_queue := if new then q @ [(k, now)] else q\<rparr>"
    using assms(2) evict q by (auto simp: cache_push_def Let_def)
  show "new \<longleftrightarrow> k \<notin> fst ` set q"
    unfolding out(1) dom [symmetric] by (simp add: domIff)
  show "ca_queue c' = (if new then q @ [(k, now)] else q)" "dom (ca_index c') = insert k (fst ` set q)" "ca_ttl c' = ca_ttl c"
    unfolding out(2) by (simp_all add: dom)
qed

lemma cache_born_fresh:
  assumes "cache_ok t c"
  shows "map_of (filter (\<lambda>rec. \<not> expired now (ca_ttl c) rec) (ca_queue c)) k =
    (case cache_born c k of None \<Rightarrow> None | Some b \<Rightarrow> if ca_ttl c \<le> now - b then None else Some b)"
  using map_of_filter_time [of "ca_queue c" "\<lambda>b. \<not> ca_ttl c \<le> now - b" k] assms
  by (auto simp: expired_def cache_ok_def cache_born_def split: option.splits)

interpretation aging: aging_cache cache_push cache_born ca_ttl cache_ok
proof
  fix t now :: nat and c :: "('a, 'b) expiring_cache" and k j :: 'a and v :: 'b and b :: nat
  assume ok: "cache_ok t c" and later: "t \<le> now"
  let ?q = "filter (\<lambda>rec. \<not> expired now (ca_ttl c) rec) (ca_queue c)"
  obtain new c' where push: "cache_push now k v c = (new, c')"
    by fastforce
  note eff = cache_push_cases [OF ok push]
  have q: "distinct (map fst ?q)" "sorted (map snd ?q)" "\<forall>rec \<in> set ?q. snd rec \<le> now"
    using ok later by (auto simp: cache_ok_def distinct_map_filter sorted_filter)
  show "cache_ok now (snd (cache_push now k v c))"
    using eff q push by (auto simp: cache_ok_def sorted_append image_iff)
  have iff: "k \<notin> fst ` set ?q \<longleftrightarrow> map_of ?q k = None"
    by (simp add: map_of_eq_None_iff)
  show "fst (cache_push now k v c) \<longleftrightarrow> (\<forall>b. cache_born c k = Some b \<longrightarrow> ca_ttl c \<le> now - b)"
    using push eff(1) unfolding iff cache_born_fresh [OF ok] by (auto split: option.splits)
  show "cache_born (snd (cache_push now k v c)) j =
      (if j = k \<and> fst (cache_push now k v c) then Some now
       else case cache_born c j of None \<Rightarrow> None | Some b \<Rightarrow> if ca_ttl c \<le> now - b then None else Some b)"
    using push eff(1,2) iff cache_born_fresh [OF ok, of now j]
    by (auto simp: cache_born_def map_add_def split: option.splits if_splits)
  show "cache_ok now c"
    using ok later by (auto simp: cache_ok_def)
next
  fix t :: nat and c :: "('a, 'b) expiring_cache" and k b
  assume "cache_ok t c" "cache_born c k = Some b"
  then show "b \<le> t"
    by (auto simp: cache_ok_def cache_born_def dest!: map_of_SomeD)
next
  fix now and c :: "('a, 'b) expiring_cache" and k v
  show "ca_ttl (snd (cache_push now k v c)) = ca_ttl c"
    by (simp add: cache_push_def case_prod_beta Let_def)
qed

lemma cache_contains_iff: "cache_ok t c \<Longrightarrow> cache_contains k c \<longleftrightarrow> cache_born c k \<noteq> None"
  by (auto simp: cache_contains_def cache_ok_def cache_born_def map_of_eq_None_iff dom_def image_iff)

end
