(* ===== verification/Replay.thy ===== *)
theory Replay
  imports Expiring_Cache
begin

text \<open>
  Replay protection of submitted transactions: how long a signature is refused, and for how long a
  transaction's block hash lets it in.
\<close>

definition state_ok :: "nat \<Rightarrow> admission_state \<Rightarrow> bool" where
  "state_ok t s \<longleftrightarrow> cache_ok t (bc_cache (as_blocks s)) \<and> cache_ok t (as_transactions s) \<and>
     ca_ttl (bc_cache (as_blocks s)) = BLOCK_CACHE_TTL \<and> ca_ttl (as_transactions s) = TRANSACTIONS_CACHE_TTL"

abbreviation tx_born :: "admission_state \<Rightarrow> bytes \<Rightarrow> nat option" where
  "tx_born s \<equiv> cache_born (as_transactions s)"

abbreviation block_born :: "admission_state \<Rightarrow> bytes \<Rightarrow> nat option" where
  "block_born s \<equiv> cache_born (bc_cache (as_blocks s))"

lemma contains_born:
  assumes "state_ok t s"
  shows "cache_contains bh (bc_cache (as_blocks s)) \<longleftrightarrow> block_born s bh \<noteq> None"
    and "cache_contains sig (as_transactions s) \<longleftrightarrow> tx_born s sig \<noteq> None"
  using assms cache_contains_iff [of t "bc_cache (as_blocks s)"] cache_contains_iff [of t "as_transactions s"]
  by (simp_all add: state_ok_def)

lemma admit_cases:
  assumes "admit now sig bh s = (answer, s')"
  obtains (same) "s' = s" "answer \<noteq> Admitted"
  | (pushed) "bc_ready (as_blocks s)" "cache_contains bh (bc_cache (as_blocks s))" "\<not> cache_contains sig (as_transactions s)"
      "s' = s\<lparr>as_transactions := snd (cache_push now sig None (as_transactions s))\<rparr>"
      "answer = (if fst (cache_push now sig None (as_transactions s)) then Admitted else AlreadyProcessed)"
  using assms by (auto simp: admit_def reserve_def Let_def case_prod_beta split: if_splits)

lemma step_ok:
  assumes "state_ok t s" "t \<le> now"
  shows "state_ok now (snd (traffic_step (now, e) s))"
proof (cases e)
  case (NewBlock bh slot)
  with assms aging.ok_push [of t "bc_cache (as_blocks s)" now bh slot] aging.ok_later [of t "as_transactions s" now] show ?thesis
    by (simp add: state_ok_def set_latest_def aging.ttl_push)
next
  case (Completed sig slot r)
  with assms aging.ok_push [of t "as_transactions s" now sig "Some (slot, r)"] aging.ok_later [of t "bc_cache (as_blocks s)" now]
  show ?thesis
    by (simp add: state_ok_def aging.ttl_push)
next
  case (Submitted sig bh)
  obtain answer s' where step: "admit now sig bh s = (answer, s')"
    by fastforce
  have later: "state_ok now s"
    using assms by (auto simp: state_ok_def intro: aging.ok_later)
  from step have "state_ok now s'"
    using later aging.ok_push [of now "as_transactions s" now sig None]
    by (cases rule: admit_cases) (simp_all add: state_ok_def aging.ttl_push)
  with Submitted step show ?thesis
    by simp
qed

lemma step_tx_born:
  assumes "state_ok t s" "t \<le> now" "tx_born s sig = Some b" "now - b < TRANSACTIONS_CACHE_TTL"
  shows "tx_born (snd (traffic_step (now, e) s)) sig = Some b"
proof (cases e)
  case (Submitted sig' bh)
  obtain answer s' where step: "admit now sig' bh s = (answer, s')"
    by fastforce
  then have "tx_born s' sig = Some b"
    using assms aging.remembers [of t "as_transactions s" now sig b sig' None]
    by (cases rule: admit_cases) (simp_all add: state_ok_def)
  with Submitted step show ?thesis
    by simp
next
  case (Completed sig' slot r)
  with assms aging.remembers [of t "as_transactions s" now sig b sig' "Some (slot, r)"] show ?thesis
    by (simp add: state_ok_def)
qed (use assms in \<open>simp add: set_latest_def\<close>)

lemma step_block_born:
  assumes "state_ok t s" "t \<le> now" "block_born (snd (traffic_step (now, e) s)) bh = Some b" "\<forall>slot. e \<noteq> NewBlock bh slot"
  shows "block_born s bh = Some b \<and> ((\<exists>h slot. e = NewBlock h slot) \<longrightarrow> now - b < BLOCK_CACHE_TTL)"
proof (cases e)
  case (NewBlock h slot)
  then show ?thesis
    using assms aging.born_push [of t "bc_cache (as_blocks s)" now h slot bh]
    by (auto simp: set_latest_def state_ok_def split: option.splits if_splits)
next
  case (Submitted sig h)
  obtain answer s' where step: "admit now sig h s = (answer, s')"
    by fastforce
  then have "as_blocks s' = as_blocks s"
    by (cases rule: admit_cases) simp_all
  with assms(3) Submitted step show ?thesis
    by simp
next
  case (Completed sig slot r)
  with assms(3) show ?thesis
    by simp
qed

text \<open>A run at nondecreasing times, not before the time \<open>t\<close>.\<close>

lemma run_ok:
  assumes "state_ok t s" "sorted (t # map fst es)"
  shows "state_ok (last (t # map fst es)) (traffic_run es s)"
  using assms
proof (induction es arbitrary: t s)
  case (Cons e es)
  then show ?case
    using step_ok [of t s "fst e" "snd e"] by auto
qed simp

lemma run_tx_born:
  assumes "state_ok t s" "sorted (t # map fst es)" "tx_born s sig = Some b"
    and "\<forall>e \<in> set es. fst e - b < TRANSACTIONS_CACHE_TTL"
  shows "tx_born (traffic_run es s) sig = Some b"
  using assms
proof (induction es arbitrary: t s)
  case (Cons e es)
  then show ?case
    using step_ok [of t s "fst e" "snd e"] step_tx_born [of t s "fst e" sig b "snd e"] by auto
qed simp

lemma run_block_born:
  assumes "state_ok t s" "sorted (t # map fst es)" "block_born (traffic_run es s) bh = Some b"
    and "\<forall>e \<in> set es. \<forall>slot. snd e \<noteq> NewBlock bh slot"
  shows "block_born s bh = Some b \<and> (\<forall>tp h slot. (tp, NewBlock h slot) \<in> set es \<longrightarrow> tp - b < BLOCK_CACHE_TTL)"
  using assms
proof (induction es arbitrary: t s)
  case (Cons e es)
  obtain now ev where e: "e = (now, ev)"
    by fastforce
  have t: "t \<le> now" "sorted (now # map fst es)"
    using Cons.prems(2) e by simp_all
  have run: "block_born (traffic_run es (snd (traffic_step (now, ev) s))) bh = Some b"
    using Cons.prems(3) e by simp
  have "\<forall>e \<in> set es. \<forall>slot. snd e \<noteq> NewBlock bh slot" "\<forall>slot. ev \<noteq> NewBlock bh slot"
    using Cons.prems(4) e by simp_all
  with Cons.IH [OF step_ok [OF Cons.prems(1) t(1)] t(2) run] step_block_born [OF Cons.prems(1) t(1), of ev bh b]
  have "block_born s bh = Some b" "\<forall>tp h slot. (tp, NewBlock h slot) \<in> set es \<longrightarrow> tp - b < BLOCK_CACHE_TTL"
    "(\<exists>h slot. ev = NewBlock h slot) \<longrightarrow> now - b < BLOCK_CACHE_TTL"
    by blast+
  then show ?case
    unfolding e by (simp add: all_conj_distrib) blast
qed simp

lemma traffic_run_append: "traffic_run (xs @ ys) s = traffic_run ys (traffic_run xs s)"
  by (induction xs arbitrary: s) simp_all

definition fresh_state :: "blocks_cache \<Rightarrow> admission_state" where
  "fresh_state b = \<lparr>as_blocks = b, as_transactions = cache_new TRANSACTIONS_CACHE_TTL\<rparr>"

lemma fresh_state_ok: "blocks_new validity blocktime latest = Some b \<Longrightarrow> state_ok 0 (fresh_state b)"
  by (auto simp: blocks_new_def fresh_state_def state_ok_def cache_ok_def cache_new_def split: if_splits)

section \<open>Properties\<close>

lemma admitted_born:
  assumes "state_ok t1 s" and "fst (admit t1 sig bh s) = Admitted"
  obtains c where "tx_born (snd (admit t1 sig bh s)) sig = Some t1" "block_born (snd (admit t1 sig bh s)) bh = Some c" "c \<le> t1"
proof -
  let ?s1 = "snd (admit t1 sig bh s)"
  obtain answer where step: "admit t1 sig bh s = (answer, ?s1)"
    by (metis prod.collapse)
  then show thesis
  proof (cases rule: admit_cases)
    case pushed
    then obtain c where c: "block_born s bh = Some c"
      using contains_born(1) [OF assms(1)] by blast
    moreover have "tx_born ?s1 sig = Some t1"
      using pushed(4,5) assms(2) step aging.remembers_new [of t1 "as_transactions s" t1] assms(1)
      by (auto simp: state_ok_def split: if_splits)
    moreover have "block_born ?s1 = block_born s"
      by (simp add: pushed(4))
    moreover have "c \<le> t1"
      using c assms(1) aging.born_before [of t1 "bc_cache (as_blocks s)"] by (simp add: state_ok_def)
    ultimately show thesis
      using that by simp
  qed (use assms(2) step in auto)
qed

text \<open>
  C25. A transaction is not admitted twice while blocks keep coming: after a signature was admitted
  for a block hash, in any traffic in which that hash is not produced again, the same transaction is
  refused at every later moment within 75 seconds, and beyond that whenever some block arrived less
  than 15 seconds before.
\<close>
theorem replay_refused:
  assumes "blocks_new validity blocktime latest = Some b"
    and "sorted (map fst (before @ (t1, Submitted sig bh) # between @ [(t2, Submitted sig bh)]))"
    and "fst (admit t1 sig bh (traffic_run before (fresh_state b))) = Admitted"
    and "\<forall>e \<in> set between. \<forall>slot. snd e \<noteq> NewBlock bh slot"
    and "t2 < t1 + secs 75 \<or> (\<exists>tp h slot. (tp, NewBlock h slot) \<in> set between \<and> t2 < tp + secs 15)"
  shows "fst (admit t2 sig bh (traffic_run (before @ (t1, Submitted sig bh) # between) (fresh_state b))) \<noteq> Admitted"
proof
  let ?s = "traffic_run before (fresh_state b)"
  let ?s1 = "snd (admit t1 sig bh ?s)"
  let ?s2 = "traffic_run between ?s1"
  assume again: "fst (admit t2 sig bh (traffic_run (before @ (t1, Submitted sig bh) # between) (fresh_state b))) = Admitted"
  have run: "traffic_run (before @ (t1, Submitted sig bh) # between) (fresh_state b) = ?s2"
    by (simp add: traffic_run_append case_prod_beta)
  have order: "sorted (0 # map fst before)" "\<forall>t \<in> set (0 # map fst before). t \<le> t1" "sorted (t1 # map fst between)"
    "\<forall>e \<in> set between. fst e \<le> t2" "t1 \<le> t2"
    using assms(2) by (auto simp: sorted_append)
  have "last (0 # map fst before) \<le> t1"
    using order(2) last_in_set [of "0 # map fst before"] by blast
  have ok: "state_ok t1 ?s"
    using run_ok [OF fresh_state_ok [OF assms(1)] order(1)] \<open>last (0 # map fst before) \<le> t1\<close>
    by (auto simp: state_ok_def intro: aging.ok_later)
  have ok1: "state_ok t1 ?s1"
    using step_ok [OF ok order_refl, of "Submitted sig bh"] by (simp add: case_prod_beta)
  obtain c where first: "tx_born ?s1 sig = Some t1" "block_born ?s1 bh = Some c" "c \<le> t1"
    by (rule admitted_born [OF ok assms(3)])
  from again have known: "cache_contains bh (bc_cache (as_blocks ?s2))" "\<not> cache_contains sig (as_transactions ?s2)"
    unfolding run by (auto simp: admit_def reserve_def split: if_splits)
  have ok2: "state_ok (last (t1 # map fst between)) ?s2"
    by (rule run_ok [OF ok1 order(3)])
  then obtain d where "block_born ?s2 bh = Some d"
    using known(1) contains_born(1) by blast
  from run_block_born [OF ok1 order(3) this assms(4)] first(2)
  have blocks: "tp - c < BLOCK_CACHE_TTL" if "(tp, NewBlock h slot) \<in> set between" for tp h slot
    using that by auto
  have "t2 - t1 < TRANSACTIONS_CACHE_TTL"
    using assms(5) blocks first(3) by (fastforce simp: TRANSACTIONS_CACHE_TTL_def BLOCK_CACHE_TTL_def secs_def)
  then have "\<forall>e \<in> set between. fst e - t1 < TRANSACTIONS_CACHE_TTL"
    using order(4) by fastforce
  from run_tx_born [OF ok1 order(3) first(1) this] have "cache_contains sig (as_transactions ?s2)"
    using contains_born(2) [OF ok2] by simp
  with known(2) show False
    by simp
qed

text \<open>
  C34. When blocks stop, a transaction can be admitted twice: the block hash is checked for presence
  only and leaves the cache only when another block arrives, so 75 seconds after a transaction was
  admitted with no block since, one other transaction makes the node forget its signature and the
  same transaction is admitted again.
\<close>
theorem replay_after_stall:
  assumes "blocks_new validity blocktime latest = Some b" and "sig' \<noteq> sig" and "t1 + secs 75 \<le> t2"
  shows "let s = traffic_run [(t0, NewBlock bh slot)] (fresh_state b);
       (first, s) = admit t1 sig bh s;
       (other, s) = admit t2 sig' bh s;
       (again, s) = admit t2 sig bh s
     in first = Admitted \<and> other = Admitted \<and> again = Admitted"
  using assms
  by (auto simp: blocks_new_def fresh_state_def cache_new_def set_latest_def admit_def reserve_def cache_push_def
      cache_contains_def expired_def TRANSACTIONS_CACHE_TTL_def secs_def Let_def split: if_splits)

section \<open>Witnesses\<close>

definition demo_blocks :: blocks_cache where
  "demo_blocks = \<lparr>bc_block_validity = 1200, bc_latest = ([], 0), bc_ready = False, bc_cache = cache_new BLOCK_CACHE_TTL\<rparr>"

lemma demo_blocks_new: "blocks_new (\<lambda>_. 1200) 50 ([], 0) = Some demo_blocks"
  by (simp add: blocks_new_def demo_blocks_def)

theorem replay_refused_witness:
  "fst (admit (secs 70) [7] [1]
     (traffic_run ([(0, NewBlock [1] 1)] @ (secs 1, Submitted [7] [1]) # [(secs 59, NewBlock [2] 2)])
       (fresh_state demo_blocks))) \<noteq> Admitted"
proof (rule replay_refused [OF demo_blocks_new])
  show "fst (admit (secs 1) [7] [1] (traffic_run [(0, NewBlock [1] 1)] (fresh_state demo_blocks))) = Admitted"
    by (simp add: fresh_state_def demo_blocks_def cache_new_def set_latest_def admit_def reserve_def cache_push_def
        cache_contains_def Let_def)
  show "secs 70 < secs 1 + secs 75 \<or> (\<exists>tp h slot. (tp, NewBlock h slot) \<in> set [(secs 59, NewBlock [2] 2)] \<and> secs 70 < tp + secs 15)"
    by (simp add: secs_def)
qed (simp_all add: secs_def)

theorem replay_after_stall_witness:
  "let s = traffic_run [(0, NewBlock [1] 1)] (fresh_state demo_blocks);
       (first, s) = admit (secs 1) [7] [1] s;
       (other, s) = admit (secs 76) [8] [1] s;
       (again, s) = admit (secs 76) [7] [1] s
     in first = Admitted \<and> other = Admitted \<and> again = Admitted"
  by (rule replay_after_stall [OF demo_blocks_new]) (simp_all add: secs_def)

end
