(* ===== verification/Locks.thy ===== *)
theory Locks
  imports Prelude
begin

text \<open>
  The account locks of the transaction scheduler
  (\<open>src/magicblock-validator/magicblock-processor/src/scheduler/locks.rs\<close>): one 64-bit word per account, a
  bit for each executor that holds the account and the top bit for exclusive access. The interface
  \<open>reader_writer\<close> states what the coordinator relies on, over the set of holders.
\<close>

unbundle bit_operations_syntax

type_synonym executor_id = nat

definition MAX_SVM_EXECUTORS :: nat where "MAX_SVM_EXECUTORS = 63"

definition WRITE_BIT :: u64 where "WRITE_BIT = push_bit MAX_SVM_EXECUTORS 1"

definition trailing_zeros :: "u64 \<Rightarrow> nat" where
  "trailing_zeros w = length (takeWhile (\<lambda>i. \<not> bit w i) [0..<64])"

definition lock_write :: "executor_id \<Rightarrow> u64 \<Rightarrow> executor_id + u64" where
  "lock_write executor state =
     (if state \<noteq> 0 then Inl (trailing_zeros state) else Inr (WRITE_BIT OR push_bit executor 1))"

definition lock_read :: "executor_id \<Rightarrow> u64 \<Rightarrow> executor_id + u64" where
  "lock_read executor state =
     (if state AND WRITE_BIT \<noteq> 0 then Inl (trailing_zeros state) else Inr (state OR push_bit executor 1))"

definition lock_unlock :: "executor_id \<Rightarrow> u64 \<Rightarrow> u64" where
  "lock_unlock executor state = state AND NOT (WRITE_BIT OR push_bit executor 1)"

section \<open>The interface\<close>

locale reader_writer =
  fixes wr rd :: "executor_id \<Rightarrow> 'l \<Rightarrow> executor_id + 'l" and un :: "executor_id \<Rightarrow> 'l \<Rightarrow> 'l"
    and holders :: "'l \<Rightarrow> executor_id set" and exclusive :: "'l \<Rightarrow> bool" and lock_ok :: "'l \<Rightarrow> bool" and limit :: nat
  assumes holders_below: "e \<in> holders l \<Longrightarrow> e < limit"
    and sole: "lock_ok l \<Longrightarrow> exclusive l \<Longrightarrow> \<exists>e. holders l = {e}"
    and wr_granted: "e < limit \<Longrightarrow> wr e l = Inr l' \<Longrightarrow> lock_ok l' \<and> holders l = {} \<and> holders l' = {e} \<and> exclusive l'"
    and wr_refused: "lock_ok l \<Longrightarrow> wr e l = Inl b \<Longrightarrow> b \<in> holders l"
    and rd_granted: "e < limit \<Longrightarrow> rd e l = Inr l' \<Longrightarrow>
      lock_ok l' \<and> \<not> exclusive l \<and> holders l' = insert e (holders l) \<and> \<not> exclusive l'"
    and rd_refused: "lock_ok l \<Longrightarrow> rd e l = Inl b \<Longrightarrow> b \<in> holders l"
    and un_releases: "holders (un e l) = holders l - {e} \<and> \<not> exclusive (un e l) \<and> lock_ok (un e l)"
    and un_twice: "un e (un e l) = un e l"
begin

lemma exclusive_unique:
  assumes "lock_ok l" and "exclusive l" and "e \<in> holders l" and "f \<in> holders l"
  shows "e = f"
  using sole [OF assms(1,2)] assms(3,4) by auto

lemma granted:
  assumes "e < limit" and "(if w then wr e l else rd e l) = Inr l'"
  shows "lock_ok l' \<and> holders l' = insert e (holders l) \<and> (w \<longrightarrow> exclusive l') \<and> \<not> (e \<in> holders l \<and> exclusive l) \<and>
    (\<forall>f \<in> holders l. exclusive l' = exclusive l)"
  using wr_granted [OF assms(1), of l l'] rd_granted [OF assms(1), of l l'] assms(2) by (cases w) auto

lemma refused:
  assumes "lock_ok l" and "(if w then wr e l else rd e l) = Inl b"
  shows "b \<in> holders l"
  using wr_refused [OF assms(1), of e b] rd_refused [OF assms(1), of e b] assms(2) by (cases w) auto

lemma release_keeps:
  assumes "lock_ok l" and "e \<in> holders l" and "f \<in> holders l" and "f \<noteq> e"
  shows "exclusive (un e l) = exclusive l"
  using exclusive_unique [OF assms(1) _ assms(2,3)] un_releases [of e l] assms(4) by auto

end

section \<open>The words implement it\<close>

definition lock_holders :: "u64 \<Rightarrow> executor_id set" where
  "lock_holders l = {e. e < 63 \<and> bit l e}"

definition lock_exclusive :: "u64 \<Rightarrow> bool" where
  "lock_exclusive l \<longleftrightarrow> bit l 63"

definition lock_ok :: "u64 \<Rightarrow> bool" where
  "lock_ok l \<longleftrightarrow> (lock_exclusive l \<longrightarrow> (\<exists>e. lock_holders l = {e}))"

lemma bit_push_one: "bit (2 ^ k :: u64) n \<longleftrightarrow> n = k \<and> k < 64"
  by (auto simp: bit_exp_iff)

lemma bit_WRITE_BIT: "bit WRITE_BIT n \<longleftrightarrow> n = 63"
proof -
  have "WRITE_BIT = 2 ^ 63"
    by (simp add: WRITE_BIT_def MAX_SVM_EXECUTORS_def push_bit_of_1)
  then show ?thesis
    using bit_push_one [of 63 n] by simp
qed

lemma bit_not_u64: "bit (NOT (w :: u64)) n \<longleftrightarrow> n < 64 \<and> \<not> bit w n"
  by (simp add: bit_not_iff)

lemma trailing_zeros_bit:
  assumes "w \<noteq> 0"
  shows "trailing_zeros w < 64" and "bit w (trailing_zeros w)" and "\<forall>i < trailing_zeros w. \<not> bit w i"
proof -
  obtain n where n: "bit w n" "n < 64"
    using assms bit_imp_le_length [of w] by (auto simp: bit_eq_iff)
  let ?t = "takeWhile (\<lambda>i. \<not> bit w i) [0..<64]"
  have "?t \<noteq> [0..<64]"
    using n by (metis atLeastLessThan_iff le0 set_takeWhileD set_upt)
  then have less: "length ?t < length [0..<64::nat]"
    by (metis length_takeWhile_le linorder_neqE_nat not_le takeWhile_eq_take take_all_iff)
  then show "trailing_zeros w < 64"
    by (simp add: trailing_zeros_def)
  show "bit w (trailing_zeros w)"
    using nth_length_takeWhile [OF less] less by (simp add: trailing_zeros_def)
  show "\<forall>i < trailing_zeros w. \<not> bit w i"
  proof (intro allI impI)
    fix i assume i: "i < trailing_zeros w"
    then have "?t ! i \<in> set ?t"
      by (simp add: trailing_zeros_def)
    moreover have "?t ! i = i"
      using takeWhile_nth [of i "\<lambda>i. \<not> bit w i" "[0..<64]"] i less by (simp add: trailing_zeros_def)
    ultimately show "\<not> bit w i"
      by (metis set_takeWhileD)
  qed
qed

lemma trailing_zeros_holder:
  assumes "lock_ok l" and "l \<noteq> 0"
  shows "trailing_zeros l \<in> lock_holders l"
proof -
  note tz = trailing_zeros_bit [OF assms(2)]
  have "trailing_zeros l \<noteq> 63"
  proof
    assume at: "trailing_zeros l = 63"
    then obtain e where "lock_holders l = {e}"
      using tz assms(1) by (auto simp: lock_ok_def lock_exclusive_def)
    then show False
      using tz(3) at by (auto simp: lock_holders_def)
  qed
  with tz show ?thesis
    by (simp add: lock_holders_def)
qed

lemma write_bit_test: "l AND WRITE_BIT \<noteq> 0 \<longleftrightarrow> lock_exclusive l"
proof -
  have "l AND WRITE_BIT = 0 \<longleftrightarrow> \<not> bit l 63"
    unfolding bit_eq_iff by (auto simp: bit_and_iff bit_WRITE_BIT dest: spec [of _ 63])
  then show ?thesis
    by (simp add: lock_exclusive_def)
qed

interpretation rw: reader_writer lock_write lock_read lock_unlock lock_holders lock_exclusive lock_ok 63
proof (unfold_locales, goal_cases)
  case (3 e l l')
  then have "l = 0" "l' = WRITE_BIT OR push_bit e 1"
    by (simp_all add: lock_write_def split: if_splits)
  moreover from this 3 have "lock_holders l' = {e}"
    by (auto simp: lock_holders_def bit_or_iff bit_WRITE_BIT bit_push_one)
  ultimately show ?case
    by (auto simp: lock_ok_def lock_holders_def lock_exclusive_def bit_or_iff bit_WRITE_BIT bit_push_one)
next
  case (4 l e b)
  then show ?case
    using trailing_zeros_holder by (auto simp: lock_write_def split: if_splits)
next
  case (5 e l l')
  then have "\<not> lock_exclusive l" "l' = l OR push_bit e 1"
    by (simp_all add: lock_read_def write_bit_test split: if_splits)
  with 5 show ?case
    by (auto simp: lock_ok_def lock_holders_def lock_exclusive_def bit_or_iff bit_push_one)
next
  case (6 l e b)
  then show ?case
    using trailing_zeros_holder [of l]
    by (cases "l = 0") (auto simp: lock_read_def write_bit_test lock_exclusive_def split: if_splits)
next
  case (7 e l)
  then show ?case
    by (auto simp: lock_unlock_def lock_ok_def lock_holders_def lock_exclusive_def bit_and_iff bit_or_iff bit_not_u64
        bit_WRITE_BIT bit_push_one)
next
  case (8 e l)
  then show ?case
    by (simp add: lock_unlock_def and.assoc)
qed (auto simp: lock_holders_def lock_ok_def)

lemma lock_free: "lock_ok 0" "lock_holders 0 = {}" "\<not> lock_exclusive 0"
  by (simp_all add: lock_ok_def lock_holders_def lock_exclusive_def)

end
