(* ===== verification/Coordinator.thy ===== *)
theory Coordinator
  imports Locks
begin

text \<open>
  The execution coordinator of the scheduler
  (\<open>src/magicblock-validator/magicblock-processor/src/scheduler/coordinator.rs\<close>): the pool of idle executors, the
  locks each running executor holds, the transactions blocked behind an executor, and the mode. A
  vector with one entry per executor is a function with the number of executors beside it; the
  registry of locks is total, since an account gets a free lock on first use; a shared lock is known by
  its account. Waiting for semaphores is not modelled.
\<close>

section \<open>State\<close>

datatype processing_mode = Simulation | Replaying u64 u32 bool | Execution

record processable =
  pt_signature :: bytes
  pt_accounts :: "(bytes \<times> bool) list"
  pt_mode :: processing_mode
  pt_encoded :: "bytes option"

record txn_with_id =
  ti_id :: u64
  ti_txn :: processable

datatype coordination_mode =
    StartingUp "u64 option"
  | Primary nat nat
  | Replica "u64 option"

record coordinator =
  ec_count :: nat
  ec_blocked :: "executor_id \<Rightarrow> txn_with_id list"
  ec_ready :: "executor_id list"
  ec_acquired :: "executor_id \<Rightarrow> bytes list"
  ec_locks :: "bytes \<Rightarrow> u64"
  ec_mode :: coordination_mode

definition BLOCKED_TXN_MULTIPLIER :: nat where "BLOCKED_TXN_MULTIPLIER = 2"

section \<open>Operations\<close>

fun mode_is_ready :: "coordination_mode \<Rightarrow> bool" where
  "mode_is_ready (StartingUp pending) \<longleftrightarrow> pending = None"
| "mode_is_ready (Primary blocked_txn_count max_blocked_txn) \<longleftrightarrow> blocked_txn_count < max_blocked_txn"
| "mode_is_ready (Replica pending) \<longleftrightarrow> pending = None"

definition coordinator_new :: "nat \<Rightarrow> coordinator" where
  "coordinator_new count =
     \<lparr>ec_count = count, ec_blocked = (\<lambda>_. []), ec_ready = [0..<count], ec_acquired = (\<lambda>_. []),
      ec_locks = (\<lambda>_. 0), ec_mode = StartingUp None\<rparr>"

definition is_ready :: "coordinator \<Rightarrow> bool" where
  "is_ready c \<longleftrightarrow> ec_ready c \<noteq> [] \<and> mode_is_ready (ec_mode c)"

definition get_ready_executor :: "coordinator \<Rightarrow> executor_id option \<times> coordinator" where
  "get_ready_executor c =
     (if ec_ready c = [] then (None, c)
      else (Some (last (ec_ready c)), c\<lparr>ec_ready := butlast (ec_ready c)\<rparr>))"

definition release_executor :: "executor_id \<Rightarrow> coordinator \<Rightarrow> coordinator" where
  "release_executor executor c = c\<lparr>ec_ready := ec_ready c @ [executor]\<rparr>"

definition unlock_accounts :: "executor_id \<Rightarrow> coordinator \<Rightarrow> coordinator" where
  "unlock_accounts executor c =
     c\<lparr>ec_locks := fold (\<lambda>acc locks. locks(acc := lock_unlock executor (locks acc))) (ec_acquired c executor) (ec_locks c),
       ec_acquired := (ec_acquired c)(executor := [])\<rparr>"

fun acquire :: "executor_id \<Rightarrow> (bytes \<times> bool) list \<Rightarrow> coordinator \<Rightarrow> coordinator \<times> (executor_id + unit)" where
  "acquire executor [] c = (c, Inr ())"
| "acquire executor ((acc, writable) # accounts) c =
     (case (if writable then lock_write executor (ec_locks c acc) else lock_read executor (ec_locks c acc)) of
        Inl blocker \<Rightarrow> (unlock_accounts executor c, Inl blocker)
      | Inr state \<Rightarrow>
          acquire executor accounts
            (c\<lparr>ec_locks := (ec_locks c)(acc := state),
               ec_acquired := (ec_acquired c)(executor := ec_acquired c executor @ [acc])\<rparr>))"

definition try_acquire_locks :: "executor_id \<Rightarrow> processable \<Rightarrow> coordinator \<Rightarrow> coordinator \<times> (executor_id + unit)" where
  "try_acquire_locks executor txn c = acquire executor (pt_accounts txn) c"

text \<open>The binary heap, smallest identifier first, as an ordered list.\<close>

definition heap_push :: "txn_with_id \<Rightarrow> txn_with_id list \<Rightarrow> txn_with_id list" where
  "heap_push txn heap = insort_key ti_id txn heap"

definition queue_transaction :: "executor_id \<Rightarrow> txn_with_id \<Rightarrow> coordinator \<Rightarrow> coordinator" where
  "queue_transaction blocker txn c =
     c\<lparr>ec_mode :=
         (case ec_mode c of
            StartingUp _ \<Rightarrow> StartingUp (Some (ti_id txn))
          | Replica _ \<Rightarrow> Replica (Some (ti_id txn))
          | Primary blocked max_blocked \<Rightarrow> Primary (blocked + 1) max_blocked),
       ec_blocked := (ec_blocked c)(blocker := heap_push txn (ec_blocked c blocker))\<rparr>"

definition try_schedule :: "executor_id \<Rightarrow> txn_with_id \<Rightarrow> coordinator \<Rightarrow> coordinator \<times> (executor_id + processable)" where
  "try_schedule executor txn c =
     (case try_acquire_locks executor (ti_txn txn) c of
        (c, Inr _) \<Rightarrow> (c, Inr (ti_txn txn))
      | (c, Inl blocker) \<Rightarrow> (queue_transaction blocker txn (release_executor executor c), Inl blocker))"

definition next_blocked_transaction :: "executor_id \<Rightarrow> coordinator \<Rightarrow> txn_with_id option \<times> coordinator" where
  "next_blocked_transaction executor c =
     (let txn = (case ec_blocked c executor of [] \<Rightarrow> None | t # _ \<Rightarrow> Some t);
          cleared = (\<lambda>pending. if pending = map_option ti_id txn then None else pending)
      in (txn,
          c\<lparr>ec_blocked := (ec_blocked c)(executor := tl (ec_blocked c executor)),
            ec_mode :=
              (case ec_mode c of
                 StartingUp pending \<Rightarrow> StartingUp (cleared pending)
               | Replica pending \<Rightarrow> Replica (cleared pending)
               | Primary blocked max_blocked \<Rightarrow> Primary (blocked - of_bool (txn \<noteq> None)) max_blocked)\<rparr>))"

definition switch_to_primary_mode :: "coordinator \<Rightarrow> coordinator" where
  "switch_to_primary_mode c =
     (case ec_mode c of
        Primary _ _ \<Rightarrow> c
      | _ \<Rightarrow> c\<lparr>ec_mode := Primary 0 (ec_count c * BLOCKED_TXN_MULTIPLIER)\<rparr>)"

definition switch_to_replica_mode :: "coordinator \<Rightarrow> coordinator" where
  "switch_to_replica_mode c =
     (case ec_mode c of
        Replica _ \<Rightarrow> c
      | Primary _ _ \<Rightarrow> c\<lparr>ec_mode := Replica None\<rparr>
      | StartingUp pending \<Rightarrow> c\<lparr>ec_mode := Replica pending\<rparr>)"

fun is_primary_mode :: "coordination_mode \<Rightarrow> bool" where
  "is_primary_mode (Primary _ _) = True"
| "is_primary_mode _ = False"

definition is_primary :: "coordinator \<Rightarrow> bool" where
  "is_primary c \<longleftrightarrow> is_primary_mode (ec_mode c)"

definition is_transaction_allowed :: "processing_mode \<Rightarrow> coordinator \<Rightarrow> bool" where
  "is_transaction_allowed mode c =
     (case mode of
        Simulation \<Rightarrow> True
      | Replaying _ _ _ \<Rightarrow> \<not> is_primary c
      | Execution \<Rightarrow> is_primary c)"

definition is_idle :: "coordinator \<Rightarrow> bool" where
  "is_idle c \<longleftrightarrow> length (ec_ready c) = ec_count c"

section \<open>Locks and holders\<close>

text \<open>The lock of an account names exactly the executors that acquired it.\<close>

definition locks_ok :: "coordinator \<Rightarrow> bool" where
  "locks_ok c \<longleftrightarrow> (\<forall>k. lock_ok (ec_locks c k) \<and> lock_holders (ec_locks c k) = {e. k \<in> set (ec_acquired c e)})"

lemma locks_okD:
  assumes "locks_ok c"
  shows "lock_ok (ec_locks c k)" and "e \<in> lock_holders (ec_locks c k) \<longleftrightarrow> k \<in> set (ec_acquired c e)"
  using assms by (auto simp: locks_ok_def)

lemma locks_ok_new [simp]: "locks_ok (coordinator_new count)"
  by (simp add: locks_ok_def coordinator_new_def lock_free)

lemma fold_unlock:
  "fold (\<lambda>acc locks. locks(acc := lock_unlock e (locks acc))) ks locks =
     (\<lambda>k. if k \<in> set ks then lock_unlock e (locks k) else locks k)"
proof (induction ks arbitrary: locks)
  case (Cons a ks)
  show ?case
    unfolding fold.simps comp_def Cons.IH by (auto simp: rw.un_twice)
qed simp

lemma unlock_accounts_simps [simp]:
  "ec_acquired (unlock_accounts e c) = (ec_acquired c)(e := [])"
  "ec_locks (unlock_accounts e c) k = (if k \<in> set (ec_acquired c e) then lock_unlock e (ec_locks c k) else ec_locks c k)"
  "ec_ready (unlock_accounts e c) = ec_ready c" "ec_blocked (unlock_accounts e c) = ec_blocked c"
  "ec_mode (unlock_accounts e c) = ec_mode c" "ec_count (unlock_accounts e c) = ec_count c"
  by (simp_all add: unlock_accounts_def fold_unlock)

lemma unlock_accounts_ok: "locks_ok c \<Longrightarrow> locks_ok (unlock_accounts e c)"
  by (auto simp: locks_ok_def rw.un_releases)

text \<open>What another executor holds exclusively stays so.\<close>

definition keeps :: "executor_id \<Rightarrow> coordinator \<Rightarrow> coordinator \<Rightarrow> bool" where
  "keeps e c c' \<longleftrightarrow> (\<forall>f k. f \<noteq> e \<longrightarrow> ec_acquired c' f = ec_acquired c f \<and>
     (k \<in> set (ec_acquired c f) \<longrightarrow> lock_exclusive (ec_locks c' k) = lock_exclusive (ec_locks c k)))"

lemma keeps_refl [simp]: "keeps e c c"
  by (simp add: keeps_def)

lemma keeps_trans: "keeps e a b \<Longrightarrow> keeps e b c \<Longrightarrow> keeps e a c"
  by (auto simp: keeps_def)

lemma unlock_accounts_keeps:
  assumes "locks_ok c"
  shows "keeps e c (unlock_accounts e c)"
  unfolding keeps_def
proof (intro allI impI conjI)
  fix f k
  assume "f \<noteq> e" and "k \<in> set (ec_acquired c f)"
  then show "lock_exclusive (ec_locks (unlock_accounts e c) k) = lock_exclusive (ec_locks c k)"
    using rw.release_keeps [of "ec_locks c k" e f] by (simp add: locks_okD [OF assms])
qed simp

section \<open>Acquiring\<close>

lemma grant_ok:
  assumes "locks_ok c" and "e < 63"
    and "(if w then lock_write e (ec_locks c k) else lock_read e (ec_locks c k)) = Inr state"
    and "d = c\<lparr>ec_locks := (ec_locks c)(k := state), ec_acquired := (ec_acquired c)(e := ec_acquired c e @ [k])\<rparr>"
  shows "locks_ok d" and "keeps e c d"
proof -
  note granted = rw.granted [OF assms(2,3)]
  show "locks_ok d"
    using granted assms(1) by (auto simp: assms(4) locks_ok_def)
  show "keeps e c d"
    using granted by (auto simp: assms(4) keeps_def locks_okD [OF assms(1)])
qed

lemma acquire_same:
  "acquire e accounts c = (c', r) \<Longrightarrow>
   ec_ready c' = ec_ready c \<and> ec_blocked c' = ec_blocked c \<and> ec_mode c' = ec_mode c \<and> ec_count c' = ec_count c"
proof (induction e accounts c arbitrary: c' r rule: acquire.induct)
  case (2 e k w accounts c)
  then show ?case
    by (cases "if w then lock_write e (ec_locks c k) else lock_read e (ec_locks c k)") fastforce+
qed simp

text \<open>
  Either every account was acquired, those written exclusively, or nothing was and the blocker is an
  executor that holds one of them.
\<close>

lemma acquire_spec:
  assumes "acquire e accounts c = (c', r)" and "locks_ok c" and "e < 63"
  shows "locks_ok c' \<and> keeps e c c' \<and> ec_ready c' = ec_ready c \<and> ec_blocked c' = ec_blocked c \<and> ec_mode c' = ec_mode c \<and>
    ec_count c' = ec_count c \<and>
    (case r of
       Inr _ \<Rightarrow> ec_acquired c' e = ec_acquired c e @ map fst accounts \<and>
         (\<forall>k. (k, True) \<in> set accounts \<or> (e \<in> lock_holders (ec_locks c k) \<and> lock_exclusive (ec_locks c k)) \<longrightarrow>
           lock_exclusive (ec_locks c' k))
     | Inl b \<Rightarrow> ec_acquired c' e = [] \<and>
         (distinct (ec_acquired c e @ map fst accounts) \<longrightarrow> b \<noteq> e \<and> ec_acquired c b \<noteq> []))"
  using assms
proof (induction e accounts c arbitrary: c' r rule: acquire.induct)
  case (2 e k w accounts c)
  show ?case
  proof (cases "if w then lock_write e (ec_locks c k) else lock_read e (ec_locks c k)")
    case (Inl b)
    have holder: "k \<in> set (ec_acquired c b)"
      using rw.refused [OF _ Inl] locks_okD [OF "2.prems"(2)] by blast
    have "b \<noteq> e" "ec_acquired c b \<noteq> []" if "distinct (ec_acquired c e @ map fst ((k, w) # accounts))"
      using holder that by auto
    moreover have "c' = unlock_accounts e c" "r = Inl b"
      using "2.prems"(1) Inl by simp_all
    ultimately show ?thesis
      using unlock_accounts_ok unlock_accounts_keeps "2.prems"(2) by simp
  next
    case (Inr state)
    define d where "d = c\<lparr>ec_locks := (ec_locks c)(k := state), ec_acquired := (ec_acquired c)(e := ec_acquired c e @ [k])\<rparr>"
    note step = grant_ok [OF "2.prems"(2,3) Inr d_def]
    have granted: "w \<longrightarrow> lock_exclusive state" "\<not> (e \<in> lock_holders (ec_locks c k) \<and> lock_exclusive (ec_locks c k))"
      "e \<in> lock_holders state"
      using rw.granted [OF "2.prems"(3) Inr] by auto
    have "acquire e accounts d = (c', r)"
      using "2.prems"(1) Inr by (simp add: d_def)
    note ih = "2.IH" [OF Inr, folded d_def, OF this step(1) "2.prems"(3)]
    have fields: "ec_ready d = ec_ready c" "ec_blocked d = ec_blocked c" "ec_mode d = ec_mode c" "ec_count d = ec_count c"
      "ec_acquired d e = ec_acquired c e @ [k]" "\<And>b. b \<noteq> e \<Longrightarrow> ec_acquired d b = ec_acquired c b"
      "\<And>x. ec_locks d x = (if x = k then state else ec_locks c x)"
      by (simp_all add: d_def)
    show ?thesis
    proof (cases r)
      case (Inl b)
      then show ?thesis
        using ih keeps_trans [OF step(2)] fields(1-5) fields(6) [of b] by auto
    next
      case r: (Inr u)
      have "lock_exclusive (ec_locks c' x)"
        if "(x, True) \<in> set ((k, w) # accounts) \<or> (e \<in> lock_holders (ec_locks c x) \<and> lock_exclusive (ec_locks c x))" for x
      proof -
        have "(x, True) \<in> set accounts \<or> (e \<in> lock_holders (ec_locks d x) \<and> lock_exclusive (ec_locks d x))"
          using that granted by (auto simp: fields)
        then show ?thesis
          using ih r by auto
      qed
      then show ?thesis
        using ih keeps_trans [OF step(2)] fields r by simp
    qed
  qed
qed simp

end
