(* ===== verification/Scheduler.thy ===== *)
theory Scheduler
  imports Coordinator Watchtower
begin

text \<open>
  The transaction scheduler (\<open>src/magicblock-validator/magicblock-processor/src/scheduler/mod.rs\<close>): transactions
  are handed to idle executors when their accounts can be locked and queued behind a blocker
  otherwise, every handed-out signature is folded into the hash of the block, and slots are closed
  by the clock of a primary or by the blocks a replica receives. The loop of the scheduler is the step
  relation \<open>sched_step\<close>, one rule for each branch of its \<open>select!\<close>. What an executor is running is part of the
  state; it announces itself ready when it is done. A dead executor is one whose channel refuses.
  The ledger, the accounts database and the clock appear as arguments; sysvars, the program cache, pause
  permits and snapshots are not modelled.
\<close>

section \<open>State\<close>

record block =
  bk_slot :: u64
  bk_hash :: bytes
  bk_timestamp :: int

datatype replication_message = TransactionMessage u64 u32 bytes | BlockMessage block

record indexed_transaction =
  it_slot :: u64
  it_index :: u32
  it_txn :: processable

record scheduler =
  sd_coordinator :: coordinator
  sd_hasher :: bytes
  sd_slot :: u64
  sd_index :: u32
  sd_next_id :: u64
  sd_initial :: bool
  sd_replication :: bool
  sd_alive :: "executor_id \<Rightarrow> bool"
  sd_running :: "executor_id \<Rightarrow> indexed_transaction option"
  sd_sent :: "indexed_transaction list"
  sd_replicated :: "replication_message list"
  sd_blocks :: "block list"
  sd_divergences :: nat

text \<open>What the scheduler reads from the ledger and the accounts database.\<close>

record ledger_view =
  lv_blockhash :: bytes
  lv_snapshot_hash :: "bytes option"
  lv_latest_slot :: u64
  lv_accounts_slot :: u64
  lv_signatures :: "u64 \<Rightarrow> bytes list option"

definition initial_blockhash :: "ledger_view \<Rightarrow> bytes" where
  "initial_blockhash L =
     (if lv_blockhash L \<noteq> replicate 32 0 then lv_blockhash L
      else case lv_snapshot_hash L of Some hash \<Rightarrow> hash | None \<Rightarrow> replicate 32 0)"

definition scheduler_new :: "u32 \<Rightarrow> bool \<Rightarrow> (executor_id \<Rightarrow> bool) \<Rightarrow> ledger_view \<Rightarrow> scheduler" where
  "scheduler_new executors replication alive L =
     (let count = min (max (unat executors) 1) MAX_SVM_EXECUTORS in
      \<lparr>sd_coordinator = coordinator_new count, sd_hasher = initial_blockhash L, sd_slot = lv_accounts_slot L + 1,
       sd_index = 0, sd_next_id = 0, sd_initial = True, sd_replication = replication, sd_alive = alive,
       sd_running = (\<lambda>_. None), sd_sent = [], sd_replicated = [], sd_blocks = [], sd_divergences = 0\<rparr>)"

definition is_replicating :: "scheduler \<Rightarrow> bool" where
  "is_replicating s \<longleftrightarrow> sd_replication s \<and> is_primary (sd_coordinator s)"

section \<open>Transactions\<close>

definition dispatch :: "executor_id \<Rightarrow> processable \<Rightarrow> scheduler \<Rightarrow> scheduler" where
  "dispatch executor txn s =
     (let (slot, index) =
            (case pt_mode txn of
               Replaying slot index _ \<Rightarrow> (slot, index)
             | Simulation \<Rightarrow> (sd_slot s, 0)
             | Execution \<Rightarrow> (sd_slot s, sd_index s));
          s = (if pt_mode txn = Execution then s\<lparr>sd_index := sd_index s + 1\<rparr> else s);
          s = (if pt_mode txn = Simulation then s else s\<lparr>sd_hasher := sd_hasher s @ pt_signature txn\<rparr>);
          msg = (case pt_encoded txn of
                   Some payload \<Rightarrow>
                     if pt_mode txn = Execution \<and> is_replicating s then [TransactionMessage slot index payload] else []
                 | None \<Rightarrow> []);
          indexed = \<lparr>it_slot = slot, it_index = index, it_txn = txn\<rparr>
      in
      if sd_alive s executor
      then s\<lparr>sd_running := (sd_running s)(executor := Some indexed), sd_sent := sd_sent s @ [indexed],
             sd_replicated := sd_replicated s @ msg\<rparr>
      else s)"

definition schedule_transaction :: "executor_id \<Rightarrow> txn_with_id \<Rightarrow> scheduler \<Rightarrow> scheduler \<times> executor_id option" where
  "schedule_transaction executor txn s =
     (case try_schedule executor txn (sd_coordinator s) of
        (c, Inl blocker) \<Rightarrow> (s\<lparr>sd_coordinator := c\<rparr>, Some blocker)
      | (c, Inr txn) \<Rightarrow> (dispatch executor txn (s\<lparr>sd_coordinator := c\<rparr>), None))"

text \<open>Without an executor in reserve the source panics; \<open>is_ready\<close> is checked before.\<close>

definition handle_new_transaction :: "processable \<Rightarrow> scheduler \<Rightarrow> scheduler option" where
  "handle_new_transaction txn s =
     (if \<not> is_transaction_allowed (pt_mode txn) (sd_coordinator s) then Some s
      else
        case get_ready_executor (sd_coordinator s) of
          (None, _) \<Rightarrow> None
        | (Some executor, c) \<Rightarrow>
            Some (fst (schedule_transaction executor \<lparr>ti_id = sd_next_id s, ti_txn = txn\<rparr>
              (s\<lparr>sd_coordinator := c, sd_next_id := sd_next_id s + 1\<rparr>))))"

lemma dispatch_coordinator [simp]: "sd_coordinator (dispatch e t s) = sd_coordinator s"
  by (simp add: dispatch_def Let_def case_prod_unfold)

lemma schedule_transaction_queue:
  "schedule_transaction e t s = (s', blocked) \<Longrightarrow> blocked \<noteq> Some b \<Longrightarrow>
     ec_blocked (sd_coordinator s') b = ec_blocked (sd_coordinator s) b"
  using acquire_same
  by (auto simp: schedule_transaction_def try_schedule_def try_acquire_locks_def queue_transaction_def release_executor_def
      split: prod.splits sum.splits if_splits)

function reschedule_blocked_transactions :: "executor_id \<Rightarrow> executor_id option \<Rightarrow> scheduler \<Rightarrow> scheduler" where
  "reschedule_blocked_transactions blocker None s = s"
| "reschedule_blocked_transactions blocker (Some exec) s =
     (case next_blocked_transaction blocker (sd_coordinator s) of
        (None, c) \<Rightarrow> s\<lparr>sd_coordinator := release_executor exec c\<rparr>
      | (Some txn, c) \<Rightarrow>
          (case schedule_transaction exec txn (s\<lparr>sd_coordinator := c\<rparr>) of
             (s, blocked) \<Rightarrow>
               if blocked = Some blocker then s
               else
                 case get_ready_executor (sd_coordinator s) of
                   (executor, c) \<Rightarrow> reschedule_blocked_transactions blocker executor (s\<lparr>sd_coordinator := c\<rparr>)))"
  by pat_completeness auto
termination
proof (relation "measure (\<lambda>(blocker, _, s). length (ec_blocked (sd_coordinator s) blocker))", goal_cases)
  case (2 blocker exec s a c txn s' blocked executor c')
  then have popped: "next_blocked_transaction blocker (sd_coordinator s) = (Some txn, c)"
    and scheduled: "schedule_transaction exec txn (s\<lparr>sd_coordinator := c\<rparr>) = (s', blocked)" "blocked \<noteq> Some blocker"
    and taken: "get_ready_executor (sd_coordinator s') = (executor, c')"
    by simp_all
  have "ec_blocked c' blocker = ec_blocked c blocker"
    using taken schedule_transaction_queue [OF scheduled] by (auto simp: get_ready_executor_def split: if_splits)
  moreover have "length (ec_blocked c blocker) < length (ec_blocked (sd_coordinator s) blocker)"
    using popped by (auto simp: next_blocked_transaction_def Let_def split: list.splits)
  ultimately show ?case
    by simp
qed simp

definition handle_ready_executor :: "executor_id \<Rightarrow> scheduler \<Rightarrow> scheduler" where
  "handle_ready_executor executor s =
     reschedule_blocked_transactions executor (Some executor)
       (s\<lparr>sd_coordinator := unlock_accounts executor (sd_coordinator s)\<rparr>)"

section \<open>Blocks\<close>

definition prepare_block_as_primary :: "crypto \<Rightarrow> int \<Rightarrow> scheduler \<Rightarrow> block \<times> scheduler" where
  "prepare_block_as_primary C timestamp s =
     (let block = \<lparr>bk_slot = sd_slot s, bk_hash = blake3 C (sd_hasher s), bk_timestamp = timestamp\<rparr>
      in (block, if is_replicating s then s\<lparr>sd_replicated := sd_replicated s @ [BlockMessage block]\<rparr> else s))"

definition finalize_block :: "bool \<Rightarrow> block \<Rightarrow> scheduler \<Rightarrow> scheduler" where
  "finalize_block written block s =
     (if is_primary (sd_coordinator s) \<and> written then s\<lparr>sd_blocks := sd_blocks s @ [block]\<rparr> else s)"

definition update_sysvars :: "block \<Rightarrow> scheduler \<Rightarrow> scheduler" where
  "update_sysvars block s = s\<lparr>sd_hasher := bk_hash block, sd_slot := bk_slot block + 1, sd_index := 0\<rparr>"

definition transition_to_new_slot :: "crypto \<Rightarrow> int \<Rightarrow> bool \<Rightarrow> scheduler \<Rightarrow> scheduler" where
  "transition_to_new_slot C timestamp written s =
     (let (block, s) = prepare_block_as_primary C timestamp s
      in update_sysvars block (finalize_block written block s))"

definition verify_block_as_replica :: "crypto \<Rightarrow> block \<Rightarrow> scheduler \<Rightarrow> scheduler" where
  "verify_block_as_replica C block s =
     (let is_initial = sd_initial s;
          s = s\<lparr>sd_initial := False\<rparr>
      in
      if bk_hash block = blake3 C (sd_hasher s) then s
      else if is_initial then s
      else s\<lparr>sd_divergences := sd_divergences s + 1\<rparr>)"

datatype block_refusal = InPrimaryMode | LedgerWriteFailed | ExecutorGone

definition notify_executors_of_block :: "scheduler \<Rightarrow> block_refusal + unit" where
  "notify_executors_of_block s =
     (if list_all (sd_alive s) [0..<ec_count (sd_coordinator s)] then Inr () else Inl ExecutorGone)"

definition apply_replayed_block :: "crypto \<Rightarrow> bool \<Rightarrow> block \<Rightarrow> scheduler \<Rightarrow> scheduler \<times> (block_refusal + unit)" where
  "apply_replayed_block C written block s =
     (if is_primary (sd_coordinator s) then (s, Inl InPrimaryMode)
      else if \<not> written then (s, Inl LedgerWriteFailed)
      else
        let s = update_sysvars block (verify_block_as_replica C block (s\<lparr>sd_blocks := sd_blocks s @ [block]\<rparr>))
        in (s, notify_executors_of_block s))"

definition resync_from_ledger :: "ledger_view \<Rightarrow> scheduler \<Rightarrow> scheduler" where
  "resync_from_ledger L s =
     s\<lparr>sd_hasher := initial_blockhash L, sd_slot := max (lv_accounts_slot L) (lv_latest_slot L) + 1, sd_index := 0\<rparr>"

definition reconstruct_inprogress_hasher :: "ledger_view \<Rightarrow> scheduler \<Rightarrow> scheduler" where
  "reconstruct_inprogress_hasher L s =
     (case lv_signatures L (sd_slot s) of
        Some signatures \<Rightarrow> s\<lparr>sd_hasher := foldl (@) (sd_hasher s) signatures\<rparr>
      | None \<Rightarrow> s)"

definition enter_primary :: "scheduler \<Rightarrow> scheduler" where
  "enter_primary s = s\<lparr>sd_coordinator := switch_to_primary_mode (sd_coordinator s)\<rparr>"

definition enter_replica :: "ledger_view \<Rightarrow> scheduler \<Rightarrow> scheduler" where
  "enter_replica L s =
     (reconstruct_inprogress_hasher L
       (resync_from_ledger L (s\<lparr>sd_coordinator := switch_to_replica_mode (sd_coordinator s)\<rparr>)))\<lparr>sd_initial := True\<rparr>"

section \<open>The loop\<close>

text \<open>
  The transactions the channel may deliver are those \<open>admits\<close> accepts. A slot that ends on a superblock
  boundary first drains the executors, which are \<open>executor_ready\<close> steps here.
\<close>

inductive sched_step :: "(processable \<Rightarrow> bool) \<Rightarrow> crypto \<Rightarrow> scheduler \<Rightarrow> scheduler \<Rightarrow> bool" for admits C where
  new_transaction: "admits txn \<Longrightarrow> is_ready (sd_coordinator s) \<Longrightarrow> handle_new_transaction txn s = Some s' \<Longrightarrow> sched_step admits C s s'"
| executor_ready: "sd_running s executor = Some indexed \<Longrightarrow>
    sched_step admits C s (handle_ready_executor executor (s\<lparr>sd_running := (sd_running s)(executor := None)\<rparr>))"
| slot_tick: "is_primary (sd_coordinator s) \<Longrightarrow> sched_step admits C s (transition_to_new_slot C timestamp written s)"
| to_primary: "sched_step admits C s (enter_primary s)"
| to_replica: "sched_step admits C s (enter_replica L s)"
| replayed_block: "is_idle (sd_coordinator s) \<Longrightarrow> sched_step admits C s (fst (apply_replayed_block C written block s))"

inductive_cases sched_stepE [elim, consumes 1, case_names new_transaction executor_ready slot_tick to_primary to_replica replayed_block]:
  "sched_step admits C s s'"

inductive sched_reach :: "(processable \<Rightarrow> bool) \<Rightarrow> crypto \<Rightarrow> scheduler \<Rightarrow> scheduler \<Rightarrow> bool" for admits C s0 where
  reach_refl: "sched_reach admits C s0 s0"
| reach_step: "sched_reach admits C s0 s \<Longrightarrow> sched_step admits C s s' \<Longrightarrow> sched_reach admits C s0 s'"

end
