(* ===== verification/Scheduler_Progress.thy ===== *)
theory Scheduler_Progress
  imports Scheduler_Safety
begin

text \<open>
  Blocked transactions make progress: each waits for an executor that is running, every notification
  of an executor lowers the amount of outstanding work, and so the wait for idle executors before a
  snapshot ends.
\<close>

section \<open>Waiting for idle executors\<close>

text \<open>\<open>pick\<close> is the executor whose notification arrives next; the fuel counts notifications.\<close>

fun pause_executors_for_snapshot :: "(scheduler \<Rightarrow> executor_id) \<Rightarrow> nat \<Rightarrow> scheduler \<Rightarrow> scheduler option" where
  "pause_executors_for_snapshot pick 0 s = (if is_idle (sd_coordinator s) then Some s else None)"
| "pause_executors_for_snapshot pick (Suc fuel) s =
     (if is_idle (sd_coordinator s) then Some s
      else pause_executors_for_snapshot pick fuel
        (handle_ready_executor (pick s) (s\<lparr>sd_running := (sd_running s)(pick s := None)\<rparr>)))"

section \<open>Queues\<close>

definition account_keys :: "processable \<Rightarrow> bytes list" where
  "account_keys txn = map fst (pt_accounts txn)"

definition queues_ok :: "coordinator \<Rightarrow> bool" where
  "queues_ok c \<longleftrightarrow> (\<forall>e. \<forall>t \<in> set (ec_blocked c e). distinct (account_keys (ti_txn t))) \<and>
     (\<forall>e. ec_blocked c e \<noteq> [] \<longrightarrow> e < ec_count c) \<and> (\<forall>e \<in> set (ec_ready c). ec_blocked c e = [])"

text \<open>Executors that are neither ready nor in hand have something to run.\<close>

definition busy_inv :: "executor_id set \<Rightarrow> scheduler \<Rightarrow> bool" where
  "busy_inv hand s \<longleftrightarrow> (\<forall>e. sd_alive s e) \<and>
     (\<forall>e < ec_count (sd_coordinator s). e \<in> hand \<union> set (ec_ready (sd_coordinator s)) \<or> sd_running s e \<noteq> None)"

definition load :: "scheduler \<Rightarrow> nat" where
  "load s = (\<Sum>e < ec_count (sd_coordinator s).
     length (ec_blocked (sd_coordinator s) e) + of_bool (sd_running s e \<noteq> None))"

lemma load_update:
  assumes "ec_count (sd_coordinator s') = ec_count (sd_coordinator s)" and "e < ec_count (sd_coordinator s)"
    and "\<And>f. f \<noteq> e \<Longrightarrow> ec_blocked (sd_coordinator s') f = ec_blocked (sd_coordinator s) f"
    and "\<And>f. f \<noteq> e \<Longrightarrow> sd_running s' f = sd_running s f"
  shows "load s' + length (ec_blocked (sd_coordinator s) e) + of_bool (sd_running s e \<noteq> None) =
    load s + length (ec_blocked (sd_coordinator s') e) + of_bool (sd_running s' e \<noteq> None)"
proof -
  have "(\<Sum>f \<in> {..<ec_count (sd_coordinator s)} - {e}.
      length (ec_blocked (sd_coordinator s') f) + of_bool (sd_running s' f \<noteq> None)) =
    (\<Sum>f \<in> {..<ec_count (sd_coordinator s)} - {e}.
      length (ec_blocked (sd_coordinator s) f) + (of_bool (sd_running s f \<noteq> None) :: nat))"
    using assms(3,4) by (intro sum.cong) auto
  moreover have "e \<in> {..<ec_count (sd_coordinator s)}"
    using assms(2) by simp
  ultimately show ?thesis
    by (simp add: load_def assms(1) sum.remove [of _ e])
qed

section \<open>One attempt to schedule\<close>

lemma schedule_outcome:
  assumes "sched_inv {e} s" and "busy_inv {e} s" and "distinct (account_keys (ti_txn t))"
    and "schedule_transaction e t s = (s', blocked)"
  obtains (running) "blocked = None" "ec_ready (sd_coordinator s') = ec_ready (sd_coordinator s)"
      "ec_blocked (sd_coordinator s') = ec_blocked (sd_coordinator s)" "busy_inv {} s'" "load s' = Suc (load s)"
    | (queued) b where "blocked = Some b" "b \<noteq> e" "b < ec_count (sd_coordinator s)" "b \<notin> set (ec_ready (sd_coordinator s))"
      "ec_ready (sd_coordinator s') = ec_ready (sd_coordinator s) @ [e]"
      "ec_blocked (sd_coordinator s') =
         (ec_blocked (sd_coordinator s))(b := heap_push t (ec_blocked (sd_coordinator s) b))"
      "busy_inv {} s'" "load s' = Suc (load s)"
proof -
  obtain c r where acquired: "try_acquire_locks e (ti_txn t) (sd_coordinator s) = (c, r)"
    by fastforce
  note spec = exec_inv_acquire [OF assms(1) acquired]
  have e: "e < ec_count (sd_coordinator s)" "sd_running s e = None" "e < 63" "locks_ok (sd_coordinator s)"
    using assms(1) by (auto simp: exec_inv_def)
  have alive: "\<forall>f. sd_alive s f"
    using assms(2) by (simp add: busy_inv_def)
  have same: "ec_ready c = ec_ready (sd_coordinator s)" "ec_blocked c = ec_blocked (sd_coordinator s)"
    "ec_count c = ec_count (sd_coordinator s)"
    using acquire_spec [OF acquired [unfolded try_acquire_locks_def] e(4,3)] by simp_all
  show thesis
  proof (cases r)
    case (Inl b)
    let ?c = "queue_transaction b t (release_executor e c)"
    have s': "s' = s\<lparr>sd_coordinator := ?c\<rparr>" "blocked = Some b"
      using assms(4) acquired Inl by (simp_all add: schedule_transaction_def try_schedule_def)
    have b: "b \<noteq> e" "ec_acquired (sd_coordinator s) b \<noteq> []"
      using spec Inl assms(3) by (simp_all add: account_keys_def)
    then have b': "b < ec_count (sd_coordinator s)" "b \<notin> set (ec_ready (sd_coordinator s))"
      using assms(1) by (auto simp: exec_inv_def)
    have c: "ec_ready ?c = ec_ready (sd_coordinator s) @ [e]" "ec_count ?c = ec_count (sd_coordinator s)"
      "ec_blocked ?c = (ec_blocked (sd_coordinator s))(b := heap_push t (ec_blocked (sd_coordinator s) b))"
      using same by (simp_all add: queue_transaction_def release_executor_def)
    have "load s' = Suc (load s)"
      using load_update [of s' s b] b' c s' by (simp add: heap_push_def)
    moreover have "busy_inv {} s'"
      using assms(2) c s' by (auto simp: busy_inv_def)
    ultimately show thesis
      using queued [of b] s' b b' c by simp
  next
    case (Inr u)
    obtain it where "it_txn it = ti_txn t" and it: "sd_running (dispatch e (ti_txn t) (s\<lparr>sd_coordinator := c\<rparr>)) =
        (if sd_alive s e then (sd_running s)(e := Some it) else sd_running s)"
      by (rule dispatch_running [of "ti_txn t" e "s\<lparr>sd_coordinator := c\<rparr>"]) simp
    have s': "s' = dispatch e (ti_txn t) (s\<lparr>sd_coordinator := c\<rparr>)" "blocked = None"
      using assms(4) acquired Inr by (simp_all add: schedule_transaction_def try_schedule_def)
    have run: "sd_running s' = (sd_running s)(e := Some it)"
      using it alive s' by simp
    have "load s' = Suc (load s)"
      using load_update [of s' s e] e run s' same by simp
    moreover have "busy_inv {} s'"
      using assms(2) run s' same by (auto simp: busy_inv_def)
    ultimately show thesis
      using running s' same by simp
  qed
qed

lemma schedule_transaction_count:
  "schedule_transaction e t s = (s', blocked) \<Longrightarrow> ec_count (sd_coordinator s') = ec_count (sd_coordinator s)"
  by (auto simp: schedule_transaction_def try_schedule_def try_acquire_locks_def queue_transaction_def release_executor_def
      dest: acquire_same split: prod.splits sum.splits)

section \<open>Draining a queue\<close>

text \<open>While the queue of \<open>blocker\<close> is drained, it is the only idle executor that may have one.\<close>

definition draining :: "executor_id \<Rightarrow> executor_id option \<Rightarrow> scheduler \<Rightarrow> bool" where
  "draining blocker exec s \<longleftrightarrow> sched_inv (set_option exec) s \<and> busy_inv (set_option exec) s \<and> queues_ok (sd_coordinator s) \<and>
     (\<forall>e. exec = Some e \<longrightarrow> blocker \<notin> set (ec_ready (sd_coordinator s)) \<and> (e \<noteq> blocker \<longrightarrow> ec_blocked (sd_coordinator s) e = []))"

lemma draining_pop:
  assumes "draining blocker (Some exec) s" and "next_blocked_transaction blocker (sd_coordinator s) = (txn, c)"
  shows "draining blocker (Some exec) (s\<lparr>sd_coordinator := c\<rparr>)"
    and "load s = load (s\<lparr>sd_coordinator := c\<rparr>) + of_bool (txn \<noteq> None)"
    and "txn = None \<Longrightarrow> ec_blocked c blocker = []" and "txn = Some t \<Longrightarrow> distinct (account_keys (ti_txn t))"
proof -
  have c: "ec_blocked c = (ec_blocked (sd_coordinator s))(blocker := tl (ec_blocked (sd_coordinator s) blocker))"
    "ec_ready c = ec_ready (sd_coordinator s)" "ec_count c = ec_count (sd_coordinator s)"
    and txn: "txn = (case ec_blocked (sd_coordinator s) blocker of [] \<Rightarrow> None | t # _ \<Rightarrow> Some t)"
    using assms(2) by (auto simp: next_blocked_transaction_def Let_def)
  have q: "queues_ok (sd_coordinator s)"
    using assms(1) by (simp add: draining_def)
  have "set (ec_blocked c e) \<subseteq> set (ec_blocked (sd_coordinator s) e)" for e
    by (cases "ec_blocked (sd_coordinator s) e") (auto simp: c)
  moreover have "ec_blocked (sd_coordinator s) e \<noteq> []" if "ec_blocked c e \<noteq> []" for e
    using that by (auto simp: c split: if_splits)
  ultimately have "queues_ok c"
    using q c(2,3) unfolding queues_ok_def by (metis subsetD)
  then show "draining blocker (Some exec) (s\<lparr>sd_coordinator := c\<rparr>)"
    using assms(1) exec_inv_next [OF assms(2)] c by (auto simp: draining_def busy_inv_def)
  show "load s = load (s\<lparr>sd_coordinator := c\<rparr>) + of_bool (txn \<noteq> None)"
  proof (cases "ec_blocked (sd_coordinator s) blocker")
    case Nil
    with c txn show ?thesis
      by (simp add: load_def fun_upd_idem)
  next
    case (Cons t ts)
    then have "blocker < ec_count (sd_coordinator s)"
      using q by (simp add: queues_ok_def)
    with load_update [of "s\<lparr>sd_coordinator := c\<rparr>" s blocker] c txn Cons show ?thesis
      by simp
  qed
  show "ec_blocked c blocker = []" if "txn = None"
    using txn c that by (simp split: list.splits)
  show "distinct (account_keys (ti_txn t))" if "txn = Some t"
  proof -
    have "t \<in> set (ec_blocked (sd_coordinator s) blocker)"
      using txn that by (simp split: list.splits)
    then show ?thesis
      using q unfolding queues_ok_def by blast
  qed
qed

lemma take_ready:
  assumes "sched_inv {} s" and "busy_inv {} s" and "get_ready_executor (sd_coordinator s) = (taken, c)"
  shows "exec_inv (set_option taken) c (sd_running s)" and "busy_inv (set_option taken) (s\<lparr>sd_coordinator := c\<rparr>)"
    and "set (ec_ready c) = set (ec_ready (sd_coordinator s)) - set_option taken" and "set_option taken \<subseteq> set (ec_ready (sd_coordinator s))"
    and "ec_blocked c = ec_blocked (sd_coordinator s)" and "ec_count c = ec_count (sd_coordinator s)"
    and "ec_ready (sd_coordinator s) = es @ [e] \<Longrightarrow> taken = Some e"
proof -
  show "exec_inv (set_option taken) c (sd_running s)"
    by (rule exec_inv_take [OF assms(1,3)])
  have "distinct (ec_ready (sd_coordinator s))"
    using assms(1) by (simp add: exec_inv_def)
  then show "set (ec_ready c) = set (ec_ready (sd_coordinator s)) - set_option taken"
    "set_option taken \<subseteq> set (ec_ready (sd_coordinator s))"
    "busy_inv (set_option taken) (s\<lparr>sd_coordinator := c\<rparr>)"
    using assms(2,3)
    by (cases "ec_ready (sd_coordinator s)" rule: rev_cases; auto simp: get_ready_executor_def busy_inv_def)+
  show "ec_blocked c = ec_blocked (sd_coordinator s)" "ec_count c = ec_count (sd_coordinator s)"
    "ec_ready (sd_coordinator s) = es @ [e] \<Longrightarrow> taken = Some e"
    using assms(3) by (auto simp: get_ready_executor_def split: if_splits)
qed

lemma draining_schedule:
  assumes "draining blocker (Some exec) s" and "distinct (account_keys (ti_txn t))"
    and "schedule_transaction exec t s = (s', blocked)" and "get_ready_executor (sd_coordinator s') = (taken, c)"
  shows "sched_inv {} s' \<and> busy_inv {} s' \<and> load s' = Suc (load s) \<and>
    (if blocked = Some blocker then queues_ok (sd_coordinator s') else draining blocker taken (s'\<lparr>sd_coordinator := c\<rparr>))"
proof -
  have d: "sched_inv {exec} s" "busy_inv {exec} s" "queues_ok (sd_coordinator s)" "blocker \<notin> set (ec_ready (sd_coordinator s))"
    "exec \<noteq> blocker \<longrightarrow> ec_blocked (sd_coordinator s) exec = []"
    using assms(1) by (simp_all add: draining_def)
  have inv: "sched_inv {} s'"
    by (rule schedule_transaction_inv [OF d(1) assms(3)])
  have hand: "exec \<notin> set (ec_ready (sd_coordinator s))" "distinct (ec_ready (sd_coordinator s'))"
    using d(1) inv by (auto simp: exec_inv_def)
  have count: "ec_count (sd_coordinator s') = ec_count (sd_coordinator s)"
    by (rule schedule_transaction_count [OF assms(3)])
  from d(1,2) assms(2,3) show ?thesis
  proof (cases rule: schedule_outcome)
    case running
    note taken = take_ready [OF inv running(4) assms(4)]
    have "queues_ok c"
      using d(3) running(2,3) taken(3,5,6) count by (auto simp: queues_ok_def)
    then show ?thesis
      using running inv taken d(3,4) by (auto simp: draining_def queues_ok_def)
  next
    case (queued b)
    note taken = take_ready [OF inv queued(7) assms(4)]
    have exec: "taken = Some exec"
      by (rule taken(7) [OF queued(5)])
    have queues: "distinct (account_keys (ti_txn u))" if "u \<in> set (ec_blocked (sd_coordinator s') f)" for u f
      using that d(3) assms(2) by (auto simp: queued(6) queues_ok_def heap_push_def set_insort_key split: if_splits)
    have bound: "f < ec_count (sd_coordinator s)" if "ec_blocked (sd_coordinator s') f \<noteq> []" for f
      using that d(3) queued(3) by (auto simp: queued(6) queues_ok_def split: if_splits)
    have empty: "ec_blocked (sd_coordinator s') f = []" if "f \<in> set (ec_ready (sd_coordinator s))" for f
      using that d(3) queued(4) by (auto simp: queued(6) queues_ok_def)
    have own: "exec \<noteq> blocker \<longrightarrow> ec_blocked (sd_coordinator s') exec = []"
      using d(5) queued(2) by (simp add: queued(6))
    show ?thesis
    proof (cases "b = blocker")
      case True
      then have "queues_ok (sd_coordinator s')"
        using queues bound empty own queued(2,5) count by (auto simp: queues_ok_def)
      then show ?thesis
        using True queued inv by simp
    next
      case False
      have "queues_ok c"
        using queues bound empty taken(3,5,6) exec queued(5) count by (auto simp: queues_ok_def)
      then have "draining blocker taken (s'\<lparr>sd_coordinator := c\<rparr>)"
        using taken(1,2,3,5) exec own d(4) queued(5) by (auto simp: draining_def)
      then show ?thesis
        using False queued inv by simp
    qed
  qed
qed

lemma reschedule_drains:
  "draining blocker exec s \<Longrightarrow> s' = reschedule_blocked_transactions blocker exec s \<Longrightarrow>
   sched_inv {} s' \<and> busy_inv {} s' \<and> queues_ok (sd_coordinator s') \<and> load s' \<le> load s"
proof (induction blocker exec s arbitrary: s' rule: reschedule_blocked_transactions.induct)
  case (1 blocker s)
  then show ?case
    by (simp add: draining_def)
next
  case (2 blocker exec s)
  obtain txn c where popped: "next_blocked_transaction blocker (sd_coordinator s) = (txn, c)"
    by fastforce
  note pop = draining_pop [OF "2.prems"(1) popped]
  show ?case
  proof (cases txn)
    case None
    then have s': "s' = s\<lparr>sd_coordinator := release_executor exec c\<rparr>"
      using "2.prems"(2) popped by simp
    have "ec_blocked c exec = []"
      using pop(1,3) None by (cases "exec = blocker") (auto simp: draining_def)
    then have "queues_ok (release_executor exec c)" "busy_inv {} s'"
      using pop(1) by (auto simp: s' draining_def queues_ok_def busy_inv_def release_executor_def)
    moreover have "load s' = load s"
      using pop(2) None by (simp add: s' load_def release_executor_def)
    ultimately show ?thesis
      using exec_inv_release [of exec c] pop(1) by (simp add: s' draining_def)
  next
    case (Some t)
    obtain s1 blocked where scheduled: "schedule_transaction exec t (s\<lparr>sd_coordinator := c\<rparr>) = (s1, blocked)"
      by fastforce
    obtain taken c' where next_up: "get_ready_executor (sd_coordinator s1) = (taken, c')"
      by fastforce
    note step = draining_schedule [OF pop(1) pop(4) [OF Some] scheduled next_up]
    have load: "load (s1\<lparr>sd_coordinator := c'\<rparr>) = load s1" "load s1 = load s"
      using step pop(2) Some next_up by (auto simp: load_def get_ready_executor_def split: if_splits)
    show ?thesis
    proof (cases "blocked = Some blocker")
      case True
      then have "s' = s1"
        using "2.prems"(2) popped Some scheduled by simp
      then show ?thesis
        using step True load by simp
    next
      case False
      then have "s' = reschedule_blocked_transactions blocker taken (s1\<lparr>sd_coordinator := c'\<rparr>)"
        using "2.prems"(2) popped Some scheduled next_up by simp
      then show ?thesis
        using "2.IH" [OF popped [symmetric] Some scheduled [symmetric] False next_up [symmetric], of s'] step False load by simp
    qed
  qed
qed

lemma handle_ready_executor_progress:
  assumes "sched_inv {} s" and "busy_inv {} s" and "queues_ok (sd_coordinator s)" and "sd_running s e = Some it"
    and "s' = handle_ready_executor e (s\<lparr>sd_running := (sd_running s)(e := None)\<rparr>)"
  shows "sched_inv {} s' \<and> busy_inv {} s' \<and> queues_ok (sd_coordinator s') \<and> load s' < load s"
proof -
  let ?s = "s\<lparr>sd_running := (sd_running s)(e := None), sd_coordinator := unlock_accounts e (sd_coordinator s)\<rparr>"
  have e: "e < ec_count (sd_coordinator s)" "e \<notin> set (ec_ready (sd_coordinator s))"
    using assms(1,4) by (auto simp: exec_inv_def)
  have "draining e (Some e) ?s"
    using exec_inv_finish [OF assms(1,4)] assms(2,3) e by (auto simp: draining_def busy_inv_def queues_ok_def)
  moreover have "load s = Suc (load ?s)"
    using load_update [of ?s s e] e assms(4) by simp
  ultimately show ?thesis
    using reschedule_drains [of e "Some e" ?s s'] assms(5) by (simp add: handle_ready_executor_def del: reschedule_blocked_transactions.simps)
qed

section \<open>Reachable states\<close>

definition progress_inv :: "scheduler \<Rightarrow> bool" where
  "progress_inv s \<longleftrightarrow> sched_inv {} s \<and> busy_inv {} s \<and> queues_ok (sd_coordinator s)"

lemma handle_new_transaction_progress:
  assumes "progress_inv s" and "distinct (account_keys txn)" and "handle_new_transaction txn s = Some s'"
  shows "progress_inv s'"
proof (cases "is_transaction_allowed (pt_mode txn) (sd_coordinator s)")
  case True
  let ?t = "\<lparr>ti_id = sd_next_id s, ti_txn = txn\<rparr>"
  obtain e c where taken: "get_ready_executor (sd_coordinator s) = (Some e, c)"
    and s': "s' = fst (schedule_transaction e ?t (s\<lparr>sd_coordinator := c, sd_next_id := sd_next_id s + 1\<rparr>))"
    using assms(3) True by (auto simp: handle_new_transaction_def split: prod.splits option.splits)
  let ?s = "s\<lparr>sd_coordinator := c, sd_next_id := sd_next_id s + 1\<rparr>"
  have inv: "sched_inv {} s" "busy_inv {} s" "queues_ok (sd_coordinator s)"
    using assms(1) by (simp_all add: progress_inv_def)
  note take = take_ready [OF inv(1,2) taken]
  have start: "sched_inv {e} ?s" "busy_inv {e} ?s" "distinct (account_keys (ti_txn ?t))"
    using take(1,2) assms(2) by (simp_all add: busy_inv_def)
  obtain blocked where scheduled: "schedule_transaction e ?t ?s = (s', blocked)"
    using s' by (cases "schedule_transaction e ?t ?s") simp
  have inv': "sched_inv {} s'"
    by (rule schedule_transaction_inv [OF start(1) scheduled])
  have count: "ec_count (sd_coordinator s') = ec_count c"
    using schedule_transaction_count [OF scheduled] by simp
  have free: "ec_blocked c e = []" "\<forall>f \<in> set (ec_ready c). ec_blocked c f = []"
    using inv(3) take(3,4,5) by (auto simp: queues_ok_def)
  from start scheduled show ?thesis
  proof (cases rule: schedule_outcome)
    case running
    then show ?thesis
      using inv(3) inv' take(3,5,6) count by (auto simp: progress_inv_def queues_ok_def)
  next
    case (queued b)
    have "distinct (account_keys (ti_txn u))" if "u \<in> set (ec_blocked (sd_coordinator s') f)" for u f
      using that inv(3) assms(2) by (auto simp: queued(6) take(5) queues_ok_def heap_push_def set_insort_key split: if_splits)
    moreover have "f < ec_count c" if "ec_blocked (sd_coordinator s') f \<noteq> []" for f
      using that inv(3) queued(3) take(5,6) by (auto simp: queued(6) queues_ok_def split: if_splits)
    moreover have "ec_blocked (sd_coordinator s') f = []" if "f \<in> set (ec_ready c) \<or> f = e" for f
      using that free queued(2,4) by (auto simp: queued(6))
    ultimately have "queues_ok (sd_coordinator s')"
      using queued(5) count by (auto simp: queues_ok_def)
    then show ?thesis
      using queued(7) inv' by (simp add: progress_inv_def)
  qed
qed (use assms in \<open>simp add: handle_new_transaction_def\<close>)

lemma block_steps_alive:
  "sd_alive (transition_to_new_slot C ts w s) = sd_alive s" "sd_alive (fst (apply_replayed_block C w b s)) = sd_alive s"
  "sd_alive (enter_primary s) = sd_alive s" "sd_alive (enter_replica L s) = sd_alive s"
  by (auto simp: transition_to_new_slot_def prepare_block_as_primary_def finalize_block_def update_sysvars_def
      apply_replayed_block_def verify_block_as_replica_def enter_primary_def enter_replica_def
      resync_from_ledger_def reconstruct_inprogress_hasher_def Let_def split: option.splits)

lemma sched_step_progress:
  assumes "sched_step admits C s s'" and "progress_inv s" and "\<forall>t. admits t \<longrightarrow> distinct (account_keys t)"
  shows "progress_inv s'"
proof -
  have inv': "sched_inv {} s'"
    using sched_step_inv [OF assms(1)] assms(2) by (simp add: progress_inv_def)
  from assms(1) show ?thesis
  proof (cases rule: sched_stepE)
    case (new_transaction txn)
    then show ?thesis
      using handle_new_transaction_progress [OF assms(2) _ new_transaction(3)] assms(3) by simp
  next
    case (executor_ready e it)
    then show ?thesis
      using handle_ready_executor_progress [of s e it s'] assms(2) by (simp add: progress_inv_def)
  qed (use assms(2) inv' in \<open>simp_all add: progress_inv_def busy_inv_def queues_ok_def block_steps_same block_steps_alive switch_same\<close>)
qed

lemma sched_reach_progress:
  assumes "sched_reach admits C (scheduler_new n replication (\<lambda>_. True) L) s" and "\<forall>t. admits t \<longrightarrow> distinct (account_keys t)"
  shows "progress_inv s"
  using assms(1)
proof induction
  case reach_refl
  show ?case
    using scheduler_new_inv [of n replication "\<lambda>_. True" L]
    by (auto simp: progress_inv_def busy_inv_def queues_ok_def scheduler_new_def coordinator_new_def Let_def)
next
  case (reach_step s s')
  then show ?case
    using sched_step_progress assms(2) by blast
qed

lemma progress_running_below: "progress_inv s \<Longrightarrow> sd_running s e = Some it \<Longrightarrow> e < ec_count (sd_coordinator s)"
  by (simp add: progress_inv_def exec_inv_def)

lemma progress_ready: "progress_inv s \<Longrightarrow> e \<in> set (ec_ready (sd_coordinator s)) \<Longrightarrow> sd_running s e = None"
  by (simp add: progress_inv_def exec_inv_def)

lemma idle_iff:
  assumes "progress_inv s"
  shows "is_idle (sd_coordinator s) \<longleftrightarrow> (\<forall>e. sd_running s e = None)"
proof -
  let ?c = "sd_coordinator s"
  have distinct: "distinct (ec_ready ?c)" and below: "set (ec_ready ?c) \<subseteq> {..<ec_count ?c}"
    using assms by (auto simp: progress_inv_def exec_inv_def)
  have "is_idle ?c \<longleftrightarrow> set (ec_ready ?c) = {..<ec_count ?c}"
  proof -
    have "is_idle ?c \<longleftrightarrow> card (set (ec_ready ?c)) = card {..<ec_count ?c}"
      by (simp add: is_idle_def distinct_card [OF distinct])
    also have "\<dots> \<longleftrightarrow> set (ec_ready ?c) = {..<ec_count ?c}"
      using card_subset_eq [OF finite_lessThan below] by metis
    finally show ?thesis .
  qed
  moreover have "sd_running s e = None" if "e \<in> set (ec_ready ?c) \<or> \<not> e < ec_count ?c" for e
    using that progress_ready [OF assms] progress_running_below [OF assms] by (cases "sd_running s e") auto
  moreover have "e \<in> set (ec_ready ?c)" if "e < ec_count ?c" "sd_running s e = None" for e
    using assms that by (auto simp: progress_inv_def busy_inv_def)
  ultimately show ?thesis
    using below by (metis lessThan_iff subsetI subset_antisym)
qed

text \<open>
  C23. Nothing accepted is stranded, and the wait for idle executors ends. As long as executors do not die
  and no transaction names an account twice, in every reachable state a transaction that is blocked
  waits for an executor that is running one; and however the notifications arrive, after at most as
  many as there are blocked and running transactions every executor is idle and every queue empty.
\<close>
theorem drain_ends:
  assumes "sched_reach admits C (scheduler_new n replication (\<lambda>_. True) L) s" and "\<forall>t. admits t \<longrightarrow> distinct (account_keys t)"
    and "\<forall>s. (\<exists>e. sd_running s e \<noteq> None) \<longrightarrow> sd_running s (pick s) \<noteq> None"
  shows "(\<forall>e. ec_blocked (sd_coordinator s) e \<noteq> [] \<longrightarrow> sd_running s e \<noteq> None) \<and>
    (\<exists>s'. pause_executors_for_snapshot pick (load s) s = Some s' \<and>
      (\<forall>e. sd_running s' e = None \<and> ec_blocked (sd_coordinator s') e = []))"
proof
  have inv: "progress_inv s"
    by (rule sched_reach_progress [OF assms(1,2)])
  have waits: "sd_running s e \<noteq> None" if "ec_blocked (sd_coordinator s) e \<noteq> []" "progress_inv s" for s e
    using that unfolding progress_inv_def queues_ok_def busy_inv_def by blast
  show "\<forall>e. ec_blocked (sd_coordinator s) e \<noteq> [] \<longrightarrow> sd_running s e \<noteq> None"
    using waits inv by blast
  have "\<exists>s'. pause_executors_for_snapshot pick fuel s = Some s' \<and> is_idle (sd_coordinator s') \<and> progress_inv s'"
    if "progress_inv s" "load s \<le> fuel" for fuel s
    using that
  proof (induction fuel arbitrary: s)
    case 0
    then have "\<forall>e < ec_count (sd_coordinator s). sd_running s e = None"
      by (simp add: load_def)
    then have "\<forall>e. sd_running s e = None"
      using progress_running_below [OF "0.prems"(1)] by (metis not_None_eq)
    then show ?case
      using idle_iff [OF "0.prems"(1)] "0.prems"(1) by simp
  next
    case (Suc fuel)
    show ?case
    proof (cases "is_idle (sd_coordinator s)")
      case False
      then obtain it where it: "sd_running s (pick s) = Some it"
        using idle_iff [OF Suc.prems(1)] assms(3) by blast
      let ?s = "handle_ready_executor (pick s) (s\<lparr>sd_running := (sd_running s)(pick s := None)\<rparr>)"
      have "progress_inv ?s" "load ?s < load s"
        using handle_ready_executor_progress [OF _ _ _ it refl] Suc.prems(1) by (simp_all add: progress_inv_def)
      then show ?thesis
        using Suc.IH [of ?s] Suc.prems(2) False by simp
    qed (use Suc.prems in simp)
  qed
  from this [OF inv order_refl] obtain s' where s': "pause_executors_for_snapshot pick (load s) s = Some s'"
    "is_idle (sd_coordinator s')" "progress_inv s'"
    by blast
  then have "sd_running s' e = None \<and> ec_blocked (sd_coordinator s') e = []" for e
    using idle_iff [OF s'(3)] waits [of s' e] by auto
  then show "\<exists>s'. pause_executors_for_snapshot pick (load s) s = Some s' \<and>
      (\<forall>e. sd_running s' e = None \<and> ec_blocked (sd_coordinator s') e = [])"
    using s'(1) by blast
qed

end
