(* ===== verification/Scheduler_Order.thy ===== *)
theory Scheduler_Order
  imports Scheduler_Progress
begin

text \<open>
  The order in which the scheduler hands out transactions. The hash of a block commits to it; a
  replica hands out what it replays in the order it arrives, so it recomputes the hash of the
  primary.
\<close>

section \<open>Runs within a slot\<close>

datatype sched_event = Arrives processable | Finishes executor_id

fun sched_event_step :: "sched_event \<Rightarrow> scheduler \<Rightarrow> scheduler option" where
  "sched_event_step (Arrives txn) s = (if is_ready (sd_coordinator s) then handle_new_transaction txn s else None)"
| "sched_event_step (Finishes executor) s =
     (if sd_running s executor = None then None
      else Some (handle_ready_executor executor (s\<lparr>sd_running := (sd_running s)(executor := None)\<rparr>)))"

fun sched_run :: "sched_event list \<Rightarrow> scheduler \<Rightarrow> scheduler option" where
  "sched_run [] s = Some s"
| "sched_run (event # events) s = Option.bind (sched_event_step event s) (sched_run events)"

definition arrivals :: "sched_event list \<Rightarrow> processable list" where
  "arrivals events = List.map_filter (\<lambda>event. case event of Arrives txn \<Rightarrow> Some txn | Finishes _ \<Rightarrow> None) events"

lemma arrivals_simps [simp]:
  "arrivals [] = []" "arrivals (Arrives t # events) = t # arrivals events" "arrivals (Finishes e # events) = arrivals events"
  "arrivals (events @ events') = arrivals events @ arrivals events'"
  by (simp_all add: arrivals_def map_filter_simps) (simp add: List.map_filter_def)

lemma sched_run_append: "sched_run (events @ events') s = Option.bind (sched_run events s) (sched_run events')"
  by (induction events arbitrary: s) (auto split: bind_splits)

lemma sched_run_reach:
  "sched_run events s = Some s' \<Longrightarrow> \<forall>t \<in> set (arrivals events). admits t \<Longrightarrow> sched_reach admits C s0 s \<Longrightarrow> sched_reach admits C s0 s'"
proof (induction events arbitrary: s)
  case (Cons event events)
  then obtain s1 where step: "sched_event_step event s = Some s1" and run: "sched_run events s1 = Some s'"
    by (auto split: bind_splits)
  have "sched_step admits C s s1"
  proof (cases event)
    case (Arrives t)
    then show ?thesis
      using step Cons.prems(2) by (auto intro: new_transaction split: if_splits)
  next
    case (Finishes e)
    then show ?thesis
      using step by (auto intro: executor_ready split: if_splits)
  qed
  then have "sched_reach admits C s0 s1"
    using Cons.prems(3) by (rule reach_step [rotated])
  moreover have "\<forall>t \<in> set (arrivals events). admits t"
    using Cons.prems(2) by (cases event) simp_all
  ultimately show ?case
    using Cons.IH [OF run] by blast
qed simp

section \<open>What is handed out\<close>

definition on_record :: "processable \<Rightarrow> bool" where
  "on_record txn \<longleftrightarrow> pt_mode txn \<noteq> Simulation"

text \<open>The signatures of handed-out transactions, as the block hash takes them in.\<close>

definition hashed :: "indexed_transaction list \<Rightarrow> bytes list" where
  "hashed sent = map (pt_signature \<circ> it_txn) (filter (on_record \<circ> it_txn) sent)"

lemma hashed_append [simp]: "hashed (a @ b) = hashed a @ hashed b" "hashed [] = []"
  by (simp_all add: hashed_def)

text \<open>One state extends another: it has handed out more, and hashed exactly that.\<close>

definition extends :: "scheduler \<Rightarrow> scheduler \<Rightarrow> indexed_transaction list \<Rightarrow> bool" where
  "extends s s' further \<longleftrightarrow> sd_sent s' = sd_sent s @ further \<and> sd_hasher s' = sd_hasher s @ concat (hashed further) \<and>
     sd_alive s' = sd_alive s \<and> sd_slot s' = sd_slot s \<and> sd_divergences s' = sd_divergences s"

lemma extends_refl: "sd_sent s' = sd_sent s \<Longrightarrow> sd_hasher s' = sd_hasher s \<Longrightarrow> sd_alive s' = sd_alive s \<Longrightarrow>
    sd_slot s' = sd_slot s \<Longrightarrow> sd_divergences s' = sd_divergences s \<Longrightarrow> extends s s' []"
  by (simp add: extends_def)

lemma extends_trans: "extends a b x \<Longrightarrow> extends b c y \<Longrightarrow> extends a c (x @ y)"
  by (simp add: extends_def)

lemma dispatch_extends:
  assumes "sd_alive s e"
  obtains it where "it_txn it = txn" "extends s (dispatch e txn s) [it]"
proof -
  let ?at = "case pt_mode txn of Replaying slot index _ \<Rightarrow> (slot, index) | Simulation \<Rightarrow> (sd_slot s, 0) | Execution \<Rightarrow> (sd_slot s, sd_index s)"
  show thesis
    by (rule that [of "\<lparr>it_slot = fst ?at, it_index = snd ?at, it_txn = txn\<rparr>"])
      (use assms in \<open>auto simp: extends_def dispatch_def Let_def case_prod_unfold hashed_def on_record_def\<close>)
qed

lemma schedule_result:
  assumes "schedule_transaction e t s = (s', blocked)" and "sd_alive s e"
  obtains (handed_out) it where "blocked = None" "it_txn it = ti_txn t" "extends s s' [it]"
      "ec_mode (sd_coordinator s') = ec_mode (sd_coordinator s)" "ec_blocked (sd_coordinator s') = ec_blocked (sd_coordinator s)"
    | (queued) b c where "blocked = Some b" "extends s s' []" "sd_coordinator s' = queue_transaction b t c"
      "ec_mode c = ec_mode (sd_coordinator s)" "ec_blocked c = ec_blocked (sd_coordinator s)"
      "ec_ready c = ec_ready (sd_coordinator s) @ [e]"
proof -
  obtain c r where acquired: "acquire e (pt_accounts (ti_txn t)) (sd_coordinator s) = (c, r)"
    by fastforce
  note same = acquire_same [OF acquired]
  show thesis
  proof (cases r)
    case (Inl b)
    have s': "s' = s\<lparr>sd_coordinator := queue_transaction b t (release_executor e c)\<rparr>" "blocked = Some b"
      using assms(1) acquired Inl by (simp_all add: schedule_transaction_def try_schedule_def try_acquire_locks_def)
    show thesis
      by (rule queued [of b "release_executor e c"]) (use s' same in \<open>simp_all add: extends_def release_executor_def\<close>)
  next
    case (Inr u)
    have s': "s' = dispatch e (ti_txn t) (s\<lparr>sd_coordinator := c\<rparr>)" "blocked = None"
      using assms(1) acquired Inr by (simp_all add: schedule_transaction_def try_schedule_def try_acquire_locks_def)
    obtain it where "it_txn it = ti_txn t" "extends (s\<lparr>sd_coordinator := c\<rparr>) s' [it]"
      unfolding s'(1) by (rule dispatch_extends [of "s\<lparr>sd_coordinator := c\<rparr>" e "ti_txn t"]) (use assms(2) in simp_all)
    then show thesis
      using handed_out [of it] s' same by (simp add: extends_def)
  qed
qed

lemma reschedule_extends:
  "\<forall>e. sd_alive s e \<Longrightarrow> \<exists>further. extends s (reschedule_blocked_transactions blocker exec s) further"
proof (induction blocker exec s rule: reschedule_blocked_transactions.induct)
  case (2 blocker exec s)
  obtain txn c where popped: "next_blocked_transaction blocker (sd_coordinator s) = (txn, c)"
    by fastforce
  show ?case
  proof (cases txn)
    case None
    then show ?thesis
      using popped by (auto intro!: exI extends_refl)
  next
    case (Some t)
    obtain s' blocked where scheduled: "schedule_transaction exec t (s\<lparr>sd_coordinator := c\<rparr>) = (s', blocked)"
      by fastforce
    obtain taken c' where next_up: "get_ready_executor (sd_coordinator s') = (taken, c')"
      by fastforce
    have alive: "sd_alive (s\<lparr>sd_coordinator := c\<rparr>) exec"
      using "2.prems" by simp
    from scheduled alive obtain further where "extends (s\<lparr>sd_coordinator := c\<rparr>) s' further"
      by (cases rule: schedule_result) blast+
    then have further: "extends s s' further"
      by (simp add: extends_def)
    show ?thesis
    proof (cases "blocked = Some blocker")
      case True
      then show ?thesis
        using popped Some scheduled further by auto
    next
      case False
      let ?s = "s'\<lparr>sd_coordinator := c'\<rparr>"
      have "\<forall>e. sd_alive ?s e"
        using "2.prems" further by (simp add: extends_def)
      then obtain rest where "extends ?s (reschedule_blocked_transactions blocker taken ?s) rest"
        using "2.IH" [OF popped [symmetric] Some scheduled [symmetric] False next_up [symmetric]] by blast
      then have "extends s (reschedule_blocked_transactions blocker taken ?s) (further @ rest)"
        using further by (simp add: extends_def)
      moreover have "reschedule_blocked_transactions blocker (Some exec) s = reschedule_blocked_transactions blocker taken ?s"
        using popped Some scheduled next_up False by simp
      ultimately show ?thesis
        by metis
    qed
  qed
qed (auto intro: extends_refl)

lemma handle_new_transaction_extends:
  assumes "handle_new_transaction txn s = Some s'" and "\<forall>e. sd_alive s e"
  shows "\<exists>further. extends s s' further"
proof (cases "is_transaction_allowed (pt_mode txn) (sd_coordinator s)")
  case True
  then obtain e c where "s' = fst (schedule_transaction e \<lparr>ti_id = sd_next_id s, ti_txn = txn\<rparr>
      (s\<lparr>sd_coordinator := c, sd_next_id := sd_next_id s + 1\<rparr>))"
    using assms(1) by (auto simp: handle_new_transaction_def split: prod.splits option.splits)
  then obtain blocked where scheduled: "schedule_transaction e \<lparr>ti_id = sd_next_id s, ti_txn = txn\<rparr>
      (s\<lparr>sd_coordinator := c, sd_next_id := sd_next_id s + 1\<rparr>) = (s', blocked)"
    by (metis prod.collapse)
  have "sd_alive (s\<lparr>sd_coordinator := c, sd_next_id := sd_next_id s + 1\<rparr>) e"
    using assms(2) by simp
  with scheduled show ?thesis
    by (cases rule: schedule_result) (auto simp: extends_def)
qed (use assms(1) in \<open>auto simp: handle_new_transaction_def intro: extends_refl\<close>)

lemma sched_run_extends:
  "sched_run events s = Some s' \<Longrightarrow> \<forall>e. sd_alive s e \<Longrightarrow> \<exists>further. extends s s' further"
proof (induction events arbitrary: s)
  case (Cons event events)
  then obtain s1 where step: "sched_event_step event s = Some s1" and run: "sched_run events s1 = Some s'"
    by (auto split: bind_splits)
  have "\<exists>further. extends s s1 further"
  proof (cases event)
    case (Arrives t)
    then show ?thesis
      using step handle_new_transaction_extends [of t s s1] Cons.prems(2) by (simp split: if_splits)
  next
    case (Finishes e)
    let ?s = "s\<lparr>sd_running := (sd_running s)(e := None), sd_coordinator := unlock_accounts e (sd_coordinator s)\<rparr>"
    obtain further where "extends ?s s1 further"
      using step Finishes reschedule_extends [of ?s e "Some e"] Cons.prems(2)
      by (auto simp: handle_ready_executor_def simp del: reschedule_blocked_transactions.simps split: if_splits)
    then show ?thesis
      by (auto simp: extends_def)
  qed
  then obtain further where further: "extends s s1 further"
    by blast
  then have "\<forall>e. sd_alive s1 e"
    using Cons.prems(2) by (simp add: extends_def)
  from Cons.IH [OF run this] extends_trans [OF further] show ?case
    by blast
qed (auto intro: extends_refl)

section \<open>Replaying in order\<close>

fun pending :: "coordination_mode \<Rightarrow> u64 option" where
  "pending (StartingUp p) = p"
| "pending (Replica p) = p"
| "pending (Primary _ _) = None"

definition in_order :: "processable list \<Rightarrow> processable list \<Rightarrow> coordinator \<Rightarrow> bool" where
  "in_order handed arrived c \<longleftrightarrow> \<not> is_primary c \<and>
     ((pending (ec_mode c) = None \<and> ec_blocked c = (\<lambda>_. []) \<and> arrived = handed) \<or>
      (\<exists>b t. pending (ec_mode c) = Some (ti_id t) \<and> ec_blocked c = (\<lambda>_. [])(b := [t]) \<and> arrived = handed @ [ti_txn t]))"

lemma in_order_cong:
  "ec_mode c' = ec_mode c \<Longrightarrow> ec_blocked c' = ec_blocked c \<Longrightarrow> in_order handed arrived c' = in_order handed arrived c"
  by (simp add: in_order_def is_primary_def)

lemma in_order_free:
  "in_order handed arrived c \<Longrightarrow> pending (ec_mode c) = None \<Longrightarrow> ec_blocked c = (\<lambda>_. []) \<and> arrived = handed"
  by (auto simp: in_order_def)

lemma next_blocked_none:
  assumes "ec_blocked c b = []" and "next_blocked_transaction b c = (t, c')"
  shows "t = None" and "ec_blocked c' = ec_blocked c" and "ec_mode c' = ec_mode c"
  using assms by (auto simp: next_blocked_transaction_def Let_def fun_upd_idem split: coordination_mode.splits)

lemma reschedule_empty:
  assumes "ec_blocked (sd_coordinator s) b = []" and "s' = reschedule_blocked_transactions b exec s"
  shows "extends s s' [] \<and> ec_mode (sd_coordinator s') = ec_mode (sd_coordinator s) \<and>
    ec_blocked (sd_coordinator s') = ec_blocked (sd_coordinator s)"
proof (cases exec)
  case (Some e)
  obtain t c where popped: "next_blocked_transaction b (sd_coordinator s) = (t, c)"
    by fastforce
  note next_blocked_none [OF assms(1) popped]
  then show ?thesis
    using assms(2) Some popped by (simp add: extends_def release_executor_def)
qed (use assms in \<open>simp add: extends_def\<close>)

lemma schedule_in_order:
  assumes "in_order handed handed (sd_coordinator s)" and "pending (ec_mode (sd_coordinator s)) = None" and "sd_alive s e"
    and "schedule_transaction e t s = (s', blocked)"
  shows "\<exists>further. extends s s' further \<and> in_order (handed @ map it_txn further) (handed @ [ti_txn t]) (sd_coordinator s') \<and>
    (\<forall>b. blocked \<noteq> Some b \<longrightarrow> ec_blocked (sd_coordinator s') b = [])"
  using assms(4,3)
proof (cases rule: schedule_result)
  case (handed_out it)
  then show ?thesis
    using assms(1) in_order_free [OF assms(1,2)] by (intro exI [of _ "[it]"]) (auto simp: in_order_def is_primary_def)
next
  case (queued b c)
  have "\<not> is_primary (sd_coordinator s)" "ec_blocked (sd_coordinator s) = (\<lambda>_. [])"
    using assms(1) in_order_free [OF assms(1,2)] by (simp_all add: in_order_def)
  then show ?thesis
    using queued
    by (intro exI [of _ "[]"])
      (cases "ec_mode (sd_coordinator s)"; auto simp: in_order_def is_primary_def queue_transaction_def heap_push_def)
qed

lemma reschedule_in_order:
  assumes "in_order handed arrived (sd_coordinator s)" and "\<forall>e. sd_alive s e"
    and "s' = reschedule_blocked_transactions b (Some exec) s"
  shows "\<exists>further. extends s s' further \<and> in_order (handed @ map it_txn further) arrived (sd_coordinator s')"
proof (cases "ec_blocked (sd_coordinator s) b")
  case Nil
  from reschedule_empty [OF Nil assms(3)] show ?thesis
    using assms(1) in_order_cong [of "sd_coordinator s'" "sd_coordinator s"] by (intro exI [of _ "[]"]) simp
next
  case (Cons t ts)
  then obtain b' t' where "pending (ec_mode (sd_coordinator s)) = Some (ti_id t')"
    and queue: "ec_blocked (sd_coordinator s) = (\<lambda>_. [])(b' := [t'])" and "arrived = handed @ [ti_txn t']" "\<not> is_primary (sd_coordinator s)"
    using assms(1) unfolding in_order_def by auto
  moreover from Cons queue have "b' = b" "t' = t"
    by (simp_all split: if_splits)
  ultimately have t: "pending (ec_mode (sd_coordinator s)) = Some (ti_id t)" "ec_blocked (sd_coordinator s) = (\<lambda>_. [])(b := [t])"
    "arrived = handed @ [ti_txn t]" "\<not> is_primary (sd_coordinator s)"
    by simp_all
  define c where "c = snd (next_blocked_transaction b (sd_coordinator s))"
  have popped: "next_blocked_transaction b (sd_coordinator s) = (Some t, c)"
    using t(2) by (simp add: c_def next_blocked_transaction_def Let_def)
  have "ec_blocked c = (\<lambda>_. [])"
    by (simp add: c_def next_blocked_transaction_def Let_def t(2) fun_upd_idem)
  moreover have "pending (ec_mode c) = None \<and> \<not> is_primary_mode (ec_mode c)"
    using t(1,4) by (cases "ec_mode (sd_coordinator s)")
      (simp_all add: c_def next_blocked_transaction_def Let_def is_primary_def t(2))
  ultimately have c: "pending (ec_mode c) = None" "in_order handed handed c"
    by (simp_all add: in_order_def is_primary_def)
  obtain s1 blocked where scheduled: "schedule_transaction exec t (s\<lparr>sd_coordinator := c\<rparr>) = (s1, blocked)"
    by fastforce
  obtain taken c' where next_up: "get_ready_executor (sd_coordinator s1) = (taken, c')"
    by fastforce
  have start: "in_order handed handed (sd_coordinator (s\<lparr>sd_coordinator := c\<rparr>))"
    "pending (ec_mode (sd_coordinator (s\<lparr>sd_coordinator := c\<rparr>))) = None" "sd_alive (s\<lparr>sd_coordinator := c\<rparr>) exec"
    using c assms(2) by simp_all
  from schedule_in_order [OF start scheduled] obtain further where
    further: "extends (s\<lparr>sd_coordinator := c\<rparr>) s1 further"
      "in_order (handed @ map it_txn further) arrived (sd_coordinator s1)"
    and empty: "blocked \<noteq> Some b \<Longrightarrow> ec_blocked (sd_coordinator s1) b = []"
    using t(3) by blast
  have ext: "extends s s1 further"
    using further(1) by (simp add: extends_def)
  show ?thesis
  proof (cases "blocked = Some b")
    case True
    then have "s' = s1"
      using assms(3) popped scheduled by simp
    then show ?thesis
      using ext further(2) by blast
  next
    case False
    let ?s = "s1\<lparr>sd_coordinator := c'\<rparr>"
    have same: "ec_mode c' = ec_mode (sd_coordinator s1)" "ec_blocked c' = ec_blocked (sd_coordinator s1)"
      using next_up by (auto simp: get_ready_executor_def split: if_splits)
    have "s' = reschedule_blocked_transactions b taken ?s" "ec_blocked (sd_coordinator ?s) b = []"
      using assms(3) popped scheduled next_up False empty same by simp_all
    from reschedule_empty [OF this(2,1)] show ?thesis
      using ext further(2) same in_order_cong [of "sd_coordinator s'" "sd_coordinator s1"]
      by (intro exI [of _ further]) (simp add: extends_def)
  qed
qed

lemma event_in_order:
  assumes "sched_event_step event s = Some s'" and "in_order handed arrived (sd_coordinator s)" and "\<forall>e. sd_alive s e"
    and "\<forall>t. event = Arrives t \<longrightarrow> pt_mode t \<noteq> Execution"
  shows "\<exists>further. extends s s' further \<and> in_order (handed @ map it_txn further) (arrived @ arrivals [event]) (sd_coordinator s')"
proof (cases event)
  case (Arrives t)
  let ?t = "\<lparr>ti_id = sd_next_id s, ti_txn = t\<rparr>"
  have ready: "is_ready (sd_coordinator s)" and new: "handle_new_transaction t s = Some s'"
    using assms(1) Arrives by (simp_all split: if_splits)
  have "\<not> is_primary (sd_coordinator s)"
    using assms(2) by (simp add: in_order_def)
  then have "is_transaction_allowed (pt_mode t) (sd_coordinator s)"
    using assms(4) Arrives by (auto simp: is_transaction_allowed_def split: processing_mode.splits)
  then obtain e c where taken: "get_ready_executor (sd_coordinator s) = (Some e, c)"
    and s': "s' = fst (schedule_transaction e ?t (s\<lparr>sd_coordinator := c, sd_next_id := sd_next_id s + 1\<rparr>))"
    using new by (auto simp: handle_new_transaction_def split: prod.splits option.splits)
  let ?s = "s\<lparr>sd_coordinator := c, sd_next_id := sd_next_id s + 1\<rparr>"
  obtain blocked where scheduled: "schedule_transaction e ?t ?s = (s', blocked)"
    using s' by (metis prod.collapse)
  have free: "pending (ec_mode (sd_coordinator s)) = None"
    using ready by (cases "ec_mode (sd_coordinator s)") (simp_all add: is_ready_def)
  have same: "ec_mode c = ec_mode (sd_coordinator s)" "ec_blocked c = ec_blocked (sd_coordinator s)"
    using taken by (auto simp: get_ready_executor_def split: if_splits)
  have "arrived = handed"
    using in_order_free [OF assms(2) free] by simp
  then have start: "in_order handed handed (sd_coordinator ?s)" "pending (ec_mode (sd_coordinator ?s)) = None" "sd_alive ?s e"
    using assms(2,3) free same in_order_cong [of c "sd_coordinator s"] by simp_all
  from schedule_in_order [OF start scheduled] obtain further where
    "extends ?s s' further" "in_order (handed @ map it_txn further) (handed @ [t]) (sd_coordinator s')"
    by auto
  then show ?thesis
    using Arrives \<open>arrived = handed\<close> by (intro exI [of _ further]) (simp add: extends_def)
next
  case (Finishes e)
  let ?s = "s\<lparr>sd_running := (sd_running s)(e := None), sd_coordinator := unlock_accounts e (sd_coordinator s)\<rparr>"
  have s': "s' = reschedule_blocked_transactions e (Some e) ?s"
    using assms(1) Finishes
    by (simp add: handle_ready_executor_def del: reschedule_blocked_transactions.simps split: if_splits)
  have "in_order handed arrived (sd_coordinator ?s)"
    using assms(2) in_order_cong [of "sd_coordinator ?s" "sd_coordinator s"] by simp
  from reschedule_in_order [OF this _ s'] assms(3) obtain further where
    "extends ?s s' further" "in_order (handed @ map it_txn further) arrived (sd_coordinator s')"
    by auto
  then show ?thesis
    using Finishes by (intro exI [of _ further]) (simp add: extends_def)
qed

lemma run_in_order:
  assumes "sched_run events s = Some s'" and "in_order handed arrived (sd_coordinator s)" and "\<forall>e. sd_alive s e"
    and "\<forall>t \<in> set (arrivals events). pt_mode t \<noteq> Execution"
  shows "\<exists>further. extends s s' further \<and> in_order (handed @ map it_txn further) (arrived @ arrivals events) (sd_coordinator s')"
  using assms
proof (induction events arbitrary: s handed arrived)
  case Nil
  then show ?case
    by (intro exI [of _ "[]"]) (simp add: extends_def)
next
  case (Cons event events)
  then obtain s1 where step: "sched_event_step event s = Some s1" and run: "sched_run events s1 = Some s'"
    by (auto split: bind_splits)
  have "\<forall>t. event = Arrives t \<longrightarrow> pt_mode t \<noteq> Execution" and rest: "\<forall>t \<in> set (arrivals events). pt_mode t \<noteq> Execution"
    using Cons.prems(4) by (cases event; simp)+
  from event_in_order [OF step Cons.prems(2,3) this(1)] obtain first where
    first: "extends s s1 first" "in_order (handed @ map it_txn first) (arrived @ arrivals [event]) (sd_coordinator s1)"
    by blast
  then have alive: "\<forall>e. sd_alive s1 e"
    using Cons.prems(3) by (simp add: extends_def)
  from Cons.IH [OF run first(2) alive rest] obtain further where
    "extends s1 s' further" "in_order (handed @ map it_txn first @ map it_txn further) (arrived @ arrivals [event] @ arrivals events) (sd_coordinator s')"
    by auto
  moreover have "arrivals [event] @ arrivals events = arrivals (event # events)"
    by (cases event) simp_all
  ultimately show ?case
    using extends_trans [OF first(1)] by (metis map_append)
qed

lemma idle_queues:
  assumes "progress_inv s" and "is_idle (sd_coordinator s)"
  shows "ec_blocked (sd_coordinator s) = (\<lambda>_. [])"
proof
  fix e
  have "sd_running s e = None"
    using idle_iff [OF assms(1)] assms(2) by simp
  then show "ec_blocked (sd_coordinator s) e = []"
    using assms(1) unfolding progress_inv_def queues_ok_def busy_inv_def by blast
qed

text \<open>
  C15. A replica never diverges from its primary. Within a slot, whatever arrives and in whatever order
  executors finish, the block hash of the primary is the fold over the signatures in the order it handed
  the transactions out. A replica with the same parent hash that is fed those transactions in that
  order, and is idle again, has handed them out in exactly that order, has nothing left, and counts no
  divergence when it applies the block.
\<close>
theorem replica_agrees:
  assumes "sched_run events p = Some p'" and "\<forall>e. sd_alive p e" and "sd_hasher p = parent"
    and "prepare_block_as_primary C ts p' = (block, p'')" and "sd_sent p' = sd_sent p @ produced"
    and "sched_reach admits C (scheduler_new n replication (\<lambda>_. True) L) r" and "\<forall>t. admits t \<longrightarrow> distinct (account_keys t)"
    and "\<not> is_primary (sd_coordinator r)" and "is_idle (sd_coordinator r)" and "is_ready (sd_coordinator r)" and "sd_hasher r = parent"
    and "sched_run events' r = Some r'" and "\<forall>t \<in> set (arrivals events'). admits t \<and> pt_mode t \<notin> {Execution, Simulation}"
    and "map pt_signature (arrivals events') = hashed produced" and "is_idle (sd_coordinator r')"
  shows "bk_hash block = fold_hash C parent (hashed produced) \<and>
    (\<exists>replayed. sd_sent r' = sd_sent r @ replayed \<and> map it_txn replayed = arrivals events') \<and>
    (\<forall>e. ec_blocked (sd_coordinator r') e = []) \<and>
    sd_divergences (fst (apply_replayed_block C written block r')) = sd_divergences r"
proof -
  have hash: "bk_hash block = fold_hash C parent (hashed produced)"
    using sched_run_extends [OF assms(1,2)] assms(3-5)
    by (auto simp: prepare_block_as_primary_def Let_def extends_def fold_hash_concat)
  have inv: "progress_inv r"
    by (rule sched_reach_progress [OF assms(6,7)])
  have "sched_reach admits C (scheduler_new n replication (\<lambda>_. True) L) r'"
    using sched_run_reach [OF assms(12) _ assms(6)] assms(13) by blast
  then have inv': "progress_inv r'"
    by (rule sched_reach_progress [OF _ assms(7)])
  have "pending (ec_mode (sd_coordinator r)) = None"
    using assms(10) by (cases "ec_mode (sd_coordinator r)") (simp_all add: is_ready_def)
  then have start: "in_order [] [] (sd_coordinator r)"
    using idle_queues [OF inv assms(9)] assms(8) by (simp add: in_order_def)
  have alive: "\<forall>e. sd_alive r e"
    using inv by (simp add: progress_inv_def busy_inv_def)
  obtain replayed where replayed: "extends r r' replayed" "in_order (map it_txn replayed) (arrivals events') (sd_coordinator r')"
    using run_in_order [OF assms(12) start alive] assms(13) by auto
  have all: "arrivals events' = map it_txn replayed"
    using replayed(2) idle_queues [OF inv' assms(15)] by (auto simp: in_order_def fun_eq_iff split: if_splits)
  have "filter (on_record \<circ> it_txn) replayed = replayed"
    using assms(13) unfolding all by (auto simp: filter_id_conv on_record_def)
  then have "hashed replayed = hashed produced"
    using assms(14) unfolding all hashed_def by simp
  then have "bk_hash block = blake3 C (sd_hasher r')"
    using hash replayed(1) assms(11) by (simp add: extends_def fold_hash_concat)
  then have "sd_divergences (fst (apply_replayed_block C written block r')) = sd_divergences r"
    using replayed(1) by (simp add: apply_replayed_block_def verify_block_as_replica_def update_sysvars_def extends_def Let_def)
  then show ?thesis
    using hash replayed(1) all idle_queues [OF inv' assms(15)] by (auto simp: extends_def)
qed

end
