(* ===== verification/Demo_Scheduler.thy ===== *)
theory Demo_Scheduler
  imports Scheduler_Order Block_Reports Demo_Writer
begin

text \<open>
  A scheduler with three executors under load, on which the properties of the scheduler are shown to
  apply, and a run in which it executes two conflicting transactions against the order of their
  arrival and of their receipts.
\<close>

definition demo_key :: "u8 \<Rightarrow> bytes" where
  "demo_key tag = replicate 32 tag"

definition demo_task :: "u8 \<Rightarrow> bytes list \<Rightarrow> processing_mode \<Rightarrow> processable" where
  "demo_task tag written mode =
     \<lparr>pt_signature = replicate 64 tag, pt_accounts = map (\<lambda>k. (k, True)) written, pt_mode = mode, pt_encoded = None\<rparr>"

definition demo_ledger :: ledger_view where
  "demo_ledger = \<lparr>lv_blockhash = replicate 32 5, lv_snapshot_hash = None, lv_latest_slot = 1000, lv_accounts_slot = 1000,
     lv_signatures = (\<lambda>_. None)\<rparr>"

definition demo_primary :: scheduler where
  "demo_primary = enter_primary (scheduler_new 3 False (\<lambda>_. True) demo_ledger)"

definition demo_load :: "processing_mode \<Rightarrow> processable list" where
  "demo_load mode =
     [demo_task 1 [demo_key 65] mode, demo_task 2 [demo_key 66] mode,
      demo_task 3 [demo_key 65, demo_key 66] mode, demo_task 4 [demo_key 65] mode]"

definition demo_events :: "sched_event list" where
  "demo_events =
     [Arrives (demo_load Execution ! 0), Arrives (demo_load Execution ! 1), Arrives (demo_load Execution ! 2),
      Finishes 2, Arrives (demo_load Execution ! 3), Finishes 1, Finishes 2]"

definition demo_observed :: "processable \<Rightarrow> observed_transaction" where
  "demo_observed txn =
     \<lparr>ot_signature = pt_signature txn, ot_tx_hash = tx_hash_of demo_crypto (demo_wire (hd (pt_signature txn))),
      ot_fee_payer = demo_key (hd (pt_signature txn)), ot_writable = map fst (filter snd (pt_accounts txn)),
      ot_readonly = map fst (filter (Not \<circ> snd) (pt_accounts txn)), ot_wire_bytes = demo_wire (hd (pt_signature txn))\<rparr>"

definition demo_published :: "scheduler \<Rightarrow> observed_block" where
  "demo_published s =
     (let block = fst (prepare_block_as_primary demo_crypto 0 s) in
      \<lparr>ob_slot = bk_slot block, ob_previous_blockhash = replicate 32 5, ob_blockhash = bk_hash block,
       ob_transactions = map (demo_observed \<circ> it_txn) (sd_sent s)\<rparr>)"

abbreviation demo_request :: "u8 \<Rightarrow> moment \<times> writer_command" where
  "demo_request tag \<equiv> (demo_moment, StampRequest (replicate 64 tag) (demo_wire tag) (replicate 32 5))"

abbreviation demo_operator :: operator where
  "demo_operator \<equiv> \<lparr>op_key = verifying_key demo_crypto [1], op_log_id = mint_log_id demo_crypto [1] 0 0\<rparr>"

section \<open>The run\<close>

lemma demo_overtakes:
  "map_option (\<lambda>s. (sd_hasher s, map it_txn (sd_sent s))) (sched_run demo_events demo_primary) =
     Some (replicate 32 5 @ replicate 64 1 @ replicate 64 2 @ replicate 64 4 @ replicate 64 3,
       map ((!) (demo_load Execution)) [0, 1, 3, 2])"
  by code_simp

lemma demo_stamped:
  assumes "honest w" and "tag \<noteq> 0"
  obtains w' st' e where "handle C (fst (demo_request tag)) (snd (demo_request tag)) w st = (w', st', [e], Stamped (Inr e))"
    "honest w'" "w_seq w' = w_seq w + 1" "w_log_id w' = w_log_id w" "w_key w' = w_key w"
    "r_mode (s_receipt e) = Plain" "r_tx_sig (s_receipt e) = replicate 64 tag" "r_tx_hash (s_receipt e) = tx_hash_of C (demo_wire tag)"
    "r_seq (s_receipt e) = w_seq w" "r_log_id (s_receipt e) = w_log_id w" "sign C (s_receipt e) (w_key w) = Inr e"
proof -
  obtain v t r where stamped: "stamp C demo_moment (replicate 64 tag) (demo_wire tag) (replicate 32 5) w st = (v, t, r)"
    using prod_cases3 by blast
  from assms(1) stamped show thesis
  proof (cases rule: stamp_cases)
    case (refused error)
    then show thesis
      using assms stamped by (simp add: stamp_def honest_def sign_def validate_def ZERO_SIG_def demo_moment_def result_simps Let_def)
  next
    case (issued e)
    then show thesis
      using stamped assms(1)
      by (intro that [of "v\<lparr>w_published := None\<rparr>" t e]) (simp_all add: handle_stamp_def broadcast_def honest_def next_statement_def)
  qed
qed

definition demo_answer :: "crypto \<Rightarrow> writer \<Rightarrow> nat \<Rightarrow> u8 \<Rightarrow> signed_receipt \<Rightarrow> bool" where
  "demo_answer C w i tag e \<longleftrightarrow> r_mode (s_receipt e) = Plain \<and> r_tx_sig (s_receipt e) = replicate 64 tag \<and>
     r_tx_hash (s_receipt e) = tx_hash_of C (demo_wire tag) \<and> r_seq (s_receipt e) = w_seq w + of_nat i \<and>
     r_log_id (s_receipt e) = w_log_id w \<and> sign C (s_receipt e) (w_key w) = Inr e"

lemma demo_requests_run:
  assumes "honest w" and "0 \<notin> set tags"
  shows "\<exists>w' st' es rs. run_writer C (map demo_request tags) w st = (w', st', es, rs) \<and> length es = length tags \<and>
    (\<forall>i < length tags. demo_answer C w i (tags ! i) (es ! i))"
  using assms
proof (induction tags arbitrary: w st)
  case (Cons tag tags)
  then have "tag \<noteq> 0"
    by auto
  obtain w1 st1 e where first: "handle C (fst (demo_request tag)) (snd (demo_request tag)) w st = (w1, st1, [e], Stamped (Inr e))"
    and w1: "honest w1" "w_seq w1 = w_seq w + 1" "w_log_id w1 = w_log_id w" "w_key w1 = w_key w"
    and e: "demo_answer C w 0 tag e"
    by (rule demo_stamped [OF Cons.prems(1) \<open>tag \<noteq> 0\<close>, of C st]) (simp add: demo_answer_def)
  have "0 \<notin> set tags"
    using Cons.prems(2) by simp
  from Cons.IH [OF w1(1) this, of st1] obtain w' st' es rs where
    rest: "run_writer C (map demo_request tags) w1 st1 = (w', st', es, rs)" "length es = length tags"
      "\<forall>i < length tags. demo_answer C w1 i (tags ! i) (es ! i)"
    by blast
  have "run_writer C (map demo_request (tag # tags)) w st = (w', st', e # es, Stamped (Inr e) # rs)"
    using first rest(1) by simp
  moreover have "demo_answer C w i ((tag # tags) ! i) ((e # es) ! i)" if "i < length (tag # tags)" for i
    using that e rest(3) w1 by (cases i) (simp_all add: demo_answer_def add.assoc)
  ultimately show ?case
    using rest(2) by (intro exI) (auto simp del: run_writer.simps)
qed simp

lemma demo_answer_accepted:
  assumes "demo_answer demo_crypto demo_writer i tag e"
  shows "accepts demo_crypto demo_operator e = Inr ()" "verify demo_crypto e (verifying_key demo_crypto [1]) = Inr ()"
proof -
  have "sign demo_crypto (s_receipt e) [1] = Inr e" "r_log_id (s_receipt e) = mint_log_id demo_crypto [1] 0 0"
    using assms by (simp_all add: demo_answer_def demo_writer_def writer_new_def)
  then show "accepts demo_crypto demo_operator e = Inr ()" "verify demo_crypto e (verifying_key demo_crypto [1]) = Inr ()"
    using sign_verify [OF demo_crypto_ok, of "s_receipt e" "[1]" e] by (simp_all add: accepts_def)
qed

lemma demo_published_order:
  assumes "sd_hasher s = replicate 32 5 @ replicate 64 1 @ replicate 64 2 @ replicate 64 4 @ replicate 64 3"
    and "map it_txn (sd_sent s) = map ((!) (demo_load Execution)) [0, 1, 3, 2]"
  shows "ob_transactions (demo_published s) = map (demo_observed \<circ> (!) (demo_load Execution)) [0, 1, 3, 2]"
    and "executed_order demo_crypto (demo_published s) = Some (ob_transactions (demo_published s))"
proof -
  show txns: "ob_transactions (demo_published s) = map (demo_observed \<circ> (!) (demo_load Execution)) [0, 1, 3, 2]"
    using arg_cong [OF assms(2), of "map demo_observed"] by (simp add: demo_published_def Let_def)
  have "map ot_signature (ob_transactions (demo_published s)) = [replicate 64 1, replicate 64 2, replicate 64 4, replicate 64 3]"
    unfolding txns by (simp add: demo_observed_def demo_load_def demo_task_def numeral_eq_Suc)
  then have "order_derive demo_crypto (demo_published s) = AsReported"
    using assms(1) by (simp add: order_derive_def fold_hash_concat demo_published_def prepare_block_as_primary_def Let_def)
  then show "executed_order demo_crypto (demo_published s) = Some (ob_transactions (demo_published s))"
    by (simp add: executed_order_def Let_def)
qed

lemma demo_index:
  assumes "length es = 4" and "\<forall>i < 4. demo_answer demo_crypto demo_writer i ([1, 2, 3, 4] ! i) (es ! i)"
  shows "receipt_find (receipt_index_build demo_crypto es demo_operator) (demo_observed (demo_load Execution ! 2)) = Some (es ! 2)"
    and "receipt_find (receipt_index_build demo_crypto es demo_operator) (demo_observed (demo_load Execution ! 3)) = Some (es ! 3)"
    and "receipt_withdrawal demo_crypto (receipt_index_build demo_crypto es demo_operator) r = None"
proof -
  obtain a b c d where es: "es = [a, b, c, d]"
    using assms(1) by (auto simp: numeral_eq_Suc length_Suc_conv)
  have answers: "demo_answer demo_crypto demo_writer 0 1 a" "demo_answer demo_crypto demo_writer 1 2 b"
    "demo_answer demo_crypto demo_writer 2 3 c" "demo_answer demo_crypto demo_writer 3 4 d"
    using assms(2) [rule_format, of 0] assms(2) [rule_format, of 1] assms(2) [rule_format, of 2] assms(2) [rule_format, of 3]
    by (simp_all add: es)
  note accepted = answers [THEN demo_answer_accepted(1)]
  note modes = answers [unfolded demo_answer_def, THEN conjunct1]
  note sigs = answers [unfolded demo_answer_def, THEN conjunct2, THEN conjunct1]
  show "receipt_find (receipt_index_build demo_crypto es demo_operator) (demo_observed (demo_load Execution ! 2)) = Some (es ! 2)"
    and "receipt_find (receipt_index_build demo_crypto es demo_operator) (demo_observed (demo_load Execution ! 3)) = Some (es ! 3)"
    by (simp_all add: es accepted modes sigs receipt_index_build_def receipt_find_def demo_observed_def demo_load_def demo_task_def numeral_eq_Suc)
  show "receipt_withdrawal demo_crypto (receipt_index_build demo_crypto es demo_operator) r = None"
    by (simp add: es accepted modes receipt_withdrawal_build withdrawals_build_def withdrawals_of_def)
qed

lemma demo_reorder_verifies:
  assumes "demo_answer demo_crypto demo_writer 2 3 c" and "demo_answer demo_crypto demo_writer 3 4 d"
  shows "fault_verify demo_crypto
    (Reorder slot parent (fold_hash demo_crypto parent [x, y, replicate 64 4, replicate 64 3]) [x, y, replicate 64 4, replicate 64 3]
      \<lparr>rt_receipt = d, rt_wire_bytes = demo_wire 4, rt_index = 2\<rparr> \<lparr>rt_receipt = c, rt_wire_bytes = demo_wire 3, rt_index = 3\<rparr>)
    (verifying_key demo_crypto [1]) = Inr ()"
  using assms demo_answer_accepted(2) [OF assms(1)] demo_answer_accepted(2) [OF assms(2)]
  by (simp add: demo_answer_def reordered_verify_def same_log_def at_index_def sits_at_def get_at_def result_simps
      demo_writer_def writer_new_def)

lemma demo_answers_signatures:
  assumes "length es = 4" and "\<forall>i < 4. demo_answer demo_crypto demo_writer i ([1, 2, 3, 4] ! i) (es ! i)"
  shows "map (r_tx_sig \<circ> s_receipt) es = map pt_signature (arrivals demo_events)"
proof (rule nth_equalityI)
  show "length (map (r_tx_sig \<circ> s_receipt) es) = length (map pt_signature (arrivals demo_events))"
    by (simp add: assms(1) demo_events_def)
  have "map pt_signature (arrivals demo_events) = map (replicate 64) [1, 2, 3, 4]"
    by (simp add: demo_events_def demo_load_def demo_task_def)
  moreover have "map (replicate 64) [1, 2, 3, 4 :: u8] ! i = replicate 64 ([1, 2, 3, 4] ! i)" if "i < 4" for i
    using that by (intro nth_map) simp
  ultimately show "map (r_tx_sig \<circ> s_receipt) es ! i = map pt_signature (arrivals demo_events) ! i"
    if "i < length (map (r_tx_sig \<circ> s_receipt) es)" for i
    using assms that by (simp add: demo_answer_def del: list.map)
qed

text \<open>
  C28. An honest node can be accused of reordering, and the accusation verifies. Three executors, no
  attack: the third transaction to arrive waits for two accounts, moves from the queue of one blocker to
  the queue of another, and the fourth, which conflicts with it, is handed out in between. The block
  contradicts the order of the receipts an honest writer issued on arrival, and the watchtower reports a
  fault that re-derives from its evidence.
\<close>
theorem honest_primary_accused:
  "\<exists>s w st receipts replies sc slot previous blockhash executed jumped delayed.
    sched_run demo_events demo_primary = Some s \<and>
    run_writer demo_crypto (map demo_request [1, 2, 3, 4]) demo_writer empty_store = (w, st, receipts, replies) \<and>
    map (r_tx_sig \<circ> s_receipt) receipts = map pt_signature (arrivals demo_events) \<and>
    scan_block demo_crypto (demo_published s) (receipt_index_build demo_crypto receipts demo_operator) demo_operator
      (replicate 32 9) = Some sc \<and>
    Reorder slot previous blockhash executed jumped delayed \<in> set (sc_faults sc) \<and>
    fault_verify demo_crypto (Reorder slot previous blockhash executed jumped delayed) (op_key demo_operator) = Inr ()"
proof -
  obtain s where s: "sched_run demo_events demo_primary = Some s"
    "sd_hasher s = replicate 32 5 @ replicate 64 1 @ replicate 64 2 @ replicate 64 4 @ replicate 64 3"
    "map it_txn (sd_sent s) = map ((!) (demo_load Execution)) [0, 1, 3, 2]"
    using demo_overtakes by (auto simp del: sched_run.simps)
  have "honest demo_writer" "0 \<notin> set [1, 2, 3, 4 :: u8]"
    by (simp_all add: demo_writer_def)
  from demo_requests_run [OF this, of demo_crypto empty_store] obtain w st es replies where
    run: "run_writer demo_crypto (map demo_request [1, 2, 3, 4]) demo_writer empty_store = (w, st, es, replies)"
      and es: "length es = 4" "\<forall>i < 4. demo_answer demo_crypto demo_writer i ([1, 2, 3, 4] ! i) (es ! i)"
    by auto
  have c: "demo_answer demo_crypto demo_writer 2 3 (es ! 2)" and d: "demo_answer demo_crypto demo_writer 3 4 (es ! 3)"
    using es(2) [rule_format, of 2] es(2) [rule_format, of 3] by (simp_all add: numeral_eq_Suc)
  note order = demo_published_order [OF s(2,3)]
  let ?block = "demo_published s" and ?ix = "receipt_index_build demo_crypto es demo_operator"
  let ?txns = "map (demo_observed \<circ> (!) (demo_load Execution)) [0, 1, 3, 2]"
  have executed: "executed_order demo_crypto ?block = Some ?txns"
    using order by simp
  have at: "?txns ! 2 = demo_observed (demo_load Execution ! 3)" "?txns ! 3 = demo_observed (demo_load Execution ! 2)"
    by (simp_all add: numeral_eq_Suc)
  have signatures: "map ot_signature ?txns = [replicate 64 1, replicate 64 2, replicate 64 4, replicate 64 3]"
    by (simp add: demo_observed_def demo_load_def demo_task_def numeral_eq_Suc)
  have fields: "ob_previous_blockhash ?block = replicate 32 5"
    "ob_blockhash ?block = fold_hash demo_crypto (replicate 32 5) (map ot_signature ?txns)"
    unfolding signatures fold_hash_concat by (simp_all add: demo_published_def prepare_block_as_primary_def Let_def s(2))
  have pair: "conflicts (?txns ! 2) (?txns ! 3)" "\<not> is_issued_by (?txns ! 2) (replicate 32 9)" "\<not> is_issued_by (?txns ! 3) (replicate 32 9)"
    "ot_wire_bytes (?txns ! 2) = demo_wire 4" "ot_wire_bytes (?txns ! 3) = demo_wire 3"
    unfolding at by (simp_all add: conflicts_def touches_def is_issued_by_def demo_observed_def demo_load_def demo_task_def demo_key_def)
  have seqs: "r_seq (s_receipt (es ! 2)) < r_seq (s_receipt (es ! 3))"
    using c d by (simp add: demo_answer_def demo_writer_def writer_new_def)
  obtain sc where sc: "scan_block demo_crypto ?block ?ix demo_operator (replicate 32 9) = Some sc"
    "Reorder (ob_slot ?block) (ob_previous_blockhash ?block) (ob_blockhash ?block) (map ot_signature ?txns)
      \<lparr>rt_receipt = es ! 3, rt_wire_bytes = ot_wire_bytes (?txns ! 2), rt_index = of_nat 2\<rparr>
      \<lparr>rt_receipt = es ! 2, rt_wire_bytes = ot_wire_bytes (?txns ! 3), rt_index = of_nat 3\<rparr> \<in> set (sc_faults sc)"
    using reorder_in_scan [OF executed, of 2 3 ?ix "es ! 3" "es ! 2" demo_operator "replicate 32 9"] demo_index [OF es]
      demo_answer_accepted(1) [OF c] demo_answer_accepted(1) [OF d] pair(1-3) seqs at by auto
  have "fault_verify demo_crypto
      (Reorder (ob_slot ?block) (ob_previous_blockhash ?block) (ob_blockhash ?block) (map ot_signature ?txns)
        \<lparr>rt_receipt = es ! 3, rt_wire_bytes = ot_wire_bytes (?txns ! 2), rt_index = of_nat 2\<rparr>
        \<lparr>rt_receipt = es ! 2, rt_wire_bytes = ot_wire_bytes (?txns ! 3), rt_index = of_nat 3\<rparr>) (op_key demo_operator) = Inr ()"
    using demo_reorder_verifies [OF c d] unfolding pair(4,5) fields signatures by simp
  moreover have "map (r_tx_sig \<circ> s_receipt) es = map pt_signature (arrivals demo_events)"
    by (rule demo_answers_signatures [OF es])
  ultimately show ?thesis
    using s(1) run sc by blast
qed

text \<open>
  What the progress property leaves out: a transaction that writes an account it names twice blocks behind
  the executor that tried it, which goes back to the pool. Twice as many of them as there are executors
  leave a primary with every executor idle, nothing running and no further transaction taken.
\<close>
lemma twice_named_stalls:
  "map_option (\<lambda>s. (is_idle (sd_coordinator s), map (sd_running s) [0, 1, 2], is_ready (sd_coordinator s),
      length (ec_blocked (sd_coordinator s) 2)))
     (sched_run (map (\<lambda>tag. Arrives (demo_task tag [demo_key 65, demo_key 65] Execution)) [1, 2, 3, 4, 5, 6]) demo_primary) =
   Some (True, [None, None, None], False, 6)"
  by code_simp

section \<open>Witnesses\<close>

definition demo_distinct :: "processable \<Rightarrow> bool" where
  "demo_distinct txn \<longleftrightarrow> distinct (account_keys txn)"

lemma demo_primary_reached: "sched_reach admits C (scheduler_new 3 False (\<lambda>_. True) demo_ledger) demo_primary"
  unfolding demo_primary_def by (rule reach_step [OF reach_refl to_primary])

lemma demo_two_running:
  "map_option (\<lambda>s. (map_option it_txn (sd_running s 2), map_option it_txn (sd_running s 1), sd_running s 0, load s))
     (sched_run (take 3 demo_events) demo_primary) =
   Some (Some (demo_load Execution ! 0), Some (demo_load Execution ! 1), None, 3)"
  by code_simp

theorem running_never_conflict_witness:
  "\<exists>(s :: scheduler) t u. sd_running s 2 = Some t \<and> sd_running s 1 = Some u \<and> (demo_key 65, True) \<in> set (pt_accounts (it_txn t)) \<and>
    demo_key 65 \<notin> fst ` set (pt_accounts (it_txn u))"
proof -
  obtain s t u where s: "sched_run (take 3 demo_events) demo_primary = Some s" "sd_running s 2 = Some t" "sd_running s 1 = Some u"
    and t: "it_txn t = demo_load Execution ! 0"
    using demo_two_running by (auto simp del: sched_run.simps)
  have "sched_reach (\<lambda>_. True) demo_crypto (scheduler_new 3 False (\<lambda>_. True) demo_ledger) s"
    by (rule sched_run_reach [OF s(1) _ demo_primary_reached]) simp
  moreover have "(demo_key 65, True) \<in> set (pt_accounts (it_txn t))"
    by (simp add: t demo_load_def demo_task_def)
  moreover from calculation have "demo_key 65 \<notin> fst ` set (pt_accounts (it_txn u))"
    using running_never_conflict [of "\<lambda>_. True" demo_crypto 3 False "\<lambda>_. True" demo_ledger s 2 t 1 u "demo_key 65"] s(2,3)
    by simp
  ultimately show ?thesis
    using s(2,3) by blast
qed

definition demo_pick :: "scheduler \<Rightarrow> executor_id" where
  "demo_pick s = (LEAST e. sd_running s e \<noteq> None)"

theorem drain_ends_witness:
  "\<exists>s s'. sched_run (take 3 demo_events) demo_primary = Some s \<and> load s = 3 \<and>
    pause_executors_for_snapshot demo_pick (load s) s = Some s' \<and> (\<forall>e. ec_blocked (sd_coordinator s') e = [])"
proof -
  obtain s where s: "sched_run (take 3 demo_events) demo_primary = Some s" "load s = 3"
    using demo_two_running by (auto simp del: sched_run.simps)
  have "\<forall>t \<in> set (arrivals (take 3 demo_events)). demo_distinct t"
    by (simp add: demo_distinct_def account_keys_def demo_events_def demo_load_def demo_task_def demo_key_def numeral_eq_Suc)
  from sched_run_reach [OF s(1) this demo_primary_reached]
  have "sched_reach demo_distinct demo_crypto (scheduler_new 3 False (\<lambda>_. True) demo_ledger) s" .
  moreover have "\<forall>t. demo_distinct t \<longrightarrow> distinct (account_keys t)"
    by (simp add: demo_distinct_def)
  moreover have "\<forall>s. (\<exists>e. sd_running s e \<noteq> None) \<longrightarrow> sd_running s (demo_pick s) \<noteq> None"
    unfolding demo_pick_def
  proof (intro allI impI)
    fix s :: scheduler
    assume "\<exists>e. sd_running s e \<noteq> None"
    then show "sd_running s (LEAST e. sd_running s e \<noteq> None) \<noteq> None"
      by (rule LeastI_ex)
  qed
  ultimately show ?thesis
    using drain_ends [of demo_distinct demo_crypto 3 False demo_ledger s demo_pick] s by blast
qed

definition demo_replica :: scheduler where
  "demo_replica = enter_replica demo_ledger (scheduler_new 3 False (\<lambda>_. True) demo_ledger)"

definition demo_replay :: "sched_event list" where
  "demo_replay =
     [Arrives (demo_load (Replaying 1001 0 True) ! 0), Arrives (demo_load (Replaying 1001 1 True) ! 1),
      Arrives (demo_load (Replaying 1001 2 True) ! 3), Finishes 2, Arrives (demo_load (Replaying 1001 3 True) ! 2),
      Finishes 2, Finishes 1, Finishes 1]"

lemma demo_replayed: "map_option (is_idle \<circ> sd_coordinator) (sched_run demo_replay demo_replica) = Some True"
  by code_simp

lemma demo_replica_start:
  "\<not> is_primary (sd_coordinator demo_replica)" "is_idle (sd_coordinator demo_replica)" "is_ready (sd_coordinator demo_replica)"
  "sd_hasher demo_replica = replicate 32 5"
  by (simp_all add: demo_replica_def block_steps_same switch_same is_primary_def is_idle_def is_ready_def scheduler_new_def coordinator_new_def
      switch_to_replica_mode_def MAX_SVM_EXECUTORS_def Let_def enter_replica_def reconstruct_inprogress_hasher_def resync_from_ledger_def
      demo_ledger_def initial_blockhash_def)

theorem replica_agrees_witness:
  "\<exists>p r. sched_run demo_events demo_primary = Some p \<and> sched_run demo_replay demo_replica = Some r \<and>
    sd_divergences (fst (apply_replayed_block demo_crypto True (fst (prepare_block_as_primary demo_crypto 0 p)) r)) =
    sd_divergences demo_replica"
proof -
  obtain p where p: "sched_run demo_events demo_primary = Some p" "map it_txn (sd_sent p) = map ((!) (demo_load Execution)) [0, 1, 3, 2]"
    using demo_overtakes by (auto simp del: sched_run.simps)
  obtain r where r: "sched_run demo_replay demo_replica = Some r" "is_idle (sd_coordinator r)"
    using demo_replayed by (auto simp del: sched_run.simps)
  have start: "\<forall>e. sd_alive demo_primary e" "sd_hasher demo_primary = replicate 32 5" "sd_sent demo_primary = []"
    by (simp_all add: demo_primary_def enter_primary_def scheduler_new_def initial_blockhash_def demo_ledger_def Let_def)
  have reach: "sched_reach demo_distinct demo_crypto (scheduler_new 3 False (\<lambda>_. True) demo_ledger) demo_replica"
    unfolding demo_replica_def by (rule reach_step [OF reach_refl to_replica])
  have fed: "\<forall>t \<in> set (arrivals demo_replay). demo_distinct t \<and> pt_mode t \<notin> {Execution, Simulation}"
    by (simp add: demo_distinct_def account_keys_def demo_replay_def demo_load_def demo_task_def demo_key_def)
  have "hashed (sd_sent p) = map pt_signature (filter on_record (map it_txn (sd_sent p)))"
    by (simp add: hashed_def filter_map)
  then have same: "map pt_signature (arrivals demo_replay) = hashed (sd_sent p)"
    unfolding p(2) by (simp add: demo_replay_def demo_load_def demo_task_def on_record_def)
  obtain block p'' where block: "prepare_block_as_primary demo_crypto 0 p = (block, p'')"
    by fastforce
  have "\<forall>t. demo_distinct t \<longrightarrow> distinct (account_keys t)"
    by (simp add: demo_distinct_def)
  from replica_agrees [OF p(1) start(1,2) block _ reach this demo_replica_start r(1) fed same r(2), of True] start(3)
  have "sd_divergences (fst (apply_replayed_block demo_crypto True block r)) = sd_divergences demo_replica"
    by simp
  then show ?thesis
    using p(1) r(1) block by auto
qed

end
