(* ===== verification/Rpc.thy ===== *)
theory Rpc
  imports Honest_Writer Expiring_Cache
begin

text \<open>
  The endpoints of the RPC service that issue and serve receipts
  (\<open>src/magicblock-validator/magicblock-aperture/src\<close>: \<open>requests/http\<close>, \<open>attack.rs\<close>, \<open>error.rs\<close>). A request is served
  alone; interleavings of requests are interleavings of the commands they send to the writer, which
  the properties of the writer quantify over. Base64, Base58, the Solana wire format, account cloning
  and the scheduler behind its channel are the parameters \<open>rpc_libs\<close> and \<open>request_env\<close>; JSON parameters
  arrive parsed, with \<open>None\<close> for a missing or ill-typed one. Error texts are not kept.
\<close>

section \<open>Errors\<close>

record rpc_error =
  rpc_code :: int
  rpc_http_status :: nat

datatype transaction_error = ClusterMaintenance | TransactionAlreadyProcessed | OtherTransactionError nat

definition transaction_verification :: rpc_error where
  "transaction_verification = \<lparr>rpc_code = - 32003, rpc_http_status = 200\<rparr>"

definition invalid_request :: rpc_error where
  "invalid_request = \<lparr>rpc_code = - 32600, rpc_http_status = 200\<rparr>"

definition invalid_params :: rpc_error where
  "invalid_params = \<lparr>rpc_code = - 32602, rpc_http_status = 200\<rparr>"

definition internal :: rpc_error where
  "internal = \<lparr>rpc_code = - 32603, rpc_http_status = 200\<rparr>"

definition parse_error :: rpc_error where
  "parse_error = \<lparr>rpc_code = - 32700, rpc_http_status = 200\<rparr>"

definition unavailable :: rpc_error where
  "unavailable = \<lparr>rpc_code = - 32603, rpc_http_status = 503\<rparr>"

definition rpc_of_transaction_error :: "transaction_error \<Rightarrow> rpc_error" where
  "rpc_of_transaction_error error =
     transaction_verification\<lparr>rpc_http_status := if error = ClusterMaintenance then 503 else 200\<rparr>"

section \<open>The attack rig\<close>

text \<open>A transaction ready to be forwarded, with the bytes the client sent.\<close>

text \<open>
  Of a decoded message: its version with the number of address table lookups of a version 0
  message, and the program index of each instruction.
\<close>

datatype versioned_message = Legacy | V0 nat

record wire_transaction =
  wt_signature :: bytes
  wt_recent_blockhash :: bytes
  wt_encoded :: bytes
  wt_message :: versioned_message
  wt_program_ids :: "u8 list"

datatype attack = NoAttack | ReorderSwap | Withhold

definition attack_parse :: "string \<Rightarrow> attack option" where
  "attack_parse raw =
     (let name = trim raw in
      if name = ''reorder-swap'' then Some ReorderSwap
      else if name = ''withhold'' then Some Withhold
      else None)"

record attack_rig =
  ar_mode :: attack
  ar_held :: "wire_transaction option"

definition rig_disabled :: attack_rig where
  "rig_disabled = \<lparr>ar_mode = NoAttack, ar_held = None\<rparr>"

definition rig_from_env :: "string option \<Rightarrow> attack_rig" where
  "rig_from_env var =
     (case var of
        None \<Rightarrow> rig_disabled
      | Some raw \<Rightarrow>
          (case attack_parse raw of
             None \<Rightarrow> rig_disabled
           | Some mode \<Rightarrow> \<lparr>ar_mode = mode, ar_held = None\<rparr>))"

definition rig_is_enabled :: "attack_rig \<Rightarrow> bool" where
  "rig_is_enabled rig \<longleftrightarrow> ar_mode rig \<noteq> NoAttack"

definition intercept :: "wire_transaction \<Rightarrow> attack_rig \<Rightarrow> wire_transaction list \<times> attack_rig" where
  "intercept transaction rig =
     (case ar_mode rig of
        NoAttack \<Rightarrow> ([transaction], rig)
      | Withhold \<Rightarrow>
          if ar_held rig = None then ([], rig\<lparr>ar_held := Some transaction\<rparr>)
          else ([transaction], rig\<lparr>ar_held := None\<rparr>)
      | ReorderSwap \<Rightarrow>
          (case ar_held rig of
             Some earlier \<Rightarrow> ([transaction, earlier], rig\<lparr>ar_held := None\<rparr>)
           | None \<Rightarrow> ([], rig\<lparr>ar_held := Some transaction\<rparr>)))"

definition drain :: "attack_rig \<Rightarrow> wire_transaction option \<times> attack_rig" where
  "drain rig = (ar_held rig, rig\<lparr>ar_held := None\<rparr>)"

section \<open>Parameters and state\<close>

datatype encoding = Base58 | Base64 | OtherEncoding

record rpc_libs =
  rl_base64 :: "bytes \<Rightarrow> string"
  rl_unbase64 :: "string \<Rightarrow> bytes option"
  rl_unbase58 :: "string \<Rightarrow> bytes option"
  rl_deserialize :: "bytes \<Rightarrow> wire_transaction option"
  rl_sanitize :: "wire_transaction \<Rightarrow> transaction_error option"
  rl_valid_key :: "bytes \<Rightarrow> bool"

text \<open>Base64 decodes what it encoded.\<close>

definition base64_ok :: "rpc_libs \<Rightarrow> bool" where
  "base64_ok L \<longleftrightarrow> (\<forall>bs. rl_unbase64 L (rl_base64 L bs) = Some bs)"

record request_env =
  rq_now :: nat
  rq_writer :: moment
  rq_outcome :: moment
  rq_accounts :: "rpc_error option"
  rq_schedule :: "bool \<Rightarrow> wire_transaction \<Rightarrow> transaction_error + unit"

record rpc_node =
  nd_primary :: bool
  nd_admission :: admission_state
  nd_writer :: writer
  nd_store :: receipt_store
  nd_rig :: attack_rig

definition require_primary_rpc_method :: "rpc_node \<Rightarrow> rpc_error + unit" where
  "require_primary_rpc_method node =
     (if \<not> nd_primary node then Inl transaction_verification
      else if \<not> bc_ready (as_blocks (nd_admission node)) then Inl unavailable
      else Inr ())"

definition MAX_RUNTIME_PROGRAM_ID_INDEX_EXCLUSIVE :: nat where
  "MAX_RUNTIME_PROGRAM_ID_INDEX_EXCLUSIVE = 1232 div LEN_PUBKEY"

definition validate_supported_transaction_shape :: "wire_transaction \<Rightarrow> rpc_error + unit" where
  "validate_supported_transaction_shape transaction =
     (if (case wt_message transaction of V0 lookups \<Rightarrow> lookups \<noteq> 0 | Legacy \<Rightarrow> False)
      then Inl transaction_verification
      else if \<exists>program_id_index \<in> set (wt_program_ids transaction).
                MAX_RUNTIME_PROGRAM_ID_INDEX_EXCLUSIVE \<le> unat program_id_index
      then Inl transaction_verification
      else Inr ())"

text \<open>
  The transaction of a request, with signatures verified and its own blockhash kept, as the
  endpoints below ask for it.
\<close>

definition prepare_transaction :: "rpc_libs \<Rightarrow> string \<Rightarrow> encoding \<Rightarrow> rpc_node \<Rightarrow> rpc_error + wire_transaction" where
  "prepare_transaction L txn encoding node =
     and_then
       (case encoding of
          Base58 \<Rightarrow> ok_or parse_error (rl_unbase58 L txn)
        | Base64 \<Rightarrow> ok_or parse_error (rl_unbase64 L txn)
        | OtherEncoding \<Rightarrow> Inl invalid_params) (\<lambda>encoded.
     and_then (ok_or invalid_params (rl_deserialize L encoded)) (\<lambda>transaction.
     and_then (validate_supported_transaction_shape transaction) (\<lambda>_.
     if \<not> cache_contains (wt_recent_blockhash transaction) (bc_cache (as_blocks (nd_admission node)))
     then Inl transaction_verification
     else
       (case rl_sanitize L transaction of
          Some error \<Rightarrow> Inl (rpc_of_transaction_error error)
        | None \<Rightarrow> Inr (transaction\<lparr>wt_encoded := encoded\<rparr>)))))"

text \<open>A command sent to the writer, with its reply.\<close>

definition serve :: "crypto \<Rightarrow> moment \<Rightarrow> writer_command \<Rightarrow> rpc_node \<Rightarrow> rpc_node \<times> signed_receipt list \<times> writer_reply" where
  "serve C moment command node =
     (let (w, st, events, reply) = handle C moment command (nd_writer node) (nd_store node)
      in (node\<lparr>nd_writer := w, nd_store := st\<rparr>, events, reply))"

definition record_outcome :: "crypto \<Rightarrow> moment \<Rightarrow> u64 \<Rightarrow> outcome \<Rightarrow> rpc_node \<Rightarrow> rpc_node" where
  "record_outcome C moment seq outcome node = fst (serve C moment (RecordOutcome seq outcome) node)"

definition outcome_of_schedule :: "transaction_error + unit \<Rightarrow> outcome" where
  "outcome_of_schedule scheduled = (if scheduled = Inl ClusterMaintenance then Rejected_outcome else Accepted)"

text \<open>The loop over what is forwarded: the last result counts, \<open>Ok\<close> when nothing is.\<close>

definition schedule_all :: "(wire_transaction \<Rightarrow> transaction_error + unit) \<Rightarrow> wire_transaction list \<Rightarrow> transaction_error + unit" where
  "schedule_all schedule transactions = foldl (\<lambda>_ transaction. schedule transaction) (Inr ()) transactions"

section \<open>Endpoints\<close>

text \<open>Each returns its answer, the node, what it handed to the scheduler and what was broadcast.\<close>

type_synonym 'a served = "(rpc_error + 'a) \<times> rpc_node \<times> wire_transaction list \<times> signed_receipt list"

definition finish_send ::
    "crypto \<Rightarrow> rpc_libs \<Rightarrow> request_env \<Rightarrow> bool \<Rightarrow> wire_transaction \<Rightarrow> signed_receipt \<Rightarrow> signed_receipt list \<Rightarrow> rpc_node
     \<Rightarrow> (bytes \<times> string) served" where
  "finish_send C L env skip_preflight transaction receipt events node =
     (let seq = r_seq (s_receipt receipt) in
      case rq_accounts env of
        Some error \<Rightarrow> (Inl error, record_outcome C (rq_outcome env) seq Rejected_outcome node, [], events)
      | None \<Rightarrow>
          (let (forwarded, rig) = intercept transaction (nd_rig node);
               scheduled = schedule_all (rq_schedule env skip_preflight) forwarded;
               node = record_outcome C (rq_outcome env) seq (outcome_of_schedule scheduled) (node\<lparr>nd_rig := rig\<rparr>)
           in
           (case scheduled of
              Inl error \<Rightarrow> (Inl (rpc_of_transaction_error error), node, forwarded, events)
            | Inr _ \<Rightarrow>
                (Inr (wt_signature transaction, rl_base64 L (signed_to_bytes receipt)), node, forwarded, events))))"

definition send_transaction ::
    "crypto \<Rightarrow> rpc_libs \<Rightarrow> request_env \<Rightarrow> string option \<Rightarrow> encoding \<Rightarrow> bool \<Rightarrow> rpc_node \<Rightarrow> (bytes \<times> string) served" where
  "send_transaction C L env transaction_str encoding skip_preflight node =
     (case and_then (require_primary_rpc_method node) (\<lambda>_.
           and_then (ok_or invalid_params transaction_str) (\<lambda>txn.
           prepare_transaction L txn encoding node)) of
        Inl error \<Rightarrow> (Inl error, node, [], [])
      | Inr transaction \<Rightarrow>
          (case reserve (rq_now env) (wt_signature transaction) (nd_admission node) of
             (False, admission) \<Rightarrow>
               (Inl (rpc_of_transaction_error TransactionAlreadyProcessed), node\<lparr>nd_admission := admission\<rparr>, [], [])
           | (True, admission) \<Rightarrow>
               (let (node, events, reply) =
                      serve C (rq_writer env)
                        (StampRequest (wt_signature transaction) (wt_encoded transaction) (wt_recent_blockhash transaction))
                        (node\<lparr>nd_admission := admission\<rparr>)
                in
                case reply of
                  Stamped (Inr receipt) \<Rightarrow> finish_send C L env skip_preflight transaction receipt events node
                | _ \<Rightarrow> (Inl internal, node, [], events))))"

definition decode_hash :: "rpc_libs \<Rightarrow> string \<Rightarrow> rpc_error + bytes" where
  "decode_hash L encoded =
     (case rl_unbase64 L encoded of
        Some bs \<Rightarrow> if length bs = LEN_HASH then Inr bs else Inl invalid_params
      | None \<Rightarrow> Inl invalid_params)"

definition decode_pubkey :: "rpc_libs \<Rightarrow> string \<Rightarrow> rpc_error + bytes" where
  "decode_pubkey L encoded =
     (case rl_unbase58 L encoded of
        Some bs \<Rightarrow> if length bs = 32 then Inr bs else Inl invalid_params
      | None \<Rightarrow> Inl invalid_params)"

definition verify_commitment :: "crypto \<Rightarrow> rpc_libs \<Rightarrow> bytes \<Rightarrow> bytes \<Rightarrow> string \<Rightarrow> rpc_error + unit" where
  "verify_commitment C L tx_hash committer signature =
     and_then
       (case rl_unbase64 L signature of
          Some bs \<Rightarrow> if length bs = 64 then Inr bs else Inl invalid_params
        | None \<Rightarrow> Inl invalid_params) (\<lambda>raw.
     if \<not> rl_valid_key L committer then Inl invalid_params
     else if ed_verify C committer tx_hash raw then Inr ()
     else Inl transaction_verification)"

definition commit_transaction ::
    "crypto \<Rightarrow> rpc_libs \<Rightarrow> request_env \<Rightarrow> string option \<Rightarrow> string option \<Rightarrow> string option \<Rightarrow> rpc_node
     \<Rightarrow> (u64 \<times> string) served" where
  "commit_transaction C L env hash committer signature node =
     (case and_then (require_primary_rpc_method node) (\<lambda>_.
           and_then (ok_or invalid_params hash) (\<lambda>hash.
           and_then (ok_or invalid_params committer) (\<lambda>committer.
           and_then (ok_or invalid_params signature) (\<lambda>signature.
           and_then (decode_hash L hash) (\<lambda>tx_hash.
           and_then (decode_pubkey L committer) (\<lambda>committer.
           and_then (verify_commitment C L tx_hash committer signature) (\<lambda>_.
           Inr (tx_hash, committer)))))))) of
        Inl error \<Rightarrow> (Inl error, node, [], [])
      | Inr (tx_hash, committer) \<Rightarrow>
          (let (node, events, reply) = serve C (rq_writer env) (CommitRequest tx_hash committer) node in
           case reply of
             Stamped (Inr ticket) \<Rightarrow>
               (Inr (r_seq (s_receipt ticket), rl_base64 L (signed_to_bytes ticket)), node, [], events)
           | _ \<Rightarrow> (Inl internal, node, [], events)))"

definition finish_reveal ::
    "crypto \<Rightarrow> request_env \<Rightarrow> bool \<Rightarrow> wire_transaction \<Rightarrow> u64 \<Rightarrow> rpc_node \<Rightarrow> (bytes \<times> u64) served" where
  "finish_reveal C env skip_preflight transaction seq node =
     (case rq_accounts env of
        Some error \<Rightarrow> (Inl error, record_outcome C (rq_outcome env) seq Rejected_outcome node, [], [])
      | None \<Rightarrow>
          (let scheduled = rq_schedule env skip_preflight transaction;
               node = record_outcome C (rq_outcome env) seq (outcome_of_schedule scheduled) node
           in
           (case scheduled of
              Inl error \<Rightarrow> (Inl (rpc_of_transaction_error error), node, [transaction], [])
            | Inr _ \<Rightarrow> (Inr (wt_signature transaction, seq), node, [transaction], []))))"

definition reveal_transaction ::
    "crypto \<Rightarrow> rpc_libs \<Rightarrow> request_env \<Rightarrow> string option \<Rightarrow> encoding \<Rightarrow> bool \<Rightarrow> rpc_node \<Rightarrow> (bytes \<times> u64) served" where
  "reveal_transaction C L env transaction_str encoding skip_preflight node =
     (case and_then (require_primary_rpc_method node) (\<lambda>_.
           and_then (ok_or invalid_params transaction_str) (\<lambda>txn.
           prepare_transaction L txn encoding node)) of
        Inl error \<Rightarrow> (Inl error, node, [], [])
      | Inr transaction \<Rightarrow>
          (case reserve (rq_now env) (wt_signature transaction) (nd_admission node) of
             (False, admission) \<Rightarrow>
               (Inl (rpc_of_transaction_error TransactionAlreadyProcessed), node\<lparr>nd_admission := admission\<rparr>, [], [])
           | (True, admission) \<Rightarrow>
               (let digest = tx_hash_of C (wt_encoded transaction);
                    (node, events, reply) =
                      serve C (rq_writer env) (RevealRequest digest (wt_signature transaction))
                        (node\<lparr>nd_admission := admission\<rparr>)
                in
                case reply of
                  Revealed (Some (seq, _)) \<Rightarrow> finish_reveal C env skip_preflight transaction seq node
                | _ \<Rightarrow> (Inl invalid_request, node, [], []))))"

section \<open>Reading the log\<close>

definition MAX_RECEIPTS_LIMIT :: u64 where "MAX_RECEIPTS_LIMIT = 1000"

record receipt_entry =
  en_seq :: u64
  en_outcome :: string
  en_receipt :: string

definition describe_outcome :: "u8 \<Rightarrow> string" where
  "describe_outcome byte =
     (case outcome_from_u8 byte of
        Some Pending \<Rightarrow> ''pending''
      | Some Accepted \<Rightarrow> ''accepted''
      | Some Rejected_outcome \<Rightarrow> ''rejected''
      | Some Expired \<Rightarrow> ''expired''
      | None \<Rightarrow> ''unknown'')"

definition receipt_entry_new :: "rpc_libs \<Rightarrow> u64 \<times> u8 \<times> bytes \<Rightarrow> receipt_entry" where
  "receipt_entry_new L row =
     (let (seq, outcome, receipt) = row
      in \<lparr>en_seq = seq, en_outcome = describe_outcome outcome, en_receipt = rl_base64 L receipt\<rparr>)"

definition get_receipts ::
    "rpc_libs \<Rightarrow> disk \<Rightarrow> u64 option \<Rightarrow> u64 option \<Rightarrow> receipt_store \<Rightarrow> rpc_error + receipt_entry list" where
  "get_receipts L disk from_seq limit st =
     and_then (ok_or invalid_params from_seq) (\<lambda>from_seq.
     let limit = min (case limit of Some n \<Rightarrow> n | None \<Rightarrow> MAX_RECEIPTS_LIMIT) MAX_RECEIPTS_LIMIT in
     and_then (map_err (\<lambda>_. internal) (iter_receipts disk from_seq st)) (\<lambda>rows.
     Inr (map (receipt_entry_new L) (take (unat limit) rows))))"

definition get_receipt ::
    "rpc_libs \<Rightarrow> disk \<Rightarrow> bytes option \<Rightarrow> receipt_store \<Rightarrow> rpc_error + receipt_entry option" where
  "get_receipt L disk signature st =
     and_then (ok_or invalid_params signature) (\<lambda>signature.
     and_then (map_err (\<lambda>_. internal) (read_receipt_by_signature disk signature st)) (\<lambda>row.
     Inr (map_option (receipt_entry_new L) row)))"

end
