(* ===== verification/Watch.thy ===== *)
theory Watch
  imports Scans Rpc Court
begin

text \<open>
  The watchtower as a program (\<open>src/crates/watchtower/src\<close>: \<open>main.rs\<close>, \<open>court.rs\<close>, the receipt entries of
  \<open>parse.rs\<close>): the loop that fetches the log, the head and the blocks of a node, scans them, counts what
  it could not judge and takes verified contradictions to court. What the node answers is the parameter
  \<open>node_view\<close>, one for each round of the loop, since the node moves on between rounds; printing is
  not modelled.
\<close>

section \<open>Reading entries\<close>

datatype watch_parse_error = MissingField | BadBase64 | BadReceipt

definition parse_receipt_entry :: "rpc_libs \<Rightarrow> string option \<Rightarrow> watch_parse_error + signed_receipt" where
  "parse_receipt_entry L receipt =
     and_then (ok_or MissingField receipt) (\<lambda>encoded.
     and_then (ok_or BadBase64 (rl_unbase64 L encoded)) (\<lambda>bs.
     map_err (\<lambda>_. BadReceipt) (signed_from_bytes bs)))"

fun collect_results :: "('e + 'a) list \<Rightarrow> 'e + 'a list" where
  "collect_results [] = Inr []"
| "collect_results (r # rs) = and_then r (\<lambda>x. and_then (collect_results rs) (\<lambda>xs. Inr (x # xs)))"

definition load_client_receipts :: "rpc_libs \<Rightarrow> string list \<Rightarrow> watch_parse_error + signed_receipt list" where
  "load_client_receipts L encoded = collect_results (map (\<lambda>entry. parse_receipt_entry L (Some entry)) encoded)"

section \<open>Court\<close>

record court =
  co_payer :: pubkey
  co_addresses :: addresses

definition court_convict :: "runtime \<Rightarrow> court \<Rightarrow> fault \<Rightarrow> operator \<Rightarrow> solana_instruction list option" where
  "court_convict R court fault operator =
     (case fault of
        Equivocation _ a b \<Rightarrow>
          Some (court_prove_equivocation R (co_addresses court) (co_payer court) (op_key operator) a b)
      | _ \<Rightarrow> None)"

section \<open>Reports\<close>

record totals =
  to_faults :: nat
  to_undetermined :: "string \<rightharpoonup> nat"
  to_blocks_with_transactions :: nat
  to_transactions :: nat
  to_order :: "string \<rightharpoonup> nat"

definition totals_new :: totals where
  "totals_new = \<lparr>to_faults = 0, to_undetermined = Map.empty, to_blocks_with_transactions = 0,
     to_transactions = 0, to_order = Map.empty\<rparr>"

definition bump :: "string \<Rightarrow> (string \<rightharpoonup> nat) \<Rightarrow> (string \<rightharpoonup> nat)" where
  "bump k m = m(k \<mapsto> (case m k of Some n \<Rightarrow> n + 1 | None \<Rightarrow> 1))"

fun reason :: "undetermined \<Rightarrow> string" where
  "reason (SequenceGap _ _) = ''sequence gap''"
| "reason (MissingOrigin _) = ''log does not start at zero''"
| "reason (ForeignLog _) = ''receipt from another run of the log''"
| "reason (UnverifiableReceipt _) = ''receipt not signed by the operator''"
| "reason (UnverifiableBlock _) = ''block hash not reproduced''"
| "reason (MissingReceipt _) = ''receipt missing for a pair''"
| "reason (WithdrawnReceipt _) = ''receipt withdrawn for a pair''"
| "reason (OperatorIssuedPair _) = ''operator-issued pair''"
| "reason (UnknownBlockhash _) = ''blockhash outside the window''"
| "reason (NotYetExecuted _) = ''not yet executed''"

text \<open>What a report adds to: the totals, and the transactions sent to the court.\<close>

fun report_faults ::
    "crypto \<Rightarrow> runtime \<Rightarrow> operator \<Rightarrow> court option \<Rightarrow> fault list \<Rightarrow> totals \<times> solana_instruction list list
     \<Rightarrow> totals \<times> solana_instruction list list" where
  "report_faults C R operator court [] acc = acc"
| "report_faults C R operator court (fault # faults) acc =
     (let (totals, sent) = acc;
          totals = totals\<lparr>to_faults := to_faults totals + 1\<rparr>;
          sent =
            (case (court, fault_verify C fault (op_key operator)) of
               (Some court, Inr _) \<Rightarrow>
                 (case court_convict R court fault operator of Some instructions \<Rightarrow> sent @ [instructions] | None \<Rightarrow> sent)
             | _ \<Rightarrow> sent)
      in report_faults C R operator court faults (totals, sent))"

definition report ::
    "crypto \<Rightarrow> runtime \<Rightarrow> scan \<Rightarrow> operator \<Rightarrow> court option \<Rightarrow> totals \<times> solana_instruction list list
     \<Rightarrow> totals \<times> solana_instruction list list" where
  "report C R scan operator court acc =
     (let (totals, sent) = acc;
          totals = totals\<lparr>to_undetermined := fold (\<lambda>u. bump (reason u)) (sc_undetermined scan) (to_undetermined totals)\<rparr>
      in report_faults C R operator court (sc_faults scan) (totals, sent))"

definition disagreements :: "signed_receipt \<Rightarrow> signed_receipt \<Rightarrow> string list" where
  "disagreements sa sb =
     (let a = s_receipt sa; b = s_receipt sb;
          fields =
            (if r_tx_sig a \<noteq> r_tx_sig b then [''tx_sig''] else []) @
            (if r_tx_hash a \<noteq> r_tx_hash b then [''tx_hash''] else []) @
            (if r_recent_blockhash a \<noteq> r_recent_blockhash b then [''recent_blockhash''] else []) @
            (if r_prev_receipt_hash a \<noteq> r_prev_receipt_hash b then [''prev_receipt_hash''] else []) @
            (if r_ingress_slot a \<noteq> r_ingress_slot b then [''ingress_slot''] else []) @
            (if r_t_ingress_micros a \<noteq> r_t_ingress_micros b then [''t_ingress_micros''] else []) @
            (if r_committer a \<noteq> r_committer b then [''committer''] else [])
      in if fields = [] then [''nothing (identical)''] else fields)"

section \<open>The loop\<close>

definition RECEIPT_PAGE :: u64 where "RECEIPT_PAGE = 1000"

record 'e node_view =
  nv_receipts :: "u64 \<Rightarrow> u64 \<Rightarrow> 'e + signed_receipt list"
  nv_slot :: "'e + u64"
  nv_block :: "u64 \<Rightarrow> 'e + observed_block option"

record watch_state =
  ws_resolved :: "operator option"
  ws_next_slot :: u64
  ws_totals :: totals
  ws_blockhashes :: blockhash_slots
  ws_executed :: execution_index
  ws_sent :: "solana_instruction list list"

definition watch_new :: watch_state where
  "watch_new =
     \<lparr>ws_resolved = None, ws_next_slot = 1, ws_totals = totals_new,
      ws_blockhashes = blockhash_slots_new DEFAULT_CAPACITY, ws_executed = execution_index_new, ws_sent = []\<rparr>"

text \<open>
  A round stops the program with an error of the node, or with a panic. What was sent to the court by
  then has been sent, so a round returns the state it reached beside why it stopped.
\<close>

datatype 'e watch_stop = ClientFailed 'e | Panicked

definition resolve_operator :: "bytes \<Rightarrow> bytes option \<Rightarrow> signed_receipt list \<Rightarrow> operator option \<Rightarrow> operator" where
  "resolve_operator key log_id receipts resolved =
     (case resolved of
        Some operator \<Rightarrow> operator
      | None \<Rightarrow>
          (let adopted =
                 (case log_id of
                    Some pinned \<Rightarrow> pinned
                  | None \<Rightarrow> (case receipts of signed_rc # _ \<Rightarrow> r_log_id (s_receipt signed_rc) | [] \<Rightarrow> replicate 32 0))
           in \<lparr>op_key = key, op_log_id = adopted\<rparr>))"

definition record_executions :: "observed_block \<Rightarrow> observed_transaction list \<Rightarrow> execution_index \<Rightarrow> execution_index" where
  "record_executions block order executed =
     fold (\<lambda>(position, txn). execution_record (ot_signature txn) (ot_tx_hash txn)
             \<lparr>ex_slot = ob_slot block, ex_index = of_nat position\<rparr>)
       (enumerate 0 order) executed"

definition order_label :: "order \<Rightarrow> string" where
  "order_label ord =
     (case ord of
        AsReported \<Rightarrow> ''as reported''
      | Reversed \<Rightarrow> ''reversed''
      | Unverifiable \<Rightarrow> ''unverifiable'')"

definition count_block :: "crypto \<Rightarrow> observed_block \<Rightarrow> totals \<Rightarrow> totals" where
  "count_block C block totals =
     (if ob_transactions block = [] then totals
      else totals\<lparr>to_blocks_with_transactions := to_blocks_with_transactions totals + 1,
                  to_transactions := to_transactions totals + length (ob_transactions block),
                  to_order := bump (order_label (order_derive C block)) (to_order totals)\<rparr>)"

definition watch_block ::
    "crypto \<Rightarrow> runtime \<Rightarrow> court option \<Rightarrow> bytes \<Rightarrow> operator \<Rightarrow> receipt_index \<Rightarrow> observed_block \<Rightarrow> watch_state
     \<Rightarrow> watch_state option" where
  "watch_block C R court identity operator index block ws =
     (let blockhashes = blockhash_record (ob_blockhash block) (ob_slot block) (ws_blockhashes ws);
          executed =
            (case executed_order C block of
               Some order \<Rightarrow> record_executions block order (ws_executed ws)
             | None \<Rightarrow> ws_executed ws);
          totals = count_block C block (ws_totals ws)
      in
      case scan_block C block index operator identity of
        None \<Rightarrow> None
      | Some scan \<Rightarrow>
          (let (totals, sent) = report C R scan operator court (totals, ws_sent ws)
           in Some (ws\<lparr>ws_blockhashes := blockhashes, ws_executed := executed, ws_totals := totals, ws_sent := sent\<rparr>)))"

lemma next_below:
  assumes "x < (y :: u64)"
  shows "unat (x + 1) = Suc (unat x)" "unat x < unat y"
proof -
  show less: "unat x < unat y"
    using assms by (simp add: word_less_nat_alt)
  moreover have "unat y < 2 ^ 64"
    using unat_less_2p [of y] by simp
  ultimately show "unat (x + 1) = Suc (unat x)"
    by (simp add: unat_word_ariths)
qed

function watch_slots ::
    "crypto \<Rightarrow> runtime \<Rightarrow> court option \<Rightarrow> bytes \<Rightarrow> operator \<Rightarrow> receipt_index \<Rightarrow> 'e node_view \<Rightarrow> u64 \<Rightarrow> watch_state
     \<Rightarrow> watch_state \<times> ('e watch_stop + unit)" where
  "watch_slots C R court identity operator index view head ws =
     (if ws_next_slot ws < head then
        (case nv_block view (ws_next_slot ws) of
           Inl error \<Rightarrow> (ws, Inl (ClientFailed error))
         | Inr None \<Rightarrow>
             watch_slots C R court identity operator index view head (ws\<lparr>ws_next_slot := ws_next_slot ws + 1\<rparr>)
         | Inr (Some block) \<Rightarrow>
             (case watch_block C R court identity operator index block ws of
                None \<Rightarrow> (ws, Inl Panicked)
              | Some ws' \<Rightarrow>
                  watch_slots C R court identity operator index view head
                    (ws'\<lparr>ws_next_slot := ws_next_slot ws + 1\<rparr>)))
      else (ws, Inr ()))"
  by pat_completeness auto
termination
proof (relation "measure (\<lambda>(_, _, _, _, _, _, _, head, ws). unat head - unat (ws_next_slot ws))", goal_cases)
  case (2 C R court identity operator index view head ws)
  then show ?case
    using next_below [of "ws_next_slot ws" head] by simp
next
  case (3 C R court identity operator index view head ws block ws')
  then show ?case
    using next_below [of "ws_next_slot ws" head] by simp
qed simp

definition watch_round ::
    "crypto \<Rightarrow> runtime \<Rightarrow> court option \<Rightarrow> bytes \<Rightarrow> bytes option \<Rightarrow> signed_receipt list \<Rightarrow> patience \<Rightarrow> 'e node_view
     \<Rightarrow> watch_state \<Rightarrow> watch_state \<times> ('e watch_stop + unit)" where
  "watch_round C R court key log_id held patience view ws =
     (case nv_receipts view 0 RECEIPT_PAGE of
        Inl error \<Rightarrow> (ws, Inl (ClientFailed error))
      | Inr receipts \<Rightarrow>
          (let operator = resolve_operator key log_id receipts (ws_resolved ws);
               index = receipt_index_build C receipts operator;
               (totals, sent) = report C R (scan_receipts C (receipts @ held) operator) operator court (ws_totals ws, ws_sent ws);
               ws = ws\<lparr>ws_resolved := Some operator, ws_totals := totals, ws_sent := sent\<rparr>
           in
           case nv_slot view of
             Inl error \<Rightarrow> (ws, Inl (ClientFailed error))
           | Inr head \<Rightarrow>
               (case watch_slots C R court key operator index view head ws of
                  (ws, Inl stop) \<Rightarrow> (ws, Inl stop)
                | (ws, Inr _) \<Rightarrow>
                    (let (totals, sent) =
                           report C R
                             (scan_withholding C receipts (ws_executed ws) (ws_blockhashes ws) (saturating_sub (ws_next_slot ws) 1)
                               patience operator)
                             operator court (ws_totals ws, ws_sent ws)
                     in (ws\<lparr>ws_totals := totals, ws_sent := sent\<rparr>, Inr ())))))"

text \<open>The first rounds of the loop, one for each view; with \<open>--once\<close> there is one.\<close>

fun watch_rounds ::
    "crypto \<Rightarrow> runtime \<Rightarrow> court option \<Rightarrow> bytes \<Rightarrow> bytes option \<Rightarrow> signed_receipt list \<Rightarrow> patience \<Rightarrow> 'e node_view list
     \<Rightarrow> watch_state \<Rightarrow> watch_state \<times> ('e watch_stop + unit)" where
  "watch_rounds C R court key log_id held patience [] ws = (ws, Inr ())"
| "watch_rounds C R court key log_id held patience (view # views) ws =
     (case watch_round C R court key log_id held patience view ws of
        (ws, Inl stop) \<Rightarrow> (ws, Inl stop)
      | (ws, Inr _) \<Rightarrow> watch_rounds C R court key log_id held patience views ws)"

end
