(* ===== verification/Service.thy ===== *)
theory Service
  imports Watch Writer_Log
begin

text \<open>
  The service end to end: what \<open>sendTransaction\<close> hands to the scheduler has its receipt, what the node
  serves from its log is what its writer signed, and what the watchtower takes to court.
\<close>

section \<open>Sending\<close>

lemma record_outcome_store:
  "nd_store (record_outcome C now n oc node) = fst (set_receipt_outcome (mo_disk now) n (outcome_as_u8 oc) (nd_store node))"
  "nd_rig (record_outcome C now n oc node) = nd_rig node"
  by (simp_all add: record_outcome_def serve_def handle_outcome_def)

lemma stored_receipt:
  assumes "bt_ok (receipt_by_seq st)" and "map_of (receipt_by_seq st) n = Some (oc # bs)" and "map_of (receipt_by_sig st) s = Some (u64_be n)"
    and "dk_get disk = None"
  shows "\<exists>oc'. read_receipt_by_signature disk s (fst (set_receipt_outcome disk' m oc'' st)) = Inr (Some (n, oc', bs))"
proof -
  let ?st = "fst (set_receipt_outcome disk' m oc'' st)"
  have "receipt_by_sig ?st = receipt_by_sig st"
    by (auto simp: set_receipt_outcome_def put_seq_def split: option.splits sum.splits prod.splits)
  moreover have "\<exists>oc'. map_of (receipt_by_seq ?st) n = Some (oc' # bs)"
  proof (cases "?st = st")
    case False
    then obtain v where "map_of (receipt_by_seq st) m = Some v" "v \<noteq> []"
      "receipt_by_seq ?st = bt_insert m (v[0 := oc'']) (receipt_by_seq st)"
      by (auto simp: set_receipt_outcome_def get_seq_def put_seq_def split: option.splits sum.splits prod.splits if_splits)
    then show ?thesis
      using assms(1,2) by (cases "m = n") (auto simp: map_of_insert)
  qed (use assms in auto)
  ultimately show ?thesis
    using assms(3,4)
    by (auto simp: read_receipt_by_signature_def get_sig_def read_receipt_def get_seq_def split_receipt_def result_simps Let_def)
qed

lemma served_stamp:
  assumes "honest (nd_writer node)" and "store_ok (nd_store node)"
    and "serve C now (StampRequest signature wire blockhash) node = (node', events, Stamped (Inr receipt))"
  shows "events = [receipt] \<and> next_statement C (nd_writer node) receipt \<and> r_mode (s_receipt receipt) = Plain \<and>
    r_tx_sig (s_receipt receipt) = signature \<and> r_tx_hash (s_receipt receipt) = tx_hash_of C wire \<and>
    r_recent_blockhash (s_receipt receipt) = blockhash \<and> nd_rig node' = nd_rig node \<and>
    bt_ok (receipt_by_seq (nd_store node')) \<and>
    map_of (receipt_by_seq (nd_store node')) (r_seq (s_receipt receipt)) = Some (outcome_as_u8 Pending # signed_to_bytes receipt) \<and>
    map_of (receipt_by_sig (nd_store node')) signature = Some (u64_be (r_seq (s_receipt receipt)))"
proof -
  obtain v t r where stamped: "stamp C now signature wire blockhash (nd_writer node) (nd_store node) = (v, t, r)"
    using prod_cases3 by blast
  have node': "node' = node\<lparr>nd_writer := (if w_published v = None then v else v\<lparr>w_published := None\<rparr>), nd_store := t\<rparr>"
    "events = (case w_published v of Some e \<Rightarrow> [e] | None \<Rightarrow> [])" "r = Inr receipt"
    using assms(3) stamped by (auto simp: serve_def handle_stamp_def broadcast_def split: option.splits)
  from assms(1) stamped show ?thesis
  proof (cases rule: stamp_cases)
    case (refused error)
    then show ?thesis
      using node'(3) by simp
  next
    case (issued e)
    then have e: "e = receipt"
      using node'(3) by simp
    note stored = write_receipt_Inr [OF issued(9)] write_receipt_ok [OF assms(2) issued(9)]
    show ?thesis
      using issued stored node' assms(2) unfolding e by (simp add: next_statement_def store_ok_def map_of_insert)
  qed
qed

lemma intercept_honest: "ar_mode rig = NoAttack \<Longrightarrow> intercept t rig = ([t], rig)"
  by (simp add: intercept_def)

lemma send_transaction_stamps:
  assumes "send_transaction C L env txn encoding skip node = (answer, node', forwarded, events)"
  obtains (refused) error where "answer = Inl error" "forwarded = []"
    | (stamped) t node0 receipt node1 where "nd_writer node0 = nd_writer node" "nd_store node0 = nd_store node" "nd_rig node0 = nd_rig node"
      "serve C (rq_writer env) (StampRequest (wt_signature t) (wt_encoded t) (wt_recent_blockhash t)) node0 = (node1, events, Stamped (Inr receipt))"
      "finish_send C L env skip t receipt events node1 = (answer, node', forwarded, events)"
proof (cases "and_then (require_primary_rpc_method node) (\<lambda>_. and_then (ok_or invalid_params txn) (\<lambda>txn. prepare_transaction L txn encoding node))")
  case (Inl error)
  then show thesis
    using assms by (intro refused [of error]) (simp_all add: send_transaction_def)
next
  case (Inr t)
  obtain fresh admission where reserved: "reserve (rq_now env) (wt_signature t) (nd_admission node) = (fresh, admission)"
    by fastforce
  let ?node = "node\<lparr>nd_admission := admission\<rparr>"
  obtain node1 es reply where served: "serve C (rq_writer env)
      (StampRequest (wt_signature t) (wt_encoded t) (wt_recent_blockhash t)) ?node = (node1, es, reply)"
    using prod_cases3 by blast
  show thesis
  proof (cases "\<exists>receipt. fresh \<and> reply = Stamped (Inr receipt)")
    case True
    then obtain receipt where reply: "fresh" "reply = Stamped (Inr receipt)"
      by blast
    then have "finish_send C L env skip t receipt es node1 = (answer, node', forwarded, events)"
      using assms Inr reserved served by (simp add: send_transaction_def)
    moreover from this have "es = events"
      by (auto simp: finish_send_def Let_def split: option.splits prod.splits sum.splits)
    ultimately show thesis
      using stamped [of ?node t node1 receipt] served reply by simp
  next
    case False
    then show thesis
      using assms Inr reserved served refused
      by (cases fresh; cases reply) (auto simp: send_transaction_def split: sum.splits)
  qed
qed

text \<open>
  C13. Nothing is executed without a receipt. On a node that is not attacking, whatever \<open>sendTransaction\<close>
  hands to the scheduler has just been receipted: the receipt names its signature, the hash of its bytes
  and its block hash, and verifies under the node's key. A successful answer carries exactly that receipt,
  it has been broadcast, and the log serves it under the transaction's signature.
\<close>
theorem sends_are_receipted:
  assumes "crypto_ok C" and "honest (nd_writer node)" and "store_ok (nd_store node)" and "ar_mode (nd_rig node) = NoAttack"
    and "send_transaction C L env txn encoding skip node = (answer, node', forwarded, events)"
  shows "(\<forall>t \<in> set forwarded. \<exists>receipt. events = [receipt] \<and> r_mode (s_receipt receipt) = Plain \<and>
      r_tx_sig (s_receipt receipt) = wt_signature t \<and> r_tx_hash (s_receipt receipt) = tx_hash_of C (wt_encoded t) \<and>
      r_recent_blockhash (s_receipt receipt) = wt_recent_blockhash t \<and>
      verify C receipt (verifying_key C (w_key (nd_writer node))) = Inr ()) \<and>
    (\<forall>signature ticket. answer = Inr (signature, ticket) \<longrightarrow>
      (\<exists>receipt. events = [receipt] \<and> r_tx_sig (s_receipt receipt) = signature \<and> ticket = rl_base64 L (signed_to_bytes receipt) \<and>
        map wt_signature forwarded = [signature] \<and>
        (\<forall>disk. dk_get disk = None \<longrightarrow> (\<exists>oc. read_receipt_by_signature disk signature (nd_store node') =
          Inr (Some (r_seq (s_receipt receipt), oc, signed_to_bytes receipt))))))"
  using assms(5)
proof (cases rule: send_transaction_stamps)
  case refused
  then show ?thesis
    by simp
next
  case (stamped t node0 receipt node1)
  have "honest (nd_writer node0)" "store_ok (nd_store node0)"
    using stamped(1,2) assms(2,3) by simp_all
  note served = served_stamp [OF this stamped(4)]
  have "sign C (s_receipt receipt) (w_key (nd_writer node)) = Inr receipt"
    using served stamped(1) by (simp add: next_statement_def)
  then have verified: "verify C receipt (verifying_key C (w_key (nd_writer node))) = Inr ()"
    using sign_verify [OF assms(1)] by blast
  have rig: "intercept t (nd_rig node1) = ([t], nd_rig node1)"
    using intercept_honest served stamped(3) assms(4) by simp
  show ?thesis
  proof (intro conjI ballI allI impI)
    fix u
    assume "u \<in> set forwarded"
    then have "u = t"
      using stamped(5) rig by (auto simp: finish_send_def Let_def split: option.splits sum.splits)
    then show "\<exists>receipt. events = [receipt] \<and> r_mode (s_receipt receipt) = Plain \<and>
      r_tx_sig (s_receipt receipt) = wt_signature u \<and> r_tx_hash (s_receipt receipt) = tx_hash_of C (wt_encoded u) \<and>
      r_recent_blockhash (s_receipt receipt) = wt_recent_blockhash u \<and>
      verify C receipt (verifying_key C (w_key (nd_writer node))) = Inr ()"
      using served verified by blast
  next
    fix signature ticket
    assume "answer = Inr (signature, ticket)"
    then have out: "signature = wt_signature t" "ticket = rl_base64 L (signed_to_bytes receipt)" "forwarded = [t]"
      "\<exists>oc. nd_store node' = fst (set_receipt_outcome (mo_disk (rq_outcome env)) (r_seq (s_receipt receipt)) oc (nd_store node1))"
      using stamped(5) rig by (auto simp: finish_send_def Let_def record_outcome_store split: option.splits sum.splits)
    then have "\<exists>oc. read_receipt_by_signature disk signature (nd_store node') =
        Inr (Some (r_seq (s_receipt receipt), oc, signed_to_bytes receipt))" if "dk_get disk = None" for disk
      using stored_receipt [OF _ _ _ that, of "nd_store node1" "r_seq (s_receipt receipt)" "outcome_as_u8 Pending" "signed_to_bytes receipt" signature]
        served by auto
    then show "\<exists>receipt. events = [receipt] \<and> r_tx_sig (s_receipt receipt) = signature \<and> ticket = rl_base64 L (signed_to_bytes receipt) \<and>
        map wt_signature forwarded = [signature] \<and>
        (\<forall>disk. dk_get disk = None \<longrightarrow> (\<exists>oc. read_receipt_by_signature disk signature (nd_store node') =
          Inr (Some (r_seq (s_receipt receipt), oc, signed_to_bytes receipt))))"
      using served out by (intro exI [of _ receipt]) simp
  qed
qed

section \<open>Serving the log\<close>

lemma filter_suffix: "\<forall>i < length xs. P (xs ! i) \<longleftrightarrow> k \<le> i \<Longrightarrow> filter P xs = drop k xs"
proof (induction xs arbitrary: k)
  case (Cons x xs)
  have "\<forall>i < length xs. P (xs ! i) \<longleftrightarrow> k - 1 \<le> i" "P x \<longleftrightarrow> k = 0"
    using Cons.prems by (auto simp: All_less_Suc2)
  then show ?case
    using Cons.IH [of "k - 1"] by (cases k) auto
qed simp

lemma page_rows:
  assumes "chained C 0 GENESIS_PREV_HASH events" and "length events < 2 ^ 64"
  shows "filter (\<lambda>(seq, _). from_seq \<le> seq) (map log_row events) = map log_row (drop (unat from_seq) events)"
proof -
  have "from_seq \<le> r_seq (s_receipt (events ! i)) \<longleftrightarrow> unat from_seq \<le> i" if "i < length events" for i
    using chained_nth [OF assms(1) that] that assms(2) by (simp add: word_le_nat_alt unat_of_nat)
  then show ?thesis
    by (subst filter_suffix [of _ _ "unat from_seq"]) (simp_all add: drop_map)
qed

lemma parse_entries:
  assumes "base64_ok L" and "map (\<lambda>(_, _, bs). bs) rows = map signed_to_bytes es" and "\<forall>e \<in> set es. signed_from_bytes (signed_to_bytes e) = Inr e"
  shows "collect_results (map (\<lambda>e. parse_receipt_entry L (Some (en_receipt e))) (map (receipt_entry_new L) rows)) = Inr es"
  using assms(2,3)
proof (induction rows arbitrary: es)
  case (Cons row rows)
  then show ?case
    using assms(1)
    by (cases es) (auto simp: parse_receipt_entry_def receipt_entry_new_def base64_ok_def result_simps split: prod.splits)
qed simp

lemma page_bytes:
  assumes "store_ok st" and "log_bytes st = map log_row events @ rest"
    and "chained C 0 GENESIS_PREV_HASH events" and "length events < 2 ^ 64"
  shows "map (\<lambda>(_, _, bs). bs) (receipt_rows from_seq st) =
    map signed_to_bytes (drop (unat from_seq) events) @ map snd (filter (\<lambda>(seq, _). from_seq \<le> seq) rest)"
proof -
  have "map (\<lambda>(_, _, bs). bs) (receipt_rows from_seq st) = map snd (map (\<lambda>(seq, _, bs). (seq, bs)) (receipt_rows from_seq st))"
    by (simp add: case_prod_unfold comp_def)
  also have "\<dots> = map snd (map log_row (drop (unat from_seq) events)) @ map snd (filter (\<lambda>(seq, _). from_seq \<le> seq) rest)"
    unfolding rows_log_bytes [OF assms(1)] assms(2) filter_append page_rows [OF assms(3,4)] map_append by (rule refl)
  finally show ?thesis
    by (simp add: comp_def)
qed

text \<open>
  C26. What the watchtower reads is what the writer signed: whatever commands an honest writer has served,
  whatever its disk did and whatever ledger it started on, a page of the log fetched over RPC begins with
  the receipts it broadcast from that position on, in order, up to the limit asked for and never more
  than a thousand, and these entries parse to exactly these receipts. The page holds nothing else when the
  ledger was empty and the signature index never failed.
\<close>
theorem page_parses:
  assumes "crypto_ok C" and "base64_ok L" and "length inbox < 2 ^ 64" and "store_ok st0"
    and "\<forall>(now, command) \<in> set inbox. command_shape command"
    and "run_writer C inbox (writer_new C key nanos minted False deadline) st0 = (w, st, events, replies)"
    and "dk_get disk = None"
    and "expected = take (unat (min (case limit of Some n \<Rightarrow> n | None \<Rightarrow> 1000) 1000)) (drop (unat from_seq) events)"
  shows "\<exists>page. get_receipts L disk (Some from_seq) limit st = Inr page \<and>
    collect_results (map (\<lambda>e. parse_receipt_entry L (Some (en_receipt e))) (take (length expected) page)) = Inr expected \<and>
    (st0 = empty_store \<and> (\<forall>(now, command) \<in> set inbox. indexable (mo_disk now)) \<longrightarrow> length page = length expected)"
proof -
  let ?n = "unat (min (case limit of Some n \<Rightarrow> n | None \<Rightarrow> 1000) 1000)"
  let ?page = "map (receipt_entry_new L) (take ?n (receipt_rows from_seq st))"
  have chain: "chained C 0 GENESIS_PREV_HASH events" "length events < 2 ^ 64"
    using run_writer_chain [OF _ assms(6)] assms(3) by simp_all
  obtain rest where rest: "store_ok st" "log_bytes st = map log_row events @ rest"
    "log_bytes st0 = [] \<longrightarrow> (\<forall>(now, command) \<in> set inbox. indexable (mo_disk now)) \<longrightarrow> rest = []"
    using assms(4,3,6) by (rule writer_log_split)
  note bytes = page_bytes [OF rest(1,2) chain, of from_seq]
  have "map (\<lambda>(_, _, bs). bs) (take (length expected) (take ?n (receipt_rows from_seq st))) = map signed_to_bytes expected"
    unfolding assms(8) take_map [symmetric] bytes by (simp add: take_map min_def)
  moreover have "signed_valid e" if "e \<in> set events" for e
    using run_writer_shapes [OF assms(1) _ assms(5) _ assms(6)] assms(1) that by simp
  then have "\<forall>e \<in> set expected. signed_from_bytes (signed_to_bytes e) = Inr e"
    unfolding assms(8) using signed_from_to_bytes by (auto dest: in_set_takeD in_set_dropD)
  ultimately have "collect_results (map (\<lambda>e. parse_receipt_entry L (Some (en_receipt e))) (take (length expected) ?page)) = Inr expected"
    unfolding take_map by (intro parse_entries [OF assms(2)])
  moreover have "get_receipts L disk (Some from_seq) limit st = Inr ?page"
    using assms(7) by (cases limit) (simp_all add: get_receipts_def iter_receipts_def MAX_RECEIPTS_LIMIT_def result_simps Let_def)
  moreover have "length ?page = length expected" if "rest = []"
    using arg_cong [OF bytes, of length] that by (simp add: assms(8))
  ultimately show ?thesis
    using rest(3) by (intro exI [of _ ?page]) auto
qed

end
