(* ===== verification/Watch_Safety.thy ===== *)
theory Watch_Safety
  imports Watch Block_Accusations
begin

text \<open>
  What the watchtower does with what it finds: every transaction it sends to the court is the proof of a
  contradiction among receipts it has seen, an honest operator is never taken to court whatever its node
  answers, and a round over a node that answers completes and misses no block.
\<close>

section \<open>What is filed\<close>

fun is_equivocation :: "fault \<Rightarrow> bool" where
  "is_equivocation (Equivocation _ _ _) = True"
| "is_equivocation _ = False"

lemma court_convict_Some: "court_convict R c f operator = Some i \<Longrightarrow> is_equivocation f"
  by (cases f) (simp_all add: court_convict_def)

lemma report_faults_sent:
  "i \<in> set (snd (report_faults C R operator court fs acc)) \<Longrightarrow> i \<notin> set (snd acc) \<Longrightarrow>
   \<exists>f \<in> set fs. \<exists>c. court = Some c \<and> fault_verify C f (op_key operator) = Inr () \<and> court_convict R c f operator = Some i"
proof (induction fs arbitrary: acc)
  case (Cons f fs)
  obtain totals sent where acc: "acc = (totals, sent)"
    by fastforce
  let ?sent = "case (court, fault_verify C f (op_key operator)) of
      (Some court, Inr _) \<Rightarrow> (case court_convict R court f operator of Some instructions \<Rightarrow> sent @ [instructions] | None \<Rightarrow> sent)
    | _ \<Rightarrow> sent"
  have step: "report_faults C R operator court (f # fs) acc =
      report_faults C R operator court fs (totals\<lparr>to_faults := to_faults totals + 1\<rparr>, ?sent)"
    by (simp add: acc)
  show ?case
  proof (cases "i \<in> set ?sent")
    case True
    then show ?thesis
      using Cons.prems(2) acc by (auto split: option.splits sum.splits)
  next
    case False
    then show ?thesis
      using Cons.IH [of "(totals\<lparr>to_faults := to_faults totals + 1\<rparr>, ?sent)"] Cons.prems(1) step by auto
  qed
qed simp

lemma report_faults_keeps: "set (snd acc) \<subseteq> set (snd (report_faults C R operator court fs acc))"
proof (induction fs arbitrary: acc)
  case (Cons f fs)
  obtain totals sent where acc: "acc = (totals, sent)"
    by fastforce
  show ?case
    unfolding acc report_faults.simps Let_def prod.case
    by (rule order_trans [OF _ Cons.IH]) (auto split: option.splits sum.splits)
qed simp

lemma report_faults_files:
  "f \<in> set fs \<Longrightarrow> court = Some c \<Longrightarrow> fault_verify C f (op_key operator) = Inr () \<Longrightarrow> court_convict R c f operator = Some i \<Longrightarrow>
   i \<in> set (snd (report_faults C R operator court fs acc))"
proof (induction fs arbitrary: acc)
  case (Cons g fs)
  obtain totals sent where acc: "acc = (totals, sent)"
    by fastforce
  show ?case
  proof (cases "g = f")
    case True
    then show ?thesis
      using report_faults_keeps [of "(totals\<lparr>to_faults := to_faults totals + 1\<rparr>, sent @ [i])" C R operator court fs] Cons.prems(2-4)
      by (auto simp: acc)
  next
    case False
    then show ?thesis
      using Cons unfolding acc report_faults.simps Let_def prod.case by simp
  qed
qed simp

lemma report_faults_quiet:
  "\<forall>f \<in> set fs. \<not> is_equivocation f \<Longrightarrow> snd (report_faults C R operator court fs acc) = snd acc"
proof (induction fs arbitrary: acc)
  case (Cons f fs)
  have "court_convict R c f operator = None" for c
    using Cons.prems court_convict_Some [of R c f operator] by (cases "court_convict R c f operator") simp_all
  then show ?case
    using Cons by (auto simp: case_prod_unfold Let_def split: option.splits sum.splits)
qed simp

lemma report_sent:
  "i \<in> set (snd (report C R scan operator court acc)) \<Longrightarrow> i \<notin> set (snd acc) \<Longrightarrow>
   \<exists>f \<in> set (sc_faults scan). \<exists>c. court = Some c \<and> fault_verify C f (op_key operator) = Inr () \<and> court_convict R c f operator = Some i"
  using report_faults_sent [of i C R operator court "sc_faults scan"] by (auto simp: report_def Let_def case_prod_unfold)

lemma report_quiet:
  "\<forall>f \<in> set (sc_faults scan). \<not> is_equivocation f \<Longrightarrow> snd (report C R scan operator court acc) = snd acc"
  using report_faults_quiet [of "sc_faults scan"] by (simp add: report_def Let_def case_prod_unfold)

lemma ticket_quiet: "f \<in> set (faults_of (check_ticket_is_live C block i txn executed receipts)) \<Longrightarrow> \<not> is_equivocation f"
  by (auto simp: check_ticket_is_live_def Let_def split: option.splits if_splits)

lemma pair_quiet: "check_pair C block x y receipts operator identity = Some (Fault f) \<Longrightarrow> \<not> is_equivocation f"
  by (auto simp: check_pair_def Let_def split: option.splits if_splits prod.splits)

lemma block_quiet:
  assumes "scan_block C block receipts operator identity = Some s" and "f \<in> set (sc_faults s)"
  shows "\<not> is_equivocation f"
proof -
  obtain s' where "scan_block C block receipts operator identity = Some s'" and
    faults: "\<forall>f \<in> set (sc_faults s'). \<exists>executed. executed_order C block = Some executed \<and>
      ((\<exists>i < length executed.
          f \<in> set (faults_of (check_ticket_is_live C block (of_nat i) (executed ! i) executed receipts))) \<or>
       (\<exists>i j. i < j \<and> j < length executed \<and>
          check_pair C block (of_nat i, executed ! i) (of_nat j, executed ! j) receipts operator identity = Some (Fault f)))"
    using scan_block_run [of C block receipts operator identity] by (elim exE conjE)
  then have "f \<in> set (sc_faults s')"
    using assms by simp
  from bspec [OF faults this] show ?thesis
    by (elim exE conjE disjE) (rule ticket_quiet, assumption, rule pair_quiet)
qed

lemma deliveries_quiet:
  assumes "f \<in> set (sc_faults (scan_withholding C receipts executed blockhashes head patience operator))"
  shows "\<not> is_equivocation f"
proof -
  obtain e where "f \<in> set (faults_of (check_ingress_is_possible e blockhashes patience)) \<or>
      f \<in> set (faults_of (check_delivery e executed head patience))"
    using assms unfolding scan_withholding_def scan_deliveries_faults by auto
  then show ?thesis
    by (auto simp: check_ingress_is_possible_def check_delivery_def Let_def split: option.splits if_splits)
qed

section \<open>The loop over slots\<close>

lemma record_executions_known:
  "dom (ei_by_signature executed) \<union> ot_signature ` set order \<subseteq> dom (ei_by_signature (record_executions block order executed))"
proof -
  have "dom (ei_by_signature ei) \<union> ot_signature ` snd ` set xs \<subseteq>
      dom (ei_by_signature (fold (\<lambda>(position, txn). execution_record (ot_signature txn) (ot_tx_hash txn)
        \<lparr>ex_slot = ob_slot block, ex_index = of_nat position\<rparr>) xs ei))" for xs ei
  proof (induction xs arbitrary: ei)
    case (Cons x xs)
    obtain n t where x: "x = (n, t)"
      by fastforce
    let ?ei = "execution_record (ot_signature t) (ot_tx_hash t) \<lparr>ex_slot = ob_slot block, ex_index = of_nat n\<rparr> ei"
    have "dom (ei_by_signature ?ei) = insert (ot_signature t) (dom (ei_by_signature ei))"
      by (simp add: execution_record_def)
    then show ?case
      using Cons.IH [of ?ei] by (auto simp: x)
  qed simp
  from this [of executed "enumerate 0 order"] show ?thesis
    unfolding record_executions_def by (simp add: set_map [symmetric] del: set_map)
qed

lemma watch_block_spec:
  assumes "watch_block C R court identity operator index block ws = Some ws'"
  shows "ws_sent ws' = ws_sent ws \<and> ws_resolved ws' = ws_resolved ws \<and>
    dom (ei_by_signature (ws_executed ws)) \<subseteq> dom (ei_by_signature (ws_executed ws')) \<and>
    (\<forall>order. executed_order C block = Some order \<longrightarrow> ot_signature ` set order \<subseteq> dom (ei_by_signature (ws_executed ws')))"
proof -
  obtain s where s: "scan_block C block index operator identity = Some s"
    using assms by (auto simp: watch_block_def Let_def split: option.splits)
  let ?acc = "(count_block C block (ws_totals ws), ws_sent ws)"
  have "snd (report C R s operator court ?acc) = ws_sent ws"
    using report_quiet [of s C R operator court ?acc] block_quiet [OF s] by simp
  moreover have "ws' = ws\<lparr>ws_blockhashes := blockhash_record (ob_blockhash block) (ob_slot block) (ws_blockhashes ws),
      ws_executed := (case executed_order C block of Some order \<Rightarrow> record_executions block order (ws_executed ws) | None \<Rightarrow> ws_executed ws),
      ws_totals := fst (report C R s operator court ?acc), ws_sent := snd (report C R s operator court ?acc)\<rparr>"
    using assms s by (simp add: watch_block_def Let_def case_prod_unfold)
  ultimately show ?thesis
    using record_executions_known [of "ws_executed ws" _ block] by (auto split: option.splits)
qed

lemma watch_block_defined: "watch_block C R court identity operator index block ws \<noteq> None"
  using scan_block_run [of C block index operator identity] by (auto simp: watch_block_def Let_def case_prod_unfold)

lemma slots_between:
  assumes "x < (h :: u64)"
  shows "max (x + 1) h = max x h" and "x \<le> n \<Longrightarrow> n = x \<or> x + 1 \<le> n"
  using next_below [OF assms] assms by (auto simp: word_le_nat_alt word_less_nat_alt max_def word_unat_eq_iff)

text \<open>What holds of a state that has seen the blocks of a range of slots.\<close>

definition seen_slots :: "crypto \<Rightarrow> 'e node_view \<Rightarrow> u64 \<Rightarrow> u64 \<Rightarrow> watch_state \<Rightarrow> bool" where
  "seen_slots C view first head ws \<longleftrightarrow>
     (\<forall>n block order. first \<le> n \<longrightarrow> n < head \<longrightarrow> nv_block view n = Inr (Some block) \<longrightarrow> executed_order C block = Some order \<longrightarrow>
        ot_signature ` set order \<subseteq> dom (ei_by_signature (ws_executed ws)))"

lemma seen_slots_step:
  assumes "first < head" and "seen_slots C view (first + 1) head ws"
    and "\<And>block order. nv_block view first = Inr (Some block) \<Longrightarrow> executed_order C block = Some order \<Longrightarrow>
      ot_signature ` set order \<subseteq> dom (ei_by_signature (ws_executed ws))"
  shows "seen_slots C view first head ws"
  using assms(2,3) slots_between(2) [OF assms(1)] unfolding seen_slots_def by blast

lemma watch_slots_spec:
  "watch_slots C R court identity operator index view head ws = (ws', result) \<Longrightarrow>
   ws_sent ws' = ws_sent ws \<and> ws_resolved ws' = ws_resolved ws \<and>
   dom (ei_by_signature (ws_executed ws)) \<subseteq> dom (ei_by_signature (ws_executed ws')) \<and>
   (result = Inr () \<longrightarrow> ws_next_slot ws' = max (ws_next_slot ws) head \<and> seen_slots C view (ws_next_slot ws) head ws')"
proof (induction C R court identity operator index view head ws rule: watch_slots.induct)
  case (1 C R court identity operator index view head ws)
  show ?case
  proof (cases "ws_next_slot ws < head")
    case False
    then have "ws' = ws"
      using "1.prems" by (subst (asm) watch_slots.simps) simp
    then show ?thesis
      using False by (auto simp: seen_slots_def)
  next
    case True
    note between = slots_between(1) [OF True]
    show ?thesis
    proof (cases "nv_block view (ws_next_slot ws)")
      case (Inl error)
      then show ?thesis
        using "1.prems" True by (subst (asm) watch_slots.simps) auto
    next
      case (Inr found)
      show ?thesis
      proof (cases found)
        case None
        then have "watch_slots C R court identity operator index view head (ws\<lparr>ws_next_slot := ws_next_slot ws + 1\<rparr>) = (ws', result)"
          using "1.prems" True Inr by (subst (asm) watch_slots.simps) simp
        note ih = "1.IH"(1) [OF True Inr None this]
        then show ?thesis
          using between seen_slots_step [OF True, of C view ws'] Inr None by simp
      next
        case (Some block)
        obtain ws1 where block: "watch_block C R court identity operator index block ws = Some ws1"
          using watch_block_defined by fastforce
        then have "watch_slots C R court identity operator index view head (ws1\<lparr>ws_next_slot := ws_next_slot ws + 1\<rparr>) = (ws', result)"
          using "1.prems" True Inr Some by (subst (asm) watch_slots.simps) simp
        note ih = "1.IH"(2) [OF True Inr Some block this]
        then have grown: "dom (ei_by_signature (ws_executed ws1)) \<subseteq> dom (ei_by_signature (ws_executed ws'))"
          by simp
        have "ot_signature ` set order \<subseteq> dom (ei_by_signature (ws_executed ws'))"
          if "nv_block view (ws_next_slot ws) = Inr (Some b)" "executed_order C b = Some order" for b order
          using that watch_block_spec [OF block] subset_trans [OF _ grown] Inr Some by simp
        then have "seen_slots C view (ws_next_slot ws) head ws'" if "seen_slots C view (ws_next_slot ws + 1) head ws'"
          by (rule seen_slots_step [OF True that])
        then show ?thesis
          using ih watch_block_spec [OF block] between subset_trans [OF _ grown] by simp
      qed
    qed
  qed
qed

lemma watch_slots_answered:
  "\<forall>n. \<not> is_err (nv_block view n) \<Longrightarrow> \<exists>ws'. watch_slots C R court identity operator index view head ws = (ws', Inr ())"
proof (induction C R court identity operator index view head ws rule: watch_slots.induct)
  case (1 C R court identity operator index view head ws)
  show ?case
  proof (cases "ws_next_slot ws < head")
    case False
    then show ?thesis
      by (subst watch_slots.simps) simp
  next
    case True
    obtain found where found: "nv_block view (ws_next_slot ws) = Inr found"
      using "1.prems" by (auto simp: not_is_err_iff)
    show ?thesis
    proof (cases found)
      case None
      then show ?thesis
        using "1.IH"(1) [OF True found None "1.prems"] True found by (subst watch_slots.simps) simp
    next
      case (Some block)
      obtain ws1 where block: "watch_block C R court identity operator index block ws = Some ws1"
        using watch_block_defined by fastforce
      then show ?thesis
        using "1.IH"(2) [OF True found Some block "1.prems"] True found Some by (subst watch_slots.simps) simp
    qed
  qed
qed

section \<open>Rounds\<close>

definition seen_receipts :: "'e node_view list \<Rightarrow> signed_receipt list \<Rightarrow> signed_receipt set" where
  "seen_receipts views held = set held \<union> {e. \<exists>view \<in> set views. \<exists>rs. nv_receipts view 0 RECEIPT_PAGE = Inr rs \<and> e \<in> set rs}"

lemma seen_receipts_Cons:
  "nv_receipts view 0 RECEIPT_PAGE = Inr rs \<Longrightarrow> seen_receipts (view # views) held = set rs \<union> seen_receipts views held"
  by (auto simp: seen_receipts_def)

text \<open>A proof of a contradiction between two receipts that were seen.\<close>

definition filed :: "crypto \<Rightarrow> runtime \<Rightarrow> court option \<Rightarrow> bytes \<Rightarrow> signed_receipt set \<Rightarrow> solana_instruction list \<Rightarrow> bool" where
  "filed C R court key seen instructions \<longleftrightarrow> (\<exists>c a b. court = Some c \<and> a \<in> seen \<and> b \<in> seen \<and> a \<noteq> b \<and>
     r_seq (s_receipt a) = r_seq (s_receipt b) \<and> r_log_id (s_receipt a) = r_log_id (s_receipt b) \<and>
     verify C a key = Inr () \<and> verify C b key = Inr () \<and>
     instructions = court_prove_equivocation R (co_addresses c) (co_payer c) key a b)"

lemma filed_mono: "filed C R court key seen i \<Longrightarrow> seen \<subseteq> seen' \<Longrightarrow> filed C R court key seen' i"
  unfolding filed_def by blast

text \<open>How far a round gets: to nothing, to the scan of the log, or through.\<close>

lemma watch_round_cases:
  assumes "watch_round C R court key log_id held patience view ws = (ws', result)"
  obtains (unseen) error where "nv_receipts view 0 RECEIPT_PAGE = Inl error" "ws' = ws" "result = Inl (ClientFailed error)"
  | (seen) rs operator r where "nv_receipts view 0 RECEIPT_PAGE = Inr rs" "operator = resolve_operator key log_id rs (ws_resolved ws)"
    "r = report C R (scan_receipts C (rs @ held) operator) operator court (ws_totals ws, ws_sent ws)"
    "ws_sent ws' = snd r" "ws_resolved ws' = Some operator"
    "\<forall>head. result = Inr () \<longrightarrow> nv_slot view = Inr head \<longrightarrow>
      ws_next_slot ws' = max (ws_next_slot ws) head \<and> seen_slots C view (ws_next_slot ws) head ws'"
proof (cases "nv_receipts view 0 RECEIPT_PAGE")
  case (Inr rs)
  let ?op = "resolve_operator key log_id rs (ws_resolved ws)"
  let ?r = "report C R (scan_receipts C (rs @ held) ?op) ?op court (ws_totals ws, ws_sent ws)"
  let ?ws = "ws\<lparr>ws_resolved := Some ?op, ws_totals := fst ?r, ws_sent := snd ?r\<rparr>"
  show thesis
  proof (cases "nv_slot view")
    case (Inl error)
    then have "ws' = ?ws" "result = Inl (ClientFailed error)"
      using assms Inr by (simp_all add: watch_round_def Let_def case_prod_unfold)
    then show thesis
      using seen [OF Inr] by simp
  next
    case slot: (Inr at)
    obtain ws1 stop where slots: "watch_slots C R court key ?op (receipt_index_build C rs ?op) view at ?ws = (ws1, stop)"
      by fastforce
    note spec = watch_slots_spec [OF slots]
    let ?d = "report C R (scan_withholding C rs (ws_executed ws1) (ws_blockhashes ws1) (saturating_sub (ws_next_slot ws1) 1) patience ?op)
      ?op court (ws_totals ws1, ws_sent ws1)"
    have quiet: "snd ?d = ws_sent ws1"
      using report_quiet [OF ballI [OF deliveries_quiet]] by simp
    have "(ws', result) = (case stop of Inl stop \<Rightarrow> (ws1, Inl stop) | Inr _ \<Rightarrow> (ws1\<lparr>ws_totals := fst ?d, ws_sent := snd ?d\<rparr>, Inr ()))"
      using assms Inr slot slots by (cases stop) (auto simp: watch_round_def Let_def case_prod_unfold simp del: watch_slots.simps)
    then show thesis
      using seen [OF Inr refl refl] spec slot quiet by (cases stop) (auto simp: seen_slots_def)
  qed
qed (use assms unseen in \<open>simp add: watch_round_def\<close>)

lemma watch_round_filed:
  assumes "watch_round C R court key log_id held patience view ws = (ws', result)"
    and "\<forall>operator. ws_resolved ws = Some operator \<longrightarrow> op_key operator = key"
  shows "(\<forall>operator. ws_resolved ws' = Some operator \<longrightarrow> op_key operator = key) \<and>
    (\<forall>i \<in> set (ws_sent ws'). i \<in> set (ws_sent ws) \<or> filed C R court key (seen_receipts [view] held) i)"
  using assms(1)
proof (cases rule: watch_round_cases)
  case unseen
  then show ?thesis
    using assms(2) by simp
next
  case (seen rs operator r)
  have key: "op_key operator = key"
    using assms(2) seen(2) by (simp add: resolve_operator_def Let_def split: option.splits)
  have "filed C R court key (seen_receipts [view] held) i" if i: "i \<in> set (snd r)" "i \<notin> set (ws_sent ws)" for i
  proof -
    obtain f c where f: "f \<in> set (sc_faults (scan_receipts C (rs @ held) operator))" "court = Some c" "court_convict R c f operator = Some i"
      using report_sent [OF i(1) [unfolded seen(3)]] i(2) by auto
    from f(1) show ?thesis
    proof (cases rule: scan_receipts_fault)
      case (1 a b)
      then have "i = court_prove_equivocation R (co_addresses c) (co_payer c) key a b"
        using f(3) key by (simp add: court_convict_def)
      then show ?thesis
        unfolding filed_def using 1 f(2) key seen(1)
        by (intro exI [of _ c] exI [of _ a] exI [of _ b]) (auto simp: accepted_iff seen_receipts_def)
    qed (use f(3) in \<open>simp_all add: court_convict_def\<close>)
  qed
  then show ?thesis
    using seen(4,5) key by auto
qed

lemma watch_rounds_filed:
  assumes "watch_rounds C R court key log_id held patience views ws = (ws', result)"
    and "\<forall>operator. ws_resolved ws = Some operator \<longrightarrow> op_key operator = key" and "i \<in> set (ws_sent ws')"
  shows "i \<in> set (ws_sent ws) \<or> filed C R court key (seen_receipts views held) i"
  using assms
proof (induction views arbitrary: ws)
  case (Cons view views)
  obtain ws1 stop where round: "watch_round C R court key log_id held patience view ws = (ws1, stop)"
    by fastforce
  note new = watch_round_filed [OF round Cons.prems(2)]
  have sub: "seen_receipts [view] held \<subseteq> seen_receipts (view # views) held" "seen_receipts views held \<subseteq> seen_receipts (view # views) held"
    by (auto simp: seen_receipts_def)
  show ?case
  proof (cases stop)
    case (Inl reason)
    then show ?thesis
      using Cons.prems(1,3) round new filed_mono [OF _ sub(1)] by auto
  next
    case (Inr u)
    then have "watch_rounds C R court key log_id held patience views ws1 = (ws', result)"
      using Cons.prems(1) round by simp
    then show ?thesis
      using Cons.IH [OF _ conjunct1 [OF new] Cons.prems(3)] new filed_mono [OF _ sub(1)] filed_mono [OF _ sub(2)] by blast
  qed
qed simp

text \<open>
  C22. The watchtower takes nobody to court without proof: whatever nodes answer over any number of rounds,
  also in a round that a failing request cuts short, each transaction it sends is the proof that two
  different receipts, both among those it was shown or holds and both signed by the watched key, speak
  about one position of one log.
\<close>
theorem watch_files_proofs:
  assumes "watch_rounds C R court key log_id held patience views watch_new = (ws, result)" and "instructions \<in> set (ws_sent ws)"
  shows "\<exists>c a b. court = Some c \<and> {a, b} \<subseteq> seen_receipts views held \<and> a \<noteq> b \<and>
    r_seq (s_receipt a) = r_seq (s_receipt b) \<and> r_log_id (s_receipt a) = r_log_id (s_receipt b) \<and>
    verify C a key = Inr () \<and> verify C b key = Inr () \<and>
    instructions = court_prove_equivocation R (co_addresses c) (co_payer c) key a b"
  using watch_rounds_filed [OF assms(1) _ assms(2)] by (simp add: watch_new_def filed_def)

text \<open>
  C14. An honest operator is never taken to court: if every receipt that verifies under its key was issued
  by its own writer, then whatever its node answers, with whatever blocks, heads and receipts of others
  and in whatever order over the rounds, and wherever a failing request ends them, the watchtower sends
  nothing.
\<close>
theorem honest_never_tried:
  assumes "run_writer C inbox (writer_new C key nanos minted False deadline) st0 = (w, st, events, replies)"
    and "length inbox < 2 ^ 64"
    and "\<forall>e \<in> seen_receipts views held. verify C e (verifying_key C key) = Inr () \<longrightarrow> e \<in> set events"
    and "watch_rounds C R court (verifying_key C key) log_id held patience views watch_new = (ws, result)"
  shows "ws_sent ws = []"
proof (rule ccontr)
  assume "ws_sent ws \<noteq> []"
  then obtain i where "i \<in> set (ws_sent ws)"
    by (cases "ws_sent ws") auto
  from watch_rounds_filed [OF assms(4) _ this] have "filed C R court (verifying_key C key) (seen_receipts views held) i"
    by (simp add: watch_new_def)
  then obtain a b where ab: "a \<in> set events" "b \<in> set events" "a \<noteq> b" "r_seq (s_receipt a) = r_seq (s_receipt b)"
    using assms(3) unfolding filed_def by blast
  have chain: "chained C 0 GENESIS_PREV_HASH events" and short: "length events < 2 ^ 64"
    using run_writer_chain [OF _ assms(1)] assms(2) by simp_all
  then show False
    using chained_seq_unique [OF chain short ab(1,2,4)] ab(3) by simp
qed

text \<open>
  C32. A round over a node that answers ends, and misses nothing: it always completes without panicking, the
  next slot to ask for is then the head, and every transaction of every block in between whose order
  could be recovered is on record as executed.
\<close>
theorem round_completes:
  assumes "nv_receipts view 0 RECEIPT_PAGE = Inr receipts" and "nv_slot view = Inr head" and "\<forall>n. \<not> is_err (nv_block view n)"
  shows "\<exists>ws'. watch_round C R court key log_id held patience view ws = (ws', Inr ()) \<and> ws_next_slot ws' = max (ws_next_slot ws) head \<and>
    (\<forall>n block order t. ws_next_slot ws \<le> n \<and> n < head \<and> nv_block view n = Inr (Some block) \<and> executed_order C block = Some order \<and>
      t \<in> set order \<longrightarrow> ei_by_signature (ws_executed ws') (ot_signature t) \<noteq> None)"
proof -
  let ?op = "resolve_operator key log_id receipts (ws_resolved ws)"
  let ?r = "report C R (scan_receipts C (receipts @ held) ?op) ?op court (ws_totals ws, ws_sent ws)"
  obtain ws1 where "watch_slots C R court key ?op (receipt_index_build C receipts ?op) view head
      (ws\<lparr>ws_resolved := Some ?op, ws_totals := fst ?r, ws_sent := snd ?r\<rparr>) = (ws1, Inr ())"
    using watch_slots_answered [OF assms(3)] by blast
  then obtain ws' where ws': "watch_round C R court key log_id held patience view ws = (ws', Inr ())"
    using assms(1,2) by (simp add: watch_round_def Let_def case_prod_unfold del: watch_slots.simps)
  have "ws_next_slot ws' = max (ws_next_slot ws) head" and seen: "seen_slots C view (ws_next_slot ws) head ws'"
    using ws' by (rule watch_round_cases; simp add: assms(1,2))+
  moreover have "ei_by_signature (ws_executed ws') (ot_signature t) \<noteq> None"
    if "ws_next_slot ws \<le> n \<and> n < head \<and> nv_block view n = Inr (Some block) \<and> executed_order C block = Some order \<and> t \<in> set order"
    for n block order t
    using that seen unfolding seen_slots_def by blast
  ultimately show ?thesis
    using ws' by blast
qed

end
