(* ===== verification/Demo_Service.thy ===== *)
theory Demo_Service
  imports Service Watch_Safety Demo_Writer Demo_Chain
begin

text \<open>
  A node serving one transaction and a watchtower over two nodes, one honest and one that signed two
  statements about its first position, on which the properties of the service are shown to apply.
\<close>

definition demo_libs :: rpc_libs where
  "demo_libs =
     \<lparr>rl_base64 = map (\<lambda>b. char_of (unat b)), rl_unbase64 = (\<lambda>s. Some (map (\<lambda>c. of_nat (of_char c)) s)), rl_unbase58 = (\<lambda>_. None),
      rl_deserialize = (\<lambda>bs. Some \<lparr>wt_signature = replicate 64 7, wt_recent_blockhash = replicate 32 3, wt_encoded = bs,
          wt_message = Legacy, wt_program_ids = [2]\<rparr>),
      rl_sanitize = (\<lambda>_. None), rl_valid_key = (\<lambda>_. True)\<rparr>"

lemma demo_libs_ok: "base64_ok demo_libs"
proof -
  have "of_nat (of_char (char_of (unat b))) = b" for b :: u8
    using unat_less_2p [of b] by simp
  then show ?thesis
    by (simp add: base64_ok_def demo_libs_def comp_def)
qed

definition demo_env :: request_env where
  "demo_env = \<lparr>rq_now = 0, rq_writer = demo_moment, rq_outcome = demo_moment, rq_accounts = None, rq_schedule = (\<lambda>_ _. Inr ())\<rparr>"

definition demo_node :: rpc_node where
  "demo_node =
     \<lparr>nd_primary = True,
      nd_admission =
        \<lparr>as_blocks = set_latest 0 (replicate 32 3, 9)
           \<lparr>bc_block_validity = 150, bc_latest = (replicate 32 0, 0), bc_ready = False, bc_cache = cache_new BLOCK_CACHE_TTL\<rparr>,
         as_transactions = cache_new TRANSACTIONS_CACHE_TTL\<rparr>,
      nd_writer = demo_writer, nd_store = empty_store, nd_rig = rig_disabled\<rparr>"

lemma demo_sent:
  "\<exists>ticket node' receipt. send_transaction demo_crypto demo_libs demo_env (Some [CHR 0x01]) Base64 True demo_node =
    (Inr (replicate 64 7, ticket), node', [\<lparr>wt_signature = replicate 64 7, wt_recent_blockhash = replicate 32 3, wt_encoded = [1], wt_message = Legacy, wt_program_ids = [2]\<rparr>], [receipt])"
proof -
  have "honest demo_writer"
    by (simp add: demo_writer_def)
  from demo_stamp_run [OF this, of demo_crypto empty_store] obtain w st e where
    "handle demo_crypto demo_moment demo_stamp demo_writer empty_store = (w, st, [e], Stamped (Inr e))"
    by blast
  then show ?thesis
    by (simp add: send_transaction_def require_primary_rpc_method_def prepare_transaction_def finish_send_def serve_def
        validate_supported_transaction_shape_def MAX_RUNTIME_PROGRAM_ID_INDEX_EXCLUSIVE_def LEN_PUBKEY_def
        demo_node_def demo_libs_def demo_env_def set_latest_def cache_new_def cache_push_def cache_contains_def cache_get_def reserve_def
        rig_disabled_def intercept_def schedule_all_def result_simps Let_def case_prod_unfold del: handle.simps)
qed

theorem sends_are_receipted_witness:
  "\<exists>ticket node' receipt. send_transaction demo_crypto demo_libs demo_env (Some [CHR 0x01]) Base64 True demo_node =
    (Inr (replicate 64 7, ticket), node', [\<lparr>wt_signature = replicate 64 7, wt_recent_blockhash = replicate 32 3, wt_encoded = [1], wt_message = Legacy, wt_program_ids = [2]\<rparr>], [receipt]) \<and>
    r_tx_sig (s_receipt receipt) = replicate 64 7 \<and>
    (\<exists>oc. read_receipt_by_signature sound_disk (replicate 64 7) (nd_store node') =
      Inr (Some (r_seq (s_receipt receipt), oc, signed_to_bytes receipt)))"
proof -
  obtain ticket node' receipt where sent: "send_transaction demo_crypto demo_libs demo_env (Some [CHR 0x01]) Base64 True demo_node =
    (Inr (replicate 64 7, ticket), node', [\<lparr>wt_signature = replicate 64 7, wt_recent_blockhash = replicate 32 3, wt_encoded = [1], wt_message = Legacy, wt_program_ids = [2]\<rparr>], [receipt])"
    using demo_sent by blast
  have "honest (nd_writer demo_node)" "store_ok (nd_store demo_node)" "ar_mode (nd_rig demo_node) = NoAttack"
    by (simp_all add: demo_node_def demo_writer_def rig_disabled_def)
  from sends_are_receipted [OF demo_crypto_ok this sent] show ?thesis
    using sent sound_disk_simps(3) by blast
qed

theorem page_parses_witness:
  "\<exists>w st e page. run_writer demo_crypto [(demo_moment, demo_stamp)] demo_writer empty_store = (w, st, [e], [Stamped (Inr e)]) \<and>
    get_receipts demo_libs sound_disk (Some 0) None st = Inr page \<and>
    collect_results (map (\<lambda>e. parse_receipt_entry demo_libs (Some (en_receipt e))) page) = Inr [e]"
proof -
  obtain w st e where run: "run_writer demo_crypto [(demo_moment, demo_stamp)] demo_writer empty_store = (w, st, [e], [Stamped (Inr e)])"
    using demo_run by blast
  have shape: "\<forall>(now, command) \<in> set [(demo_moment, demo_stamp)]. command_shape command"
    "\<forall>(now, command) \<in> set [(demo_moment, demo_stamp)]. indexable (mo_disk now)"
    by (simp_all add: command_shape_def demo_moment_def)
  have "[e] = take (unat (min (case None of Some n \<Rightarrow> n | None \<Rightarrow> 1000) (1000 :: u64))) (drop (unat (0 :: u64)) [e])"
    by simp
  from page_parses [OF demo_crypto_ok demo_libs_ok _ _ shape(1) run [unfolded demo_writer_def] sound_disk_simps(3) this]
  obtain page where "get_receipts demo_libs sound_disk (Some 0) None st = Inr page" "length page = 1"
    "collect_results (map (\<lambda>e. parse_receipt_entry demo_libs (Some (en_receipt e))) (take 1 page)) = Inr [e]"
    using shape(2) by auto
  moreover from this have "take 1 page = page"
    by simp
  ultimately show ?thesis
    using run by metis
qed

section \<open>Under watch\<close>

definition demo_view :: "signed_receipt list \<Rightarrow> u64 \<Rightarrow> observed_block option \<Rightarrow> unit node_view" where
  "demo_view receipts head block =
     \<lparr>nv_receipts = (\<lambda>_ _. Inr receipts), nv_slot = Inr head, nv_block = (\<lambda>_. Inr block)\<rparr>"

definition demo_bench :: "court option" where
  "demo_bench = Some \<lparr>co_payer = replicate 32 1, co_addresses = \<lparr>ad_program = replicate 32 2, ad_operator = replicate 32 3\<rparr>\<rparr>"

abbreviation demo_two_faced :: "unit node_view" where
  "demo_two_faced \<equiv> demo_view [demo_signed (demo_bound 0 2), demo_signed (demo_bound 0 3)] 1 None"

lemma demo_watch_one:
  "\<exists>ws. watch_rounds C R court key log_id held patience [demo_view receipts 1 None] watch_new = (ws, Inr ()) \<and>
     ws_sent ws = snd (report C R (scan_receipts C (receipts @ held) (resolve_operator key log_id receipts None))
       (resolve_operator key log_id receipts None) court (totals_new, []))"
proof -
  let ?op = "resolve_operator key log_id receipts None"
  let ?r = "report C R (scan_receipts C (receipts @ held) ?op) ?op court (totals_new, [])"
  let ?ws = "watch_new\<lparr>ws_resolved := Some ?op, ws_totals := fst ?r, ws_sent := snd ?r\<rparr>"
  have slots: "watch_slots C R court key ?op index (demo_view receipts 1 None) 1 ?ws = (?ws, Inr ())" for index
    by (subst watch_slots.simps) (simp add: watch_new_def)
  have quiet: "snd (report C R (scan_withholding C receipts a b c patience ?op) ?op court acc) = snd acc" for a b c acc
    by (rule report_quiet) (use deliveries_quiet in blast)
  have new: "ws_resolved watch_new = None" "ws_totals watch_new = totals_new" "ws_sent watch_new = []"
    by (simp_all add: watch_new_def)
  show ?thesis
    using slots by (simp add: watch_round_def demo_view_def result_simps Let_def case_prod_unfold new quiet del: watch_slots.simps)
qed

lemma demo_equivocation:
  "Equivocation 0 (demo_signed (demo_bound 0 2)) (demo_signed (demo_bound 0 3)) \<in>
     set (sc_faults (scan_receipts demo_crypto [demo_signed (demo_bound 0 2), demo_signed (demo_bound 0 3)] watched))"
  "fault_verify demo_crypto (Equivocation 0 (demo_signed (demo_bound 0 2)) (demo_signed (demo_bound 0 3))) (op_key watched) = Inr ()"
proof -
  let ?a = "demo_signed (demo_bound 0 2)" and ?b = "demo_signed (demo_bound 0 3)"
  have "?a \<noteq> ?b"
    by (simp add: demo_bound_def demo_receipt_def)
  moreover have "verify demo_crypto ?a (op_key watched) = Inr ()" "verify demo_crypto ?b (op_key watched) = Inr ()"
    by (rule demo_signed_verifies, simp add: validate_def demo_bound_def demo_receipt_def ZERO_SIG_def ZERO_PUBKEY_def)+
  ultimately show "Equivocation 0 ?a ?b \<in> set (sc_faults (scan_receipts demo_crypto [?a, ?b] watched))"
    "fault_verify demo_crypto (Equivocation 0 ?a ?b) (op_key watched) = Inr ()"
    by (simp_all add: scan_receipts_def check_belongs_here_def scan_new_def check_one_statement_per_sequence_def
        check_origin_def check_link_def fault_signed_def same_log_def result_simps Let_def)
qed

theorem watch_files_proofs_witness:
  "\<exists>ws i. watch_rounds demo_crypto (demo_runtime 0 []) demo_bench (op_key watched) None [] patience_default [demo_two_faced] watch_new = (ws, Inr ()) \<and>
    i \<in> set (ws_sent ws) \<and> (\<exists>a b. a \<noteq> b \<and> {a, b} \<subseteq> seen_receipts [demo_two_faced] [] \<and>
      verify demo_crypto a (op_key watched) = Inr () \<and> verify demo_crypto b (op_key watched) = Inr ())"
proof -
  let ?rs = "[demo_signed (demo_bound 0 2), demo_signed (demo_bound 0 3)]"
  have op: "resolve_operator (op_key watched) None ?rs None = watched"
    by (simp add: resolve_operator_def watched_def)
  obtain ws where ws: "watch_rounds demo_crypto (demo_runtime 0 []) demo_bench (op_key watched) None [] patience_default [demo_two_faced] watch_new = (ws, Inr ())"
    "ws_sent ws = snd (report demo_crypto (demo_runtime 0 []) (scan_receipts demo_crypto ?rs watched) watched demo_bench (totals_new, []))"
    using demo_watch_one [of demo_crypto "demo_runtime 0 []" demo_bench "op_key watched" None "[]" patience_default ?rs] op by auto
  obtain c i where "demo_bench = Some c"
    "court_convict (demo_runtime 0 []) c (Equivocation 0 (demo_signed (demo_bound 0 2)) (demo_signed (demo_bound 0 3))) watched = Some i"
    by (simp add: demo_bench_def court_convict_def)
  then have "i \<in> set (ws_sent ws)"
    unfolding ws(2) report_def Let_def prod.case by (rule report_faults_files [OF demo_equivocation(1) _ demo_equivocation(2)])
  with watch_files_proofs [OF ws(1) this] ws(1) show ?thesis
    by blast
qed

theorem honest_never_tried_witness:
  "\<exists>w st e ws. run_writer demo_crypto [(demo_moment, demo_stamp)] demo_writer empty_store = (w, st, [e], [Stamped (Inr e)]) \<and>
    watch_rounds demo_crypto (demo_runtime 0 []) demo_bench (verifying_key demo_crypto [1]) None [e] patience_default [demo_view [e] 1 None] watch_new = (ws, Inr ()) \<and>
    ws_sent ws = []"
proof -
  obtain w st e where run: "run_writer demo_crypto [(demo_moment, demo_stamp)] demo_writer empty_store = (w, st, [e], [Stamped (Inr e)])"
    using demo_run by blast
  obtain ws where ws: "watch_rounds demo_crypto (demo_runtime 0 []) demo_bench (verifying_key demo_crypto [1]) None [e] patience_default
      [demo_view [e] 1 None] watch_new = (ws, Inr ())"
    using demo_watch_one by blast
  have "ws_sent ws = []"
    by (rule honest_never_tried [OF run [unfolded demo_writer_def] _ _ ws]) (auto simp: seen_receipts_def demo_view_def)
  with run ws show ?thesis
    by blast
qed

theorem round_completes_witness:
  "\<exists>ws. watch_round demo_crypto (demo_runtime 0 []) None (op_key watched) None [] patience_default
      (demo_view [] 2 (Some (demo_block [demo_txn 2]))) watch_new = (ws, Inr ()) \<and>
    ws_next_slot ws = 2 \<and> ei_by_signature (ws_executed ws) (replicate 64 2) \<noteq> None"
proof -
  let ?view = "demo_view [] 2 (Some (demo_block [demo_txn 2]))"
  have order: "executed_order demo_crypto (demo_block [demo_txn 2]) = Some [demo_txn 2]"
    by (simp add: executed_order_def order_derive_def demo_block_def)
  obtain ws where ws: "watch_round demo_crypto (demo_runtime 0 []) None (op_key watched) None [] patience_default ?view watch_new = (ws, Inr ())"
    "ws_next_slot ws = max (ws_next_slot watch_new) 2"
    "\<forall>n block order t. ws_next_slot watch_new \<le> n \<and> n < 2 \<and> nv_block ?view n = Inr (Some block) \<and> executed_order demo_crypto block = Some order \<and>
      t \<in> set order \<longrightarrow> ei_by_signature (ws_executed ws) (ot_signature t) \<noteq> None"
    using round_completes [of ?view "[]" 2 demo_crypto "demo_runtime 0 []" None "op_key watched" None "[]" patience_default watch_new]
    by (auto simp: demo_view_def watch_new_def is_err_def)
  have "ei_by_signature (ws_executed ws) (ot_signature (demo_txn 2)) \<noteq> None"
    using ws(3) [rule_format, of 1 "demo_block [demo_txn 2]" "[demo_txn 2]" "demo_txn 2"] order by (simp add: watch_new_def demo_view_def)
  with ws(1,2) show ?thesis
    by (auto simp: demo_txn_def watch_new_def)
qed

end
