(* ===== verification/Spec2Isabelle.thy ===== *)
theory Spec2Isabelle
  imports Pool_Runs Registration Block_Reports Demo_Writer Replay Demo_Scheduler Demo_Service
begin

text \<open>
  A verification development for the ordering receipts of a Solana rollup.

  \<^bold>\<open>The system.\<close> The operator of a node signs, for every transaction it accepts, a receipt that
  fixes the transaction's place in an append-only log. Receipts are public, so two receipts for one
  place are proof that the operator equivocated, and an execution against their order is proof that
  it reordered. A watchtower follows the node, compares receipts and blocks, and takes equivocation to
  an on-chain program, which slashes the operator's bond and shares it between the victim, the stakers
  and the incinerator. The parts, in the direction a transaction travels:

  \<^item> The RPC service (\<open>magicblock-aperture\<close>) admits a transaction, has it receipted and forwards it.
  \<^item> The receipt writer (\<open>magicblock-receipts\<close>) signs and broadcasts receipts and keeps them in the log of
    the ledger (\<open>magicblock-ledger\<close>).
  \<^item> The scheduler (\<open>magicblock-processor\<close>) locks accounts, hands transactions to executors and closes blocks.
  \<^item> The watchtower (\<open>crates/watchtower\<close>) scans the log, the blocks and what clients hold, and files proofs
    built by \<open>crates/court\<close>.
  \<^item> The program (\<open>crates/program\<close>) holds bonds and stakes by the arithmetic of \<open>crates/slashing\<close>.
  \<^item> \<open>crates/receipt\<close> and \<open>crates/constants\<close> fix the bytes they all speak.

  \<^bold>\<open>Conventions.\<close> Definitions keep the names of the source, prefixed with the type where the source has a
  method of a common name. Rust integers are words of their width and wrap where release builds wrap;
  where the source checks, the model checks. A \<open>Result\<close> is a sum with the error on the left, composed by
  \<open>and_then\<close>, \<open>ok_or\<close> and \<open>map_err\<close> of \<open>Prelude\<close>; a panic is \<open>None\<close>. A struct is a record, a \<open>HashMap\<close> a map, a
  \<open>BTreeMap\<close> an ordered association list, a \<open>Vec\<close> a list. State is passed and returned. What the
  repository does not contain is a parameter: \<open>crypto\<close> (SHA-256, Blake3, Ed25519, with \<open>crypto_ok\<close>: lengths, and
  that a signature verifies), \<open>runtime\<close> (the Solana runtime and its system program, with \<open>runtime_ok\<close>),
  \<open>rpc_libs\<close> (encodings and decoding of transactions, with \<open>base64_ok\<close>), the answers of a watched node, of the
  ledger and of the disk, and the clock. No injectivity of a hash is assumed: results that depend on it
  end in an explicit \<open>collision\<close>. The theories whose names begin with \<open>Demo\<close> give concrete instances that satisfy
  these hypotheses and evaluate the model on them.

  \<^bold>\<open>Bytes.\<close> \<open>Codec\<close> states the interface between writers and readers of bytes (\<open>codec\<close>, \<open>prefix_codec\<close>);
  \<open>Constants\<close>, \<open>Receipt\<close>, \<open>Accounts\<close> and \<open>Instruction\<close> model the formats and interpret it: parsing inverts
  printing, and what parses is what was printed. \<open>Evidence\<close> models \<open>ed25519.rs\<close>, \<open>evidence.rs\<close> and
  \<open>transaction.rs\<close> of the program: what the program accepts as a contradiction is exactly two different
  well-formed messages about one position of one log.

  \<^bold>\<open>Money.\<close> \<open>Slashing\<close> models the split of a bond, the pool and a position; \<open>Pool_Contract\<close> states the
  contract of the pool (\<open>coverage_pool\<close>) and interprets it; \<open>Pool_Runs\<close> shows that a pool never owes more
  than it was given. \<open>Processor\<close> has the eight handlers of \<open>processor.rs\<close>, guard by guard, on a world of accounts;
  \<open>Chain\<close> gives the effect of each when it succeeds. A chain (\<open>Coverage\<close>) runs any instruction on any
  accounts, and in between the world may change in any way the program's accounts are safe from; the log
  of what it ran says which operators registered with a bond that overflows together with the rent
  (\<open>overbonded\<close>), which the handler does not check.
  \<open>Conservation\<close>: no lamport is made or lost. \<open>Coverage\<close>, \<open>Stakers\<close>: the account of every other operator
  always covers rent, bond, stakes and rewards, so stakers are never refused. \<open>Conviction\<close>, \<open>Slashing_Safety\<close>, \<open>Compensation\<close>: an
  operator is slashed once, a bond leaves by conviction or behind its timelock only, and the split
  goes where it should, once. \<open>Court\<close>, \<open>Justice\<close>: what the court builds from two contradicting receipts
  convicts, if the operator is not over-bonded and the address of the conviction is untouched, and nothing
  else does. \<open>Registration\<close> shows three limits of registering and convicting.

  \<^bold>\<open>Log.\<close> \<open>Ordered_Map\<close> (\<open>ordered_store\<close>) and \<open>Receipt_Log\<close> model the receipt columns of the ledger, each
  access of which may fail; \<open>Pending\<close> (\<open>promises\<close>) the positions promised blind; \<open>Writer\<close> the writer as a
  function of its inbox. \<open>Writer_Log\<close>, \<open>Honest_Writer\<close>: on any ledger and disk the log begins with a
  gapless chain, exactly what was broadcast, and what was broadcast is never evidence against its writer; a
  write that fails half way leaves one more row, which can be (\<open>storage_failure_equivocates\<close>).
  \<open>Promises\<close>: a promised position is filled at most once and with the contents its ticket names.

  \<^bold>\<open>Service.\<close> \<open>Expiring_Cache\<close> (\<open>aging_cache\<close>) and \<open>Replay\<close>: a signature is admitted once while blocks keep
  coming, and twice when they stall. \<open>Rpc\<close> models the endpoints that issue and serve receipts with the attack
  rig in its place. \<open>Service\<close>: nothing reaches the scheduler without its receipt, and a page of the log
  begins with what was broadcast from its position on.

  \<^bold>\<open>Execution.\<close> \<open>Locks\<close> (\<open>reader_writer\<close>), \<open>Coordinator\<close> and \<open>Scheduler\<close> model the scheduler; its loop is the
  relation \<open>sched_step\<close>, a rule for each branch. \<open>Scheduler_Safety\<close>: running transactions never conflict.
  \<open>Scheduler_Progress\<close>: nothing is stranded, and the wait before a snapshot ends; its fuel is the number of
  notifications, and the number of blocked and running transactions is enough. This needs that no
  transaction names an account twice, which the sources do not enforce (\<open>twice_named_stalls\<close>).
  \<open>Scheduler_Order\<close>: a replica that replays the order of its primary computes its hash. \<open>Demo_Scheduler\<close>: a
  primary may hand out conflicting transactions against the order of their receipts.

  \<^bold>\<open>Watching.\<close> \<open>Watchtower\<close> has the data, faults and their verification, \<open>Scans\<close> the three scans, \<open>Watch\<close> the program
  around them; a round answers with the state it reached also when a request fails in it. \<open>Accusations\<close>,
  \<open>Block_Accusations\<close>: the faults of the log and those about order and withdrawal of plain receipts re-derive
  from their own evidence; those about deliveries and missing receipts are statements about what was
  seen, and are characterised as such. \<open>Block_Reports\<close>: missing receipts and reorderings of client
  transactions are always reported, pairs with an operator's own recorded as undetermined. \<open>Watch_Safety\<close>: only proofs are filed, an honest operator is never tried, and a round completes.

  \<^bold>\<open>Not modelled.\<close> The executors and the virtual machine, cloning of accounts and commits to the base
  chain, the accounts database, the replication transport, the remaining RPC methods, columns of the
  ledger and sysvars, snapshots, configuration and metrics belong to the underlying validator, and
  no receipt passes through them; HTTP, JSON, printing, spawning of tasks and the browser
  application are input and output. Only one task runs each of the modelled components, so interleavings
  are sequences of commands; the pause semaphore of the scheduler is left out.
\<close>

end
